(* ===== verification/Lex_Prelude.thy ===== *)
theory Lex_Prelude
  imports Main "HOL-Library.Word" "HOL-Library.List_Lexorder" "HOL-Library.Char_ord"
    "HOL-Library.Multiset"
begin

text \<open>
  The prelude of the development: what the Rust standard library gives every crate of the
  repository, written once.
  \<^item> \<open>Result\<close> is the sum type with the error on the left, and \<open>rbind\<close> is the question-mark
    operator;
  \<^item> \<open>BTreeMap\<close> and \<open>BTreeSet\<close> are strictly sorted association lists and lists (iteration in
    key order is observable in this code base: canonical forms, merge outcomes and conflict
    lists all depend on it). The interface the clients use is the locale \<open>ordered_map\<close>,
    interpreted here on the sorted association lists;
  \<^item> \<open>u64::to_be_bytes\<close> and \<open>u64::from_be_bytes\<close> on byte lists;
  \<^item> \<open>i32\<close> arithmetic with its wrap-around written out on \<open>int\<close>.
\<close>

named_theorems bt_simps \<open>rewriting of sorted-map operations\<close>
named_theorems bt_intros \<open>sortedness is kept by every operation\<close>

section \<open>Results\<close>

type_synonym byte = "8 word"
type_synonym u64 = "64 word"

text \<open>The kinds of \<open>std::io::Error\<close> that the modelled code can meet.\<close>

datatype io_error = InvalidData | UnexpectedEof | NotFound

type_synonym 'a io_result = "io_error + 'a"

definition rbind :: "'e + 'a \<Rightarrow> ('a \<Rightarrow> 'e + 'b) \<Rightarrow> 'e + 'b" where
  "rbind m f = (case m of Inl e \<Rightarrow> Inl e | Inr x \<Rightarrow> f x)"

lemma rbind_simps [simp]:
  "rbind (Inl e) f = Inl e"
  "rbind (Inr x) f = f x"
  by (simp_all add: rbind_def)

lemma rbind_eq_Inr [simp]: "rbind m f = Inr y \<longleftrightarrow> (\<exists>x. m = Inr x \<and> f x = Inr y)"
  by (cases m) auto

lemma rbind_cong [fundef_cong]:
  "m = m' \<Longrightarrow> (\<And>x. m' = Inr x \<Longrightarrow> f x = f' x) \<Longrightarrow> rbind m f = rbind m' f'"
  by (cases m') auto

fun rmap :: "('a \<Rightarrow> 'e + 'b) \<Rightarrow> 'a list \<Rightarrow> 'e + 'b list" where
  "rmap f [] = Inr []"
| "rmap f (x # xs) = rbind (f x) (\<lambda>y. rbind (rmap f xs) (\<lambda>ys. Inr (y # ys)))"

lemma rmap_all_Inr: "(\<And>x. x \<in> set xs \<Longrightarrow> f x = Inr (g x)) \<Longrightarrow> rmap f xs = Inr (map g xs)"
  by (induction xs) auto

lemma rmap_cong [fundef_cong]:
  "xs = ys \<Longrightarrow> (\<And>y. y \<in> set ys \<Longrightarrow> f y = g y) \<Longrightarrow> rmap f xs = rmap g ys"
  by (induction ys arbitrary: xs) simp_all

section \<open>Ordered maps\<close>

type_synonym ('k, 'v) btree_map = "('k \<times> 'v) list"

fun bt_insert :: "'k::linorder \<Rightarrow> 'v \<Rightarrow> ('k, 'v) btree_map \<Rightarrow> ('k, 'v) btree_map" where
  "bt_insert k v [] = [(k, v)]"
| "bt_insert k v (e # es) =
     (if fst e < k then e # bt_insert k v es
      else if k < fst e then (k, v) # e # es
      else (k, v) # es)"

definition bt_remove :: "'k \<Rightarrow> ('k, 'v) btree_map \<Rightarrow> ('k, 'v) btree_map" where
  "bt_remove k m = filter (\<lambda>e. fst e \<noteq> k) m"

definition bt_get :: "('k, 'v) btree_map \<Rightarrow> 'k \<Rightarrow> 'v option" where
  "bt_get m = map_of m"

definition bt_keys :: "('k, 'v) btree_map \<Rightarrow> 'k list" where
  "bt_keys m = map fst m"

definition bt_inv :: "('k::linorder, 'v) btree_map \<Rightarrow> bool" where
  "bt_inv m \<longleftrightarrow> sorted_wrt (<) (map fst m)"

definition bt_of_list :: "('k::linorder \<times> 'v) list \<Rightarrow> ('k, 'v) btree_map" where
  "bt_of_list kvs = fold (\<lambda>(k, v). bt_insert k v) kvs []"

lemma set_bt_insert_keys: "fst ` set (bt_insert k v m) = insert k (fst ` set m)"
  by (induction m) auto

lemma keys_insert [simp]: "set (bt_keys (bt_insert k v m)) = insert k (set (bt_keys m))"
  by (simp add: bt_keys_def set_bt_insert_keys)

lemma bt_inv_empty [bt_intros, simp]: "bt_inv []"
  by (simp add: bt_inv_def)

lemma bt_inv_insert [bt_intros]: "bt_inv m \<Longrightarrow> bt_inv (bt_insert k v m)"
proof (induction m)
  case Nil
  then show ?case by (simp add: bt_inv_def)
next
  case (Cons e es)
  have tl: "bt_inv es" and hd: "\<forall>x \<in> fst ` set es. fst e < x"
    using Cons.prems by (auto simp: bt_inv_def)
  have ins: "set (map fst (bt_insert k v es)) = insert k (fst ` set es)"
    using set_bt_insert_keys [of k v es] by simp
  show ?case
    using Cons.IH [OF tl] Cons.prems hd ins
    by (auto simp: bt_inv_def)
qed

lemma bt_inv_remove [bt_intros]: "bt_inv m \<Longrightarrow> bt_inv (bt_remove k m)"
  by (induction m) (auto simp: bt_inv_def bt_remove_def)

lemma bt_inv_distinct: "bt_inv m \<Longrightarrow> distinct (map fst m)"
  by (simp add: bt_inv_def strict_sorted_iff)

lemma bt_get_empty [bt_simps, simp]: "bt_get [] k = None"
  by (simp add: bt_get_def)

lemma bt_get_insert [bt_simps]: "bt_inv m \<Longrightarrow> bt_get (bt_insert k v m) = (bt_get m)(k \<mapsto> v)"
proof (induction m)
  case Nil
  then show ?case by (simp add: bt_get_def fun_eq_iff)
next
  case (Cons e es)
  obtain a b where e: "e = (a, b)" by (cases e)
  have tl: "bt_inv es" using Cons.prems by (auto simp: bt_inv_def)
  show ?case
    using Cons.IH [OF tl] by (auto simp: e bt_get_def fun_eq_iff)
qed

lemma bt_get_remove [bt_simps]: "bt_get (bt_remove k m) = (bt_get m)(k := None)"
  by (induction m) (auto simp: bt_get_def bt_remove_def fun_eq_iff)

lemma bt_get_None_iff: "bt_get m k = None \<longleftrightarrow> k \<notin> set (bt_keys m)"
  by (simp add: bt_get_def bt_keys_def map_of_eq_None_iff)

lemma bt_get_SomeD: "bt_get m k = Some v \<Longrightarrow> (k, v) \<in> set m"
  by (simp add: bt_get_def map_of_SomeD)

lemma bt_get_Some_iff: "bt_inv m \<Longrightarrow> bt_get m k = Some v \<longleftrightarrow> (k, v) \<in> set m"
  by (simp add: bt_get_def bt_inv_distinct)

text \<open>Two sorted maps with the same lookups are equal: the representation is canonical.\<close>

lemma bt_as_map: "bt_inv m \<Longrightarrow> map (\<lambda>k. (k, the (bt_get m k))) (map fst m) = m"
proof (induction m)
  case Nil
  then show ?case by simp
next
  case (Cons e m)
  have "map (\<lambda>k. (k, the (bt_get (e # m) k))) (map fst m) = map (\<lambda>k. (k, the (bt_get m k))) (map fst m)"
    using Cons.prems by (auto simp: bt_inv_def bt_get_def)
  moreover have "bt_inv m"
    using Cons.prems by (simp add: bt_inv_def)
  ultimately have "map (\<lambda>k. (k, the (bt_get (e # m) k))) (map fst m) = m"
    using Cons.IH by (simp only:)
  then show ?case
    by (cases e) (simp add: bt_get_def del: map_map)
qed

lemma bt_eqI:
  assumes "bt_inv m" and "bt_inv n" and "bt_get m = bt_get n"
  shows "m = n"
proof -
  have "dom (bt_get m) = dom (bt_get n)"
    by (simp add: assms(3))
  then have "set (map fst m) = set (map fst n)"
    by (simp add: bt_get_def dom_map_of_conv_image_fst)
  then have "map fst m = map fst n"
    using assms(1,2) by (auto simp: bt_inv_def intro: strict_sorted_equal)
  then show ?thesis
    using bt_as_map [OF assms(1)] bt_as_map [OF assms(2)] by (simp add: assms(3))
qed

subsection \<open>The map interface the clients rely on\<close>

text \<open>
  What the merge engine, the head replay and the merge session use of \<open>BTreeMap\<close>: lookups
  after an insertion and a removal, and the representation invariant that every operation
  keeps. The client lemmas are about folds of insertions and removals, the shape of every
  replay loop in the code.
\<close>

locale ordered_map =
  fixes empty :: "'m"
    and insert :: "'k \<Rightarrow> 'v \<Rightarrow> 'm \<Rightarrow> 'm"
    and remove :: "'k \<Rightarrow> 'm \<Rightarrow> 'm"
    and lookup :: "'m \<Rightarrow> 'k \<Rightarrow> 'v option"
    and inv :: "'m \<Rightarrow> bool"
  assumes lookup_empty: "lookup empty = Map.empty"
    and lookup_insert: "inv m \<Longrightarrow> lookup (insert k v m) = (lookup m)(k \<mapsto> v)"
    and lookup_remove: "inv m \<Longrightarrow> lookup (remove k m) = (lookup m)(k := None)"
    and inv_empty: "inv empty"
    and inv_insert: "inv m \<Longrightarrow> inv (insert k v m)"
    and inv_remove: "inv m \<Longrightarrow> inv (remove k m)"
begin

lemma fold_entries:
  assumes "inv m"
  shows "inv (fold (\<lambda>(k, vo) m. case vo of Some v \<Rightarrow> insert k v m | None \<Rightarrow> remove k m) es m) \<and>
    lookup (fold (\<lambda>(k, vo) m. case vo of Some v \<Rightarrow> insert k v m | None \<Rightarrow> remove k m) es m) =
      fold (\<lambda>(k, vo) f. f(k := vo)) es (lookup m)"
  using assms
proof (induction es arbitrary: m)
  case Nil
  then show ?case by simp
next
  case (Cons e es)
  obtain k vo where e: "e = (k, vo)" by (cases e)
  show ?case
  proof (cases vo)
    case None
    then show ?thesis
      using Cons.IH [of "remove k m"] Cons.prems
      by (simp add: e inv_remove lookup_remove)
  next
    case (Some v)
    then show ?thesis
      using Cons.IH [of "insert k v m"] Cons.prems
      by (simp add: e inv_insert lookup_insert)
  qed
qed

lemma fold_inserts:
  assumes "inv m"
  shows "inv (fold (\<lambda>(k, v). insert k v) kvs m) \<and>
    lookup (fold (\<lambda>(k, v). insert k v) kvs m) = fold (\<lambda>(k, v) f. f(k \<mapsto> v)) kvs (lookup m)"
  using assms
proof (induction kvs arbitrary: m)
  case Nil
  then show ?case by simp
next
  case (Cons e es)
  then show ?case
    using Cons.IH [of "insert (fst e) (snd e) m"]
    by (simp add: case_prod_beta inv_insert lookup_insert)
qed

end

interpretation bt: ordered_map "[]" bt_insert bt_remove bt_get bt_inv
  by unfold_locales (auto simp: bt_simps fun_eq_iff intro: bt_intros)

lemma fold_upd_distinct:
  "distinct (map fst es) \<Longrightarrow>
   fold (\<lambda>(k, vo) f. f(k := vo)) es f k = (case map_of es k of Some vo \<Rightarrow> vo | None \<Rightarrow> f k)"
proof (induction es arbitrary: f)
  case Nil
  then show ?case by simp
next
  case (Cons e es)
  have "map_of es (fst e) = None"
    using Cons.prems by (auto simp: map_of_eq_None_iff)
  then show ?case
    using Cons by (auto simp: case_prod_beta split: option.splits)
qed

lemma bt_inv_of_list [bt_intros]: "bt_inv (bt_of_list kvs)"
  using bt.fold_inserts [of "[]" kvs] by (simp add: bt_of_list_def)

section \<open>Ordered sets\<close>

text \<open>
  A \<open>BTreeSet\<close> iterates in order without duplicates: the strictly sorted list of its elements.
\<close>

definition bs_of_list :: "'k::linorder list \<Rightarrow> 'k list" where
  "bs_of_list xs = sort (remdups xs)"

lemma set_bs_of_list [simp]: "set (bs_of_list xs) = set xs"
  by (simp add: bs_of_list_def)

lemma strict_sorted_bs_of_list [simp]: "sorted_wrt (<) (bs_of_list xs)"
  by (simp add: bs_of_list_def strict_sorted_iff)

lemma bs_of_list_cong: "bs_of_list xs = bs_of_list ys \<longleftrightarrow> set xs = set ys"
  by (metis set_bs_of_list strict_sorted_bs_of_list strict_sorted_equal)

lemma bs_of_list_id: "sorted_wrt (<) xs \<Longrightarrow> bs_of_list xs = xs"
  by (simp add: bs_of_list_def strict_sorted_iff sort_key_id_if_sorted)

section \<open>Big-endian 64-bit lengths\<close>

fun be_bytes :: "nat \<Rightarrow> nat \<Rightarrow> byte list" where
  "be_bytes 0 n = []"
| "be_bytes (Suc w) n = be_bytes w (n div 256) @ [word_of_nat (n mod 256)]"

definition to_be_bytes :: "u64 \<Rightarrow> byte list" where
  "to_be_bytes x = be_bytes 8 (unat x)"

definition be_value :: "byte list \<Rightarrow> nat" where
  "be_value bs = foldl (\<lambda>acc b. acc * 256 + unat b) 0 bs"

definition from_be_bytes :: "byte list \<Rightarrow> u64" where
  "from_be_bytes bs = word_of_nat (be_value bs)"

lemma length_be_bytes [simp]: "length (be_bytes w n) = w"
  by (induction w arbitrary: n) auto

lemma be_value_snoc: "be_value (bs @ [b]) = be_value bs * 256 + unat b"
  by (simp add: be_value_def)

lemma be_value_be_bytes: "n < 256 ^ w \<Longrightarrow> be_value (be_bytes w n) = n"
proof (induction w arbitrary: n)
  case 0
  then show ?case by (simp add: be_value_def)
next
  case (Suc w)
  have "n div 256 < 256 ^ w"
    using Suc.prems by (simp add: less_mult_imp_div_less mult.commute)
  then have "be_value (be_bytes w (n div 256)) = n div 256"
    by (rule Suc.IH)
  moreover have "unat (word_of_nat (n mod 256) :: byte) = n mod 256"
    by (simp add: unat_of_nat)
  ultimately show ?case
    by (simp add: be_value_snoc)
qed

lemma from_to_be_bytes [simp]: "from_be_bytes (to_be_bytes x) = x"
proof -
  have "unat x < 256 ^ 8"
    using unsigned_less [of x] by simp
  then show ?thesis
    by (simp add: from_be_bytes_def to_be_bytes_def be_value_be_bytes)
qed

lemma length_to_be_bytes [simp]: "length (to_be_bytes x) = 8"
  by (simp add: to_be_bytes_def)

section \<open>Thirty-two bit signed arithmetic\<close>

text \<open>
  \<open>i32\<close> addition in a release build wraps; \<open>as usize\<close> of a negative \<open>i32\<close> sign-extends, so it
  is a number close to \<open>2 ^ 64\<close>.
\<close>

definition wrap32 :: "int \<Rightarrow> int" where
  "wrap32 x = (x + 2 ^ 31) mod 2 ^ 32 - 2 ^ 31"

definition i32_as_usize :: "int \<Rightarrow> nat" where
  "i32_as_usize x = nat (x mod 2 ^ 64)"

lemma wrap32_id: "- (2 ^ 31) \<le> x \<Longrightarrow> x < 2 ^ 31 \<Longrightarrow> wrap32 x = x"
  by (simp add: wrap32_def mod_pos_pos_trivial)

lemma wrap32_range: "- (2 ^ 31) \<le> wrap32 x \<and> wrap32 x < 2 ^ 31"
  by (simp add: wrap32_def)

end
