(* ===== verification/Vcs_Operation.thy ===== *)
theory Vcs_Operation
  imports Lex_Prelude
begin

text \<open>
  \<open>crates/lex-vcs/src/operation.rs\<close> and \<open>canonical.rs\<close>: the typed operation, its canonical
  form and its content-addressed identity. \<open>serde_json\<close> and \<open>sha2\<close> are third-party code: what
  the crate calls of them is the record \<open>ext\<close>, an argument of every definition that uses it.
\<close>

section \<open>Identities\<close>

type_synonym SigId = string
type_synonym StageId = string
type_synonym OpId = string
type_synonym EffectLabels = "string list"
type_synonym ModuleRef = string
type_synonym BlobId = string
type_synonym IntentId = string
type_synonym SessionId = string

section \<open>Import paths\<close>

definition is_local_import :: "string \<Rightarrow> bool" where
  "is_local_import module \<longleftrightarrow>
     take 2 module = ''./'' \<or> take 3 module = ''../'' \<or> take 1 module = ''/''"

fun split_segments :: "string \<Rightarrow> string list" where
  "split_segments [] = [[]]"
| "split_segments (c # cs) =
     (if c = CHR ''.'' \<or> c = CHR ''/'' then [] # split_segments cs
      else (case split_segments cs of [] \<Rightarrow> [[c]] | s # ss \<Rightarrow> (c # s) # ss))"

definition default_import_alias :: "string \<Rightarrow> string" where
  "default_import_alias module =
     (case find (\<lambda>seg. seg \<noteq> []) (rev (split_segments module)) of
        Some seg \<Rightarrow> seg
      | None \<Rightarrow> module)"

section \<open>Stage transitions\<close>

text \<open>
  The constructor that the source also calls \<open>Merge\<close> is \<open>MergeEntries\<close> here, to keep it apart
  from the operation kind. Its payload is a \<open>BTreeMap\<close>.
\<close>

datatype StageTransition =
    Create SigId StageId                  \<comment> \<open>sig_id, stage_id\<close>
  | Replace SigId StageId StageId         \<comment> \<open>sig_id, from, to\<close>
  | Remove SigId StageId                  \<comment> \<open>sig_id, last\<close>
  | Rename SigId SigId StageId            \<comment> \<open>from, to, body_stage_id\<close>
  | ImportOnly
  | MergeEntries "(SigId, StageId option) btree_map"
  | FilesOnly

definition somes :: "'a option list \<Rightarrow> 'a list" where
  "somes xs = concat (map (\<lambda>x. case x of None \<Rightarrow> [] | Some y \<Rightarrow> [y]) xs)"

fun stage_ids :: "StageTransition \<Rightarrow> StageId list" where
  "stage_ids (Create _ stage_id) = [stage_id]"
| "stage_ids (Replace _ from to) = [from, to]"
| "stage_ids (Remove _ last_id) = [last_id]"
| "stage_ids (Rename _ _ body_stage_id) = [body_stage_id]"
| "stage_ids ImportOnly = []"
| "stage_ids FilesOnly = []"
| "stage_ids (MergeEntries entries) = somes (map snd entries)"

fun stage_pairs :: "StageTransition \<Rightarrow> (SigId \<times> StageId) list" where
  "stage_pairs (Create sig_id stage_id) = [(sig_id, stage_id)]"
| "stage_pairs (Replace sig_id from to) = [(sig_id, from), (sig_id, to)]"
| "stage_pairs (Remove sig_id last_id) = [(sig_id, last_id)]"
| "stage_pairs (Rename _ to body_stage_id) = [(to, body_stage_id)]"
| "stage_pairs ImportOnly = []"
| "stage_pairs FilesOnly = []"
| "stage_pairs (MergeEntries entries) =
     somes (map (\<lambda>(sig, stage). map_option (Pair sig) stage) entries)"

section \<open>Operation kinds\<close>

text \<open>
  \<open>u64\<close> budgets keep their width; \<open>usize\<close> counters are \<open>nat\<close>; an effect set is the sorted list
  a \<open>BTreeSet\<close> iterates over. Field order is the source's.
\<close>

datatype OperationKind =
    AddFunction SigId StageId EffectLabels "u64 option" "string option"
      \<comment> \<open>sig_id, stage_id, effects, budget_cost, in_file\<close>
  | RemoveFunction SigId StageId          \<comment> \<open>sig_id, last_stage_id\<close>
  | ModifyBody SigId StageId StageId "u64 option" "u64 option" "SigId option"
      \<comment> \<open>sig_id, from_stage_id, to_stage_id, from_budget, to_budget, to_sig_id\<close>
  | RenameSymbol SigId SigId StageId "string option"
      \<comment> \<open>from, to, body_stage_id, in_file\<close>
  | ChangeEffectSig SigId StageId StageId EffectLabels EffectLabels
      "u64 option" "u64 option" "SigId option"
      \<comment> \<open>sig_id, from_stage_id, to_stage_id, from_effects, to_effects, from_budget, to_budget,
         to_sig_id\<close>
  | AddImport string ModuleRef "string option"   \<comment> \<open>in_file, module, alias\<close>
  | RemoveImport string ModuleRef                \<comment> \<open>in_file, module\<close>
  | AddType SigId StageId "string option"        \<comment> \<open>sig_id, stage_id, in_file\<close>
  | RemoveType SigId StageId                     \<comment> \<open>sig_id, last_stage_id\<close>
  | ModifyType SigId StageId StageId "SigId option"
      \<comment> \<open>sig_id, from_stage_id, to_stage_id, to_sig_id\<close>
  | Merge nat                                    \<comment> \<open>resolved\<close>
  | InlineLet SigId StageId StageId string string "u64 option" "u64 option"
      \<comment> \<open>sig_id, from_stage_id, to_stage_id, let_node, binding_name, from_budget, to_budget\<close>
  | RenameLocal SigId StageId StageId string string string "u64 option" "u64 option"
      \<comment> \<open>sig_id, from_stage_id, to_stage_id, let_node, old_name, new_name, from_budget,
         to_budget\<close>
  | ReplaceMatchArm SigId StageId StageId string nat "u64 option" "u64 option"
      \<comment> \<open>sig_id, from_stage_id, to_stage_id, match_node, arm_index, from_budget, to_budget\<close>
  | Candidate SigId StageId                      \<comment> \<open>sig_id, stage_id\<close>
  | Promote SigId OpId StageId "OpId list" "StageId option" "u64 option" "u64 option"
      \<comment> \<open>sig_id, winner_candidate, winner_stage_id, supersedes, from_stage_id, from_budget,
         to_budget\<close>
  | SetFiles BlobId                              \<comment> \<open>manifest\<close>

fun is_semantic :: "OperationKind \<Rightarrow> bool" where
  "is_semantic (SetFiles _) = False"
| "is_semantic _ = True"

fun merge_target :: "OperationKind \<Rightarrow> (SigId \<times> StageId option) option" where
  "merge_target (AddFunction sig_id stage_id _ _ _) = Some (sig_id, Some stage_id)"
| "merge_target (AddType sig_id stage_id _) = Some (sig_id, Some stage_id)"
| "merge_target (ModifyBody sig_id _ to_stage_id _ _ to_sig_id) =
     Some (case to_sig_id of Some s \<Rightarrow> s | None \<Rightarrow> sig_id, Some to_stage_id)"
| "merge_target (ChangeEffectSig sig_id _ to_stage_id _ _ _ _ to_sig_id) =
     Some (case to_sig_id of Some s \<Rightarrow> s | None \<Rightarrow> sig_id, Some to_stage_id)"
| "merge_target (ModifyType sig_id _ to_stage_id to_sig_id) =
     Some (case to_sig_id of Some s \<Rightarrow> s | None \<Rightarrow> sig_id, Some to_stage_id)"
| "merge_target (ReplaceMatchArm sig_id _ to_stage_id _ _ _ _) = Some (sig_id, Some to_stage_id)"
| "merge_target (RenameLocal sig_id _ to_stage_id _ _ _ _ _) = Some (sig_id, Some to_stage_id)"
| "merge_target (InlineLet sig_id _ to_stage_id _ _ _ _) = Some (sig_id, Some to_stage_id)"
| "merge_target (Promote sig_id _ winner_stage_id _ _ _ _) = Some (sig_id, Some winner_stage_id)"
| "merge_target (RemoveFunction sig_id _) = Some (sig_id, None)"
| "merge_target (RemoveType sig_id _) = Some (sig_id, None)"
| "merge_target (RenameSymbol _ to body_stage_id _) = Some (to, Some body_stage_id)"
| "merge_target (AddImport _ _ _) = None"
| "merge_target (RemoveImport _ _) = None"
| "merge_target (Merge _) = None"
| "merge_target (SetFiles _) = None"
| "merge_target (Candidate _ _) = None"

fun budget_delta :: "OperationKind \<Rightarrow> u64 option \<times> u64 option" where
  "budget_delta (AddFunction _ _ _ budget_cost _) = (None, budget_cost)"
| "budget_delta (ModifyBody _ _ _ from_budget to_budget _) = (from_budget, to_budget)"
| "budget_delta (ChangeEffectSig _ _ _ _ _ from_budget to_budget _) = (from_budget, to_budget)"
| "budget_delta (ReplaceMatchArm _ _ _ _ _ from_budget to_budget) = (from_budget, to_budget)"
| "budget_delta (RenameLocal _ _ _ _ _ _ from_budget to_budget) = (from_budget, to_budget)"
| "budget_delta (InlineLet _ _ _ _ _ from_budget to_budget) = (from_budget, to_budget)"
| "budget_delta (Promote _ _ _ _ _ from_budget to_budget) = (from_budget, to_budget)"
| "budget_delta _ = (None, None)"

fun budget_sig :: "OperationKind \<Rightarrow> SigId option" where
  "budget_sig (AddFunction sig_id _ _ _ _) = Some sig_id"
| "budget_sig (ModifyBody sig_id _ _ _ _ _) = Some sig_id"
| "budget_sig (ChangeEffectSig sig_id _ _ _ _ _ _ _) = Some sig_id"
| "budget_sig (ReplaceMatchArm sig_id _ _ _ _ _ _) = Some sig_id"
| "budget_sig (RenameLocal sig_id _ _ _ _ _ _ _) = Some sig_id"
| "budget_sig (InlineLet sig_id _ _ _ _ _ _) = Some sig_id"
| "budget_sig (Promote sig_id _ _ _ _ _ _) = Some sig_id"
| "budget_sig _ = None"

section \<open>Budgets declared in effect labels\<close>

text \<open>\<open>str::parse::<u64>\<close>: an optional plus sign, at least one digit, no overflow.\<close>

definition digit_value :: "char \<Rightarrow> nat option" where
  "digit_value c =
     (let n = of_char c :: nat in if 48 \<le> n \<and> n \<le> 57 then Some (n - 48) else None)"

fun parse_digits :: "nat \<Rightarrow> string \<Rightarrow> nat option" where
  "parse_digits acc [] = Some acc"
| "parse_digits acc (c # cs) =
     (case digit_value c of
        None \<Rightarrow> None
      | Some d \<Rightarrow> if acc * 10 + d < 2 ^ 64 then parse_digits (acc * 10 + d) cs else None)"

definition parse_u64 :: "string \<Rightarrow> u64 option" where
  "parse_u64 s =
     (let ds = (case s of c # cs \<Rightarrow> if c = CHR ''+'' then cs else s | [] \<Rightarrow> [])
      in if ds = [] then None else map_option word_of_nat (parse_digits 0 ds))"

definition strip_prefix :: "string \<Rightarrow> string \<Rightarrow> string option" where
  "strip_prefix p s = (if take (length p) s = p then Some (drop (length p) s) else None)"

definition strip_suffix :: "string \<Rightarrow> string \<Rightarrow> string option" where
  "strip_suffix p s = map_option rev (strip_prefix (rev p) (rev s))"

definition label_budget :: "string \<Rightarrow> u64 option" where
  "label_budget label =
     Option.bind (strip_prefix ''budget('' label) (\<lambda>rest.
     Option.bind (strip_suffix '')'' rest) parse_u64)"

fun budget_loop :: "u64 option \<Rightarrow> EffectLabels \<Rightarrow> u64 option" where
  "budget_loop min_cost [] = min_cost"
| "budget_loop min_cost (label # labels) =
     (case label_budget label of
        None \<Rightarrow> budget_loop min_cost labels
      | Some n \<Rightarrow> budget_loop (Some (case min_cost of Some c \<Rightarrow> min c n | None \<Rightarrow> n)) labels)"

definition budget_from_effects :: "EffectLabels \<Rightarrow> u64 option" where
  "budget_from_effects effects = budget_loop None effects"

section \<open>Operations and their canonical form\<close>

datatype OperationFormat = V1

definition CURRENT :: OperationFormat where
  "CURRENT = V1"

fun is_implicit :: "OperationFormat \<Rightarrow> bool" where
  "is_implicit V1 = True"

record Operation =
  kind :: OperationKind
  parents :: "OpId list"
  intent_id :: "IntentId option"

record CanonicalView =
  cv_kind :: OperationKind
  cv_parents :: "OpId list"     \<comment> \<open>a \<open>BTreeSet\<close>\<close>
  cv_intent_id :: "IntentId option"

record OperationRecord =
  op_id :: OpId
  format_version :: OperationFormat
  op :: Operation
  produces :: StageTransition

text \<open>
  The external crates: \<open>serde_json::to_vec\<close> on the canonical view and on a record,
  \<open>serde_json::from_slice\<close> back to a record, and \<open>Sha256::digest\<close>.
\<close>

record ext =
  json_canonical :: "CanonicalView \<Rightarrow> byte list"
  json_record :: "OperationRecord \<Rightarrow> byte list"
  parse_record :: "byte list \<Rightarrow> OperationRecord option"
  sha256 :: "byte list \<Rightarrow> byte list"

definition op_new :: "OperationKind \<Rightarrow> OpId list \<Rightarrow> Operation" where
  "op_new k ps = \<lparr>kind = k, parents = remdups_adj (sort ps), intent_id = None\<rparr>"

definition with_intent :: "Operation \<Rightarrow> IntentId \<Rightarrow> Operation" where
  "with_intent o' i = o'\<lparr>intent_id := Some i\<rparr>"

definition hex_digit :: "nat \<Rightarrow> char" where
  "hex_digit n = char_of (if n < 10 then 48 + n else 87 + n)"

definition hex_byte :: "byte \<Rightarrow> string" where
  "hex_byte b = [hex_digit (unat b div 16), hex_digit (unat b mod 16)]"

definition hash_bytes :: "ext \<Rightarrow> byte list \<Rightarrow> string" where
  "hash_bytes x bytes = concat (map hex_byte (sha256 x bytes))"

definition canonical_view :: "Operation \<Rightarrow> CanonicalView" where
  "canonical_view o' =
     \<lparr>cv_kind = kind o', cv_parents = bs_of_list (parents o'), cv_intent_id = intent_id o'\<rparr>"

definition canonical_bytes_v1 :: "ext \<Rightarrow> Operation \<Rightarrow> byte list" where
  "canonical_bytes_v1 x o' = json_canonical x (canonical_view o')"

fun canonical_bytes_in :: "ext \<Rightarrow> Operation \<Rightarrow> OperationFormat \<Rightarrow> byte list" where
  "canonical_bytes_in x o' V1 = canonical_bytes_v1 x o'"

definition canonical_bytes :: "ext \<Rightarrow> Operation \<Rightarrow> byte list" where
  "canonical_bytes x o' = canonical_bytes_in x o' CURRENT"

definition op_id_in :: "ext \<Rightarrow> Operation \<Rightarrow> OperationFormat \<Rightarrow> OpId" where
  "op_id_in x o' fmt = hash_bytes x (canonical_bytes_in x o' fmt)"

definition op_id_of :: "ext \<Rightarrow> Operation \<Rightarrow> OpId" where
  "op_id_of x o' = op_id_in x o' CURRENT"

definition record_new :: "ext \<Rightarrow> Operation \<Rightarrow> StageTransition \<Rightarrow> OperationRecord" where
  "record_new x o' t =
     \<lparr>op_id = op_id_of x o', format_version = CURRENT, op = o', produces = t\<rparr>"

section \<open>Lemmas\<close>

lemma remdups_adj_sort: "remdups_adj (sort xs) = bs_of_list xs"
proof -
  have "sorted_wrt (<) (remdups_adj ys)" if "sorted ys" for ys :: "'a list"
    using that by (induction ys rule: remdups_adj.induct) auto
  then have "sorted_wrt (<) (remdups_adj (sort xs))"
    by simp
  then show ?thesis
    by (metis bs_of_list_cong bs_of_list_id remdups_adj_set set_sort)
qed

lemma parents_op_new [simp]: "parents (op_new k ps) = bs_of_list ps"
  by (simp add: op_new_def remdups_adj_sort)

lemma hex_digit_inj: "m < 16 \<Longrightarrow> n < 16 \<Longrightarrow> hex_digit m = hex_digit n \<Longrightarrow> m = n"
  by (auto simp: hex_digit_def dest!: arg_cong [where f = "of_char :: char \<Rightarrow> nat"]
      simp: take_bit_eq_mod split: if_splits)

lemma hex_byte_inj: "hex_byte a = hex_byte b \<Longrightarrow> a = b"
proof -
  assume eq: "hex_byte a = hex_byte b"
  have bnd: "unat a < 256" "unat b < 256"
    using unsigned_less [of a] unsigned_less [of b] by simp_all
  then have "unat a div 16 = unat b div 16" "unat a mod 16 = unat b mod 16"
    using eq by (auto simp: hex_byte_def intro: hex_digit_inj)
  then have "unat a = unat b"
    by (metis div_mult_mod_eq)
  then show ?thesis by (rule unsigned_word_eqI)
qed

lemma concat_hex_inj: "concat (map hex_byte xs) = concat (map hex_byte ys) \<Longrightarrow> xs = ys"
proof (induction xs arbitrary: ys)
  case Nil
  then show ?case by (cases ys) (auto simp: hex_byte_def)
next
  case (Cons x xs)
  then obtain y zs where ys: "ys = y # zs"
    by (cases ys) (auto simp: hex_byte_def)
  have "hex_byte x = hex_byte y \<and> concat (map hex_byte xs) = concat (map hex_byte zs)"
    using Cons.prems by (simp add: ys hex_byte_def [of x] hex_byte_def [of y])
  then show ?case
    using Cons.IH [of zs] hex_byte_inj by (auto simp: ys)
qed

lemma hash_bytes_eq_iff: "hash_bytes x a = hash_bytes x b \<longleftrightarrow> sha256 x a = sha256 x b"
  by (auto simp: hash_bytes_def dest: concat_hex_inj)

lemma length_hash_bytes: "length (hash_bytes x a) = 2 * length (sha256 x a)"
  by (simp add: hash_bytes_def hex_byte_def length_concat o_def sum_list_triv)

lemma op_id_of_eq:
  "op_id_of x o' = hash_bytes x (json_canonical x (canonical_view o'))"
  by (simp add: op_id_of_def op_id_in_def CURRENT_def canonical_bytes_v1_def)

lemma canonical_view_eq_iff:
  "canonical_view a = canonical_view b \<longleftrightarrow>
     kind a = kind b \<and> set (parents a) = set (parents b) \<and> intent_id a = intent_id b"
  by (simp add: canonical_view_def bs_of_list_cong)

lemma op_record_new [simp]:
  "op_id (record_new x o' t) = op_id_of x o'"
  "op (record_new x o' t) = o'"
  "produces (record_new x o' t) = t"
  by (simp_all add: record_new_def)

text \<open>The declared budget is the least parsed one.\<close>

definition parsed_budgets :: "EffectLabels \<Rightarrow> u64 set" where
  "parsed_budgets effects = {n. \<exists>l \<in> set effects. label_budget l = Some n}"

lemma parsed_budgets_simps [simp]:
  "parsed_budgets [] = {}"
  "parsed_budgets (l # ls) =
     (case label_budget l of Some n \<Rightarrow> insert n (parsed_budgets ls) | None \<Rightarrow> parsed_budgets ls)"
  by (auto simp: parsed_budgets_def split: option.splits)

lemma budget_loop_min:
  "budget_loop acc ls =
     (let S = set_option acc \<union> parsed_budgets ls in if S = {} then None else Some (Min S))"
proof (induction ls arbitrary: acc)
  case Nil
  then show ?case by (cases acc) auto
next
  case (Cons l ls)
  show ?case
  proof (cases "label_budget l")
    case None
    then show ?thesis using Cons.IH by simp
  next
    case (Some n)
    have fin: "finite (parsed_budgets ls)" by simp
    show ?thesis
    proof (cases acc)
      case None
      then show ?thesis using Some Cons.IH [of "Some n"] by simp
    next
      case (Some c)
      have "Min (insert (min c n) (parsed_budgets ls)) = Min (insert n (insert c (parsed_budgets ls)))"
        by (cases "parsed_budgets ls = {}") (simp_all add: fin min.assoc min.commute min.left_commute)
      then show ?thesis
        using Some \<open>label_budget l = Some n\<close> Cons.IH [of "Some (min c n)"] by simp
    qed
  qed
qed

section \<open>A concrete codec\<close>

text \<open>
  A codec for a fixed table of records: a record is written as its position in the table, and the
  digest is the identity. It instantiates the external crates in the examples.
\<close>

definition position :: "('a \<Rightarrow> bool) \<Rightarrow> 'a list \<Rightarrow> byte" where
  "position P xs = word_of_nat (length (takeWhile (\<lambda>a. \<not> P a) xs))"

definition table_ext :: "OperationRecord list \<Rightarrow> ext" where
  "table_ext rs = \<lparr>
     json_canonical = (\<lambda>c. [position (\<lambda>r. canonical_view (op r) = c) rs]),
     json_record = (\<lambda>r. [position (\<lambda>s. s = r) rs]),
     parse_record = (\<lambda>bs. case bs of [b] \<Rightarrow> if unat b < length rs then Some (rs ! unat b) else None
                                 | _ \<Rightarrow> None),
     sha256 = (\<lambda>bs. bs)\<rparr>"

definition table_view :: "OperationRecord list \<Rightarrow> OpId \<Rightarrow> OperationRecord" where
  "table_view rs i = (case find (\<lambda>r. op_id r = i) rs of Some r \<Rightarrow> r | None \<Rightarrow> hd rs)"

text \<open>A diamond: one function added, then modified on one side while another is added on the other.\<close>

definition sample_records :: "OperationRecord list" where
  "sample_records = [
     \<lparr>op_id = ''00'', format_version = V1,
      op = op_new (AddFunction ''f'' ''s0'' [] None None) [], produces = Create ''f'' ''s0''\<rparr>,
     \<lparr>op_id = ''01'', format_version = V1,
      op = op_new (ModifyBody ''f'' ''s0'' ''s1'' None None None) [''00''],
      produces = Replace ''f'' ''s0'' ''s1''\<rparr>,
     \<lparr>op_id = ''02'', format_version = V1,
      op = op_new (AddFunction ''g'' ''t0'' [] None None) [''00''], produces = Create ''g'' ''t0''\<rparr>,
     \<lparr>op_id = ''03'', format_version = V1,
      op = op_new (Merge 0) [''01'', ''02''], produces = MergeEntries []\<rparr>]"

abbreviation sample_ext :: ext where
  "sample_ext \<equiv> table_ext sample_records"

abbreviation sample_view :: "OpId \<Rightarrow> OperationRecord" where
  "sample_view \<equiv> table_view sample_records"


section \<open>Properties\<close>

text \<open>
  C1. Content addressing: as long as the serialiser and the digest do not collide on the
  operations at hand, two operations get the same id exactly when they agree on kind, intent and
  the set of parents (neither the order nor repetitions of the parents matter).
\<close>

theorem op_id_content_addressed:
  assumes "inj_on (json_canonical x) (canonical_view ` S)"
    and "inj_on (sha256 x) (json_canonical x ` canonical_view ` S)"
    and "a \<in> S" and "b \<in> S"
  shows "op_id_of x a = op_id_of x b \<longleftrightarrow>
    kind a = kind b \<and> set (parents a) = set (parents b) \<and> intent_id a = intent_id b"
proof -
  have "op_id_of x a = op_id_of x b \<longleftrightarrow> canonical_view a = canonical_view b"
    using assms by (auto simp: op_id_of_eq hash_bytes_eq_iff inj_on_eq_iff)
  then show ?thesis by (simp add: canonical_view_eq_iff)
qed

theorem op_id_content_addressed_witness:
  "let a = op_new (Merge 0) [''02'', ''01'', ''02'']; b = op_new (Merge 0) [''01'', ''02'']
   in op_id_of sample_ext a = op_id_of sample_ext b"
proof -
  let ?a = "op_new (Merge 0) [''02'', ''01'', ''02'']" and ?b = "op_new (Merge 0) [''01'', ''02'']"
  have S: "canonical_view ` {?a, ?b} = {canonical_view ?a}"
    by code_simp
  have "inj_on (json_canonical sample_ext) (canonical_view ` {?a, ?b})"
    "inj_on (sha256 sample_ext) (json_canonical sample_ext ` canonical_view ` {?a, ?b})"
    unfolding S by simp_all
  from op_id_content_addressed [OF this, of ?a ?b] show ?thesis
    by (simp add: op_new_def)
qed

text \<open>
  The budget an effect row declares is the least of the budgets its labels carry, and there is
  none exactly when no label of the form \<open>budget(n)\<close> parses.
\<close>

theorem budget_from_effects_least:
  "budget_from_effects effects =
     (let ns = {n. \<exists>l \<in> set effects. label_budget l = Some n} in if ns = {} then None else Some (Min ns))"
  unfolding budget_from_effects_def budget_loop_min parsed_budgets_def by simp

theorem budget_from_effects_least_witness:
  "budget_from_effects [''net'', ''budget(70)'', ''budget(9)'', ''budget(x)''] = Some 9 \<and>
   budget_from_effects [''io''] = None"
proof -
  have "\<not> (\<exists>l \<in> set [''io'']. label_budget l = Some n)" for n
    by (simp add: label_budget_def strip_prefix_def)
  then have "budget_from_effects [''io''] = None"
    unfolding budget_from_effects_least by simp
  moreover have "budget_from_effects [''net'', ''budget(70)'', ''budget(9)'', ''budget(x)''] = Some 9"
    by (simp add: budget_from_effects_def label_budget_def strip_prefix_def strip_suffix_def parse_u64_def
        digit_value_def)
  ultimately show ?thesis by simp
qed

end
