(* ===== verification/Vcs_OpStore.thy ===== *)
theory Vcs_OpStore
  imports Vcs_Operation
begin

text \<open>
  The persistence half of \<open>crates/lex-vcs/src/op_log.rs\<close>: loose records, packfiles framed with
  big-endian lengths, and the operations that move records between them (\<open>put\<close>, \<open>get\<close>,
  \<open>repack\<close>, \<open>evict\<close>, \<open>delete\<close>, \<open>list_all\<close>). A log is the content of its directory: the bytes of
  every \<open><op_id>.json\<close> and, for every packfile, the bytes of the \<open>.pack\<close> and the decoded
  \<open>.idx\<close>. Crash points between two file-system calls are not modelled.
\<close>

section \<open>The directory\<close>

record PackIndex =
  pk_version :: nat
  pk_ops :: "(OpId, u64) btree_map"

record Pack =
  pk_bytes :: "byte list"
  pk_idx :: PackIndex

record OpLog =
  loose :: "(OpId \<times> byte list) list"   \<comment> \<open>in the order of the directory listing\<close>
  packs :: "(string \<times> Pack) list"        \<comment> \<open>keyed by the hash in the file name\<close>

definition open_log :: OpLog where
  "open_log = \<lparr>loose = [], packs = []\<rparr>"

definition put :: "ext \<Rightarrow> OpLog \<Rightarrow> OperationRecord \<Rightarrow> OpLog" where
  "put x log rec =
     (if op_id rec \<in> set (map fst (loose log)) then log
      else log\<lparr>loose := loose log @ [(op_id rec, json_record x rec)]\<rparr>)"

section \<open>Reading\<close>

text \<open>\<open>from_slice\<close> with its error mapped to \<open>InvalidData\<close>.\<close>

definition decode :: "ext \<Rightarrow> byte list \<Rightarrow> OperationRecord io_result" where
  "decode x bytes = (case parse_record x bytes of None \<Rightarrow> Inl InvalidData | Some r \<Rightarrow> Inr r)"

text \<open>
  The frame at an offset: eight length bytes, then that many bytes. \<open>read_exact\<close> fails with
  \<open>UnexpectedEof\<close> when the file is too short.
\<close>

definition read_frame :: "byte list \<Rightarrow> u64 \<Rightarrow> byte list io_result" where
  "read_frame bytes offset =
     (let rest = drop (unat offset) bytes in
      if length rest < 8 then Inl UnexpectedEof
      else let len = unat (from_be_bytes (take 8 rest)); body = drop 8 rest
           in if length body < len then Inl UnexpectedEof else Inr (take len body))"

definition read_packed_op :: "ext \<Rightarrow> byte list \<Rightarrow> u64 \<Rightarrow> OperationRecord io_result" where
  "read_packed_op x pack_bytes offset = rbind (read_frame pack_bytes offset) (decode x)"

fun get_packed :: "ext \<Rightarrow> (string \<times> Pack) list \<Rightarrow> OpId \<Rightarrow> OperationRecord option io_result" where
  "get_packed x [] oid = Inr None"
| "get_packed x ((_, p) # ps) oid =
     (case bt_get (pk_ops (pk_idx p)) oid of
        Some offset \<Rightarrow> rbind (read_packed_op x (pk_bytes p) offset) (\<lambda>r. Inr (Some r))
      | None \<Rightarrow> get_packed x ps oid)"

definition get :: "ext \<Rightarrow> OpLog \<Rightarrow> OpId \<Rightarrow> OperationRecord option io_result" where
  "get x log oid =
     (case map_of (loose log) oid of
        Some bytes \<Rightarrow> rbind (decode x bytes) (\<lambda>r. Inr (Some r))
      | None \<Rightarrow> get_packed x (packs log) oid)"

definition list_loose_files :: "OpLog \<Rightarrow> (OpId \<times> byte list) list" where
  "list_loose_files log = filter (\<lambda>(oid, _). take 5 oid \<noteq> ''pack-'') (loose log)"

definition list_pack_indices :: "OpLog \<Rightarrow> (string \<times> Pack) list" where
  "list_pack_indices log = packs log"

section \<open>Packfiles\<close>

fun write_frames ::
  "u64 \<Rightarrow> (OpId \<times> byte list) list \<Rightarrow> byte list \<Rightarrow> (OpId, u64) btree_map \<Rightarrow>
   byte list \<times> (OpId, u64) btree_map" where
  "write_frames cursor [] buf offsets = (buf, offsets)"
| "write_frames cursor ((oid, bytes) # ops) buf offsets =
     (let len = word_of_nat (length bytes)
      in write_frames (cursor + (8 + len)) ops (buf @ to_be_bytes len @ bytes)
           (bt_insert oid cursor offsets))"

definition make_pack :: "(OpId \<times> byte list) list \<Rightarrow> Pack" where
  "make_pack ops =
     (let (buf, offsets) = write_frames 0 ops [] []
      in \<lparr>pk_bytes = buf, pk_idx = \<lparr>pk_version = 1, pk_ops = offsets\<rparr>\<rparr>)"

definition string_bytes :: "string \<Rightarrow> byte list" where
  "string_bytes s = map (\<lambda>c. word_of_nat (of_char c)) s"

definition name_input :: "OpId list \<Rightarrow> byte list" where
  "name_input ids = concat (map (\<lambda>oid. string_bytes oid @ [10]) ids)"

definition pack_name :: "ext \<Rightarrow> OpId list \<Rightarrow> string" where
  "pack_name x ids = hash_bytes x (name_input ids)"

definition remove_loose :: "OpId set \<Rightarrow> (OpId \<times> byte list) list \<Rightarrow> (OpId \<times> byte list) list" where
  "remove_loose ids files = filter (\<lambda>(oid, _). oid \<notin> ids) files"

definition repack :: "ext \<Rightarrow> nat \<Rightarrow> OpLog \<Rightarrow> OpLog \<times> nat" where
  "repack x threshold log =
     (let files = list_loose_files log in
      if length files < threshold then (log, 0)
      else
        let ops = sort_key fst files;
            name = pack_name x (map fst ops);
            rest = remove_loose (fst ` set files) (loose log)
        in if name \<in> fst ` set (packs log) then (log\<lparr>loose := rest\<rparr>, length ops)
           else (log\<lparr>loose := rest, packs := packs log @ [(name, make_pack ops)]\<rparr>, length ops))"

definition write_pack_from_survivors ::
  "ext \<Rightarrow> (OpId \<times> byte list) list \<Rightarrow> (string \<times> Pack) list \<Rightarrow> (string \<times> Pack) list" where
  "write_pack_from_survivors x survivors ps =
     (let ops = sort_key fst survivors; name = pack_name x (map fst ops)
      in if name \<in> fst ` set ps then ps else ps @ [(name, make_pack ops)])"

text \<open>
  \<open>evict\<close>: the packs it visits are those of the listing taken before the loop (\<open>todo\<close>); the packs
  on disk (\<open>cur\<close>) change as the loop runs. An unreadable survivor ends it with an error, the
  changes made so far standing.
\<close>

fun evict_packs ::
  "ext \<Rightarrow> OpId set \<Rightarrow> (string \<times> Pack) list \<Rightarrow> (string \<times> Pack) list \<Rightarrow> nat \<Rightarrow>
   (string \<times> Pack) list \<times> nat io_result" where
  "evict_packs x victims [] cur removed = (cur, Inr removed)"
| "evict_packs x victims ((h, p) # todo) cur removed =
     (let entries = pk_ops (pk_idx p) in
      if \<not> (\<exists>e \<in> set entries. fst e \<in> victims) then evict_packs x victims todo cur removed
      else
        let removed' = removed + length (filter (\<lambda>e. fst e \<in> victims) entries) in
        case rmap (\<lambda>(oid, offset). rbind (read_packed_op x (pk_bytes p) offset)
                     (\<lambda>r. Inr (oid, json_record x r)))
               (filter (\<lambda>e. fst e \<notin> victims) entries) of
          Inl e \<Rightarrow> (cur, Inl e)
        | Inr survivors \<Rightarrow>
            let cur' = filter (\<lambda>e. fst e \<noteq> h) cur
            in evict_packs x victims todo
                 (if survivors = [] then cur' else write_pack_from_survivors x survivors cur')
                 removed')"

definition evict :: "ext \<Rightarrow> OpId set \<Rightarrow> OpLog \<Rightarrow> OpLog \<times> nat io_result" where
  "evict x victims log =
     (if victims = {} then (log, Inr 0)
      else
        let gone = filter (\<lambda>e. fst e \<in> victims) (list_loose_files log);
            log' = log\<lparr>loose := remove_loose (fst ` set gone) (loose log)\<rparr>;
            (ps, res) = evict_packs x victims (list_pack_indices log') (packs log') (length gone)
        in (log'\<lparr>packs := ps\<rparr>, res))"

definition delete_op :: "OpLog \<Rightarrow> OpId \<Rightarrow> OpLog" where
  "delete_op log oid = log\<lparr>loose := remove_loose {oid} (loose log)\<rparr>"

text \<open>\<open>list_all\<close>: loose records first, then every pack; an id already seen is skipped.\<close>

fun list_loose_records ::
  "ext \<Rightarrow> OpLog \<Rightarrow> OpId list \<Rightarrow> OpId list \<Rightarrow> OperationRecord list \<Rightarrow>
   (OpId list \<times> OperationRecord list) io_result" where
  "list_loose_records x log [] seen out = Inr (seen, out)"
| "list_loose_records x log (oid # ids) seen out =
     rbind (get x log oid) (\<lambda>o'.
       case o' of
         None \<Rightarrow> list_loose_records x log ids seen out
       | Some rec \<Rightarrow>
           if op_id rec \<in> set seen then list_loose_records x log ids seen out
           else list_loose_records x log ids (op_id rec # seen) (out @ [rec]))"

fun list_packed_records ::
  "ext \<Rightarrow> byte list \<Rightarrow> (OpId \<times> u64) list \<Rightarrow> OpId list \<Rightarrow> OperationRecord list \<Rightarrow>
   (OpId list \<times> OperationRecord list) io_result" where
  "list_packed_records x bytes [] seen out = Inr (seen, out)"
| "list_packed_records x bytes ((oid, offset) # es) seen out =
     (if oid \<in> set seen then list_packed_records x bytes es seen out
      else rbind (read_packed_op x bytes offset)
             (\<lambda>rec. list_packed_records x bytes es (oid # seen) (out @ [rec])))"

fun list_all_packs ::
  "ext \<Rightarrow> (string \<times> Pack) list \<Rightarrow> OpId list \<Rightarrow> OperationRecord list \<Rightarrow>
   OperationRecord list io_result" where
  "list_all_packs x [] seen out = Inr out"
| "list_all_packs x ((_, p) # ps) seen out =
     rbind (list_packed_records x (pk_bytes p) (pk_ops (pk_idx p)) seen out)
       (\<lambda>(seen', out'). list_all_packs x ps seen' out')"

definition list_all_ops :: "ext \<Rightarrow> OpLog \<Rightarrow> OperationRecord list io_result" where
  "list_all_ops x log =
     rbind (list_loose_records x log (map fst (list_loose_files log)) [] [])
       (\<lambda>(seen, out). list_all_packs x (list_pack_indices log) seen out)"

section \<open>Framing\<close>

lemma read_frame_append:
  "read_frame bs off = Inr body \<Longrightarrow> read_frame (bs @ cs) off = Inr body"
  by (auto simp: read_frame_def Let_def split: if_splits)

lemma read_frame_at:
  assumes "unat off = length pre" and "length body < 2 ^ 64"
  shows "read_frame (pre @ to_be_bytes (word_of_nat (length body)) @ body) off = Inr body"
  using assms by (simp add: read_frame_def Let_def unat_of_nat)

definition frames_size :: "(OpId \<times> byte list) list \<Rightarrow> nat" where
  "frames_size ops = (\<Sum>(_, bytes) \<leftarrow> ops. 8 + length bytes)"

lemma frames_size_simps [simp]:
  "frames_size [] = 0"
  "frames_size ((i, b) # ops) = 8 + length b + frames_size ops"
  by (simp_all add: frames_size_def)

lemma frames_size_mset: "mset a = mset b \<Longrightarrow> frames_size a = frames_size b"
  unfolding frames_size_def sum_mset_sum_list [symmetric] by simp

text \<open>What the index of a finished pack says: every framed record is found at its offset.\<close>

lemma write_frames_spec:
  assumes "write_frames cursor ops buf offs = (buf', offs')"
    and "unat cursor = length buf" and "length buf + frames_size ops < 2 ^ 64"
    and "bt_inv offs" and "distinct (map fst ops)"
  shows "bt_inv offs' \<and> (\<exists>tl. buf' = buf @ tl) \<and>
    (\<forall>i. i \<notin> fst ` set ops \<longrightarrow> bt_get offs' i = bt_get offs i) \<and>
    (\<forall>(i, b) \<in> set ops. \<exists>off. bt_get offs' i = Some off \<and> read_frame buf' off = Inr b)"
  using assms
proof (induction cursor ops buf offs rule: write_frames.induct)
  case (1 cursor buf offs)
  then show ?case by simp
next
  case (2 cursor i bytes ops buf offs)
  let ?len = "word_of_nat (length bytes) :: u64"
  let ?buf = "buf @ to_be_bytes ?len @ bytes"
  have len: "unat ?len = length bytes"
    using "2.prems"(3) by (simp add: unat_of_nat)
  have cur: "unat (cursor + (8 + ?len)) = length ?buf"
  proof -
    have "length buf + (8 + length bytes) < 2 ^ 64"
      using "2.prems"(3) by simp
    then show ?thesis
      using len "2.prems"(2) by (simp add: unat_word_ariths)
  qed
  have "write_frames (cursor + (8 + ?len)) ops ?buf (bt_insert i cursor offs) = (buf', offs')"
    using "2.prems"(1) by (simp add: Let_def)
  then have IH: "bt_inv offs' \<and> (\<exists>tl. buf' = ?buf @ tl) \<and>
    (\<forall>j. j \<notin> fst ` set ops \<longrightarrow> bt_get offs' j = bt_get (bt_insert i cursor offs) j) \<and>
    (\<forall>(j, b) \<in> set ops. \<exists>off. bt_get offs' j = Some off \<and> read_frame buf' off = Inr b)"
    using "2.IH" [OF refl] cur "2.prems" by (simp add: bt_inv_insert)
  then obtain tl where tl: "buf' = ?buf @ tl" by blast
  have "i \<notin> fst ` set ops"
    using "2.prems"(5) by auto
  then have here: "bt_get offs' i = Some cursor"
    using IH "2.prems"(4) by (simp add: bt_simps)
  have "read_frame ?buf cursor = Inr bytes"
    using "2.prems"(2,3) by (intro read_frame_at) simp_all
  then have "read_frame buf' cursor = Inr bytes"
    unfolding tl by (rule read_frame_append)
  with here IH tl "2.prems"(4) show ?case
    by (auto simp: bt_simps)
qed

lemma keys_write_frames:
  "fst ` set (snd (write_frames cursor ops buf offs)) = fst ` set ops \<union> fst ` set offs"
proof (induction cursor ops buf offs rule: write_frames.induct)
  case (2 cursor i bytes ops buf offs)
  then show ?case
    by (simp add: Let_def set_bt_insert_keys)
qed simp

lemma make_pack_spec:
  assumes "frames_size ops < 2 ^ 64" and "distinct (map fst ops)"
  shows "bt_inv (pk_ops (pk_idx (make_pack ops)))"
    and "fst ` set (pk_ops (pk_idx (make_pack ops))) = fst ` set ops"
    and "(i, off) \<in> set (pk_ops (pk_idx (make_pack ops))) \<Longrightarrow>
      \<exists>b. (i, b) \<in> set ops \<and> read_frame (pk_bytes (make_pack ops)) off = Inr b"
proof -
  obtain buf offs where w: "write_frames 0 ops [] [] = (buf, offs)"
    by (cases "write_frames 0 ops [] []")
  have mk: "make_pack ops = \<lparr>pk_bytes = buf, pk_idx = \<lparr>pk_version = 1, pk_ops = offs\<rparr>\<rparr>"
    by (simp add: make_pack_def w)
  have spec: "bt_inv offs \<and>
    (\<forall>(i, b) \<in> set ops. \<exists>off. bt_get offs i = Some off \<and> read_frame buf off = Inr b)"
    using write_frames_spec [OF w] assms by simp
  show inv: "bt_inv (pk_ops (pk_idx (make_pack ops)))"
    using spec assms by (simp add: mk)
  show keys: "fst ` set (pk_ops (pk_idx (make_pack ops))) = fst ` set ops"
    using keys_write_frames [of 0 ops "[]" "[]"] by (simp add: mk w)
  show "\<exists>b. (i, b) \<in> set ops \<and> read_frame (pk_bytes (make_pack ops)) off = Inr b"
    if "(i, off) \<in> set (pk_ops (pk_idx (make_pack ops)))"
  proof -
    have "i \<in> fst ` set ops"
      using that keys by (metis fst_conv image_eqI)
    then obtain b where b: "(i, b) \<in> set ops" by auto
    moreover have "bt_get offs i = Some off"
      using that inv by (simp add: mk bt_get_Some_iff)
    ultimately show ?thesis
      using spec assms by (fastforce simp: mk)
  qed
qed

section \<open>Well-formed logs\<close>

text \<open>
  \<open>V\<close> gives the record an id stands for. A log is well formed for \<open>V\<close> when every stored copy,
  loose or packed, decodes to it, ids are those the records carry, packs are named after the
  ids they hold, and every record survives a JSON round trip.
\<close>

definition idx_ops :: "Pack \<Rightarrow> (OpId, u64) btree_map" where
  "idx_ops p = pk_ops (pk_idx p)"

definition packed_ids :: "(string \<times> Pack) list \<Rightarrow> OpId set" where
  "packed_ids ps = (\<Union>(_, p) \<in> set ps. fst ` set (idx_ops p))"

definition stored_ids :: "OpLog \<Rightarrow> OpId set" where
  "stored_ids log = fst ` set (loose log) \<union> packed_ids (packs log)"

definition id_ok :: "ext \<Rightarrow> (OpId \<Rightarrow> OperationRecord) \<Rightarrow> OpId \<Rightarrow> bool" where
  "id_ok x V i \<longleftrightarrow> op_id (V i) = i \<and> take 5 i \<noteq> ''pack-'' \<and> char_of (10 :: nat) \<notin> set i \<and>
     decode x (json_record x (V i)) = Inr (V i)"

definition pack_ok :: "ext \<Rightarrow> (OpId \<Rightarrow> OperationRecord) \<Rightarrow> string \<times> Pack \<Rightarrow> bool" where
  "pack_ok x V = (\<lambda>(h, p). h = pack_name x (map fst (idx_ops p)) \<and> bt_inv (idx_ops p) \<and>
     (\<forall>(i, off) \<in> set (idx_ops p). id_ok x V i \<and> read_packed_op x (pk_bytes p) off = Inr (V i)))"

definition packs_ok :: "ext \<Rightarrow> (OpId \<Rightarrow> OperationRecord) \<Rightarrow> (string \<times> Pack) list \<Rightarrow> bool" where
  "packs_ok x V ps \<longleftrightarrow> distinct (map fst ps) \<and> (\<forall>hp \<in> set ps. pack_ok x V hp)"

definition store_ok :: "ext \<Rightarrow> (OpId \<Rightarrow> OperationRecord) \<Rightarrow> OpLog \<Rightarrow> bool" where
  "store_ok x V log \<longleftrightarrow> distinct (map fst (loose log)) \<and>
     (\<forall>(i, b) \<in> set (loose log). id_ok x V i \<and> decode x b = Inr (V i)) \<and>
     packs_ok x V (packs log)"

lemma finite_stored_ids [simp]: "finite (stored_ids log)"
  by (auto simp: stored_ids_def packed_ids_def split: prod.splits)

lemma packed_ids_simps [simp]:
  "packed_ids [] = {}"
  "packed_ids (hp # ps) = fst ` set (idx_ops (snd hp)) \<union> packed_ids ps"
  "packed_ids (ps @ qs) = packed_ids ps \<union> packed_ids qs"
  by (auto simp: packed_ids_def split: prod.splits)

lemma packed_ids_mem: "(h, p) \<in> set ps \<Longrightarrow> fst ` set (idx_ops p) \<subseteq> packed_ids ps"
  by (force simp: packed_ids_def)

lemma get_packed_ok:
  "(\<And>hp. hp \<in> set ps \<Longrightarrow> pack_ok x V hp) \<Longrightarrow>
   get_packed x ps i = Inr (if i \<in> packed_ids ps then Some (V i) else None)"
proof (induction ps)
  case Nil
  then show ?case by simp
next
  case (Cons hp ps)
  obtain h p where hp: "hp = (h, p)" by (cases hp)
  have p: "pack_ok x V (h, p)"
    using Cons.prems by (simp add: hp)
  show ?case
  proof (cases "bt_get (idx_ops p) i")
    case None
    then have "i \<notin> fst ` set (idx_ops p)"
      by (simp add: bt_get_None_iff bt_keys_def)
    then show ?thesis
      using None Cons by (simp add: hp idx_ops_def)
  next
    case (Some off)
    then have "(i, off) \<in> set (idx_ops p)"
      by (rule bt_get_SomeD)
    moreover from this have "i \<in> fst ` set (idx_ops p)"
      by force
    ultimately show ?thesis
      using p Some by (auto simp: hp pack_ok_def idx_ops_def)
  qed
qed

lemma get_ok:
  assumes "store_ok x V log"
  shows "get x log i = Inr (if i \<in> stored_ids log then Some (V i) else None)"
proof (cases "map_of (loose log) i")
  case None
  then have "i \<notin> fst ` set (loose log)"
    by (simp add: map_of_eq_None_iff)
  moreover have "get_packed x (packs log) i =
    Inr (if i \<in> packed_ids (packs log) then Some (V i) else None)"
    using assms by (intro get_packed_ok) (simp add: store_ok_def packs_ok_def)
  ultimately show ?thesis
    using None by (simp add: get_def stored_ids_def)
next
  case (Some b)
  then have "(i, b) \<in> set (loose log)"
    by (rule map_of_SomeD)
  moreover from this have "i \<in> stored_ids log"
    by (force simp: stored_ids_def)
  ultimately show ?thesis
    using Some assms by (auto simp: get_def store_ok_def)
qed

lemma stored_id_ok: "store_ok x V log \<Longrightarrow> i \<in> stored_ids log \<Longrightarrow> id_ok x V i"
  by (fastforce simp: store_ok_def packs_ok_def pack_ok_def stored_ids_def packed_ids_def)

lemma store_ok_cong:
  assumes "store_ok x V log" and "\<And>i. i \<in> stored_ids log \<Longrightarrow> W i = V i"
  shows "store_ok x W log"
proof -
  have "id_ok x W i = id_ok x V i" if "i \<in> stored_ids log" for i
    using assms(2) [OF that] by (simp add: id_ok_def)
  moreover have "i \<in> stored_ids log" if "(i, b) \<in> set (loose log)" for i b
    using that by (force simp: stored_ids_def)
  moreover have "i \<in> stored_ids log" if "(h, p) \<in> set (packs log)" "(i, off) \<in> set (idx_ops p)"
    for h p i off
    using that by (force simp: stored_ids_def packed_ids_def)
  ultimately show ?thesis
    using assms by (fastforce simp: store_ok_def packs_ok_def pack_ok_def)
qed

lemma store_ok_open [simp]: "store_ok x V open_log"
  by (simp add: store_ok_def open_log_def packs_ok_def)

lemma stored_ids_open [simp]: "stored_ids open_log = {}"
  by (simp add: stored_ids_def open_log_def)

section \<open>put and delete\<close>

lemma stored_ids_put: "stored_ids (put x log r) = insert (op_id r) (stored_ids log)"
  by (auto simp: put_def stored_ids_def)

lemma put_ok:
  assumes "store_ok x V log" and "id_ok x V (op_id r)" and "V (op_id r) = r"
  shows "store_ok x V (put x log r)"
  using assms by (auto simp: put_def store_ok_def id_ok_def)

lemma delete_ok: "store_ok x V log \<Longrightarrow> store_ok x V (delete_op log i)"
  by (auto simp: delete_op_def store_ok_def remove_loose_def distinct_map_filter)

section \<open>repack\<close>

lemma string_bytes_inj: "string_bytes s = string_bytes t \<Longrightarrow> s = t"
proof -
  have char: "c = d" if "(word_of_nat (of_char c) :: byte) = word_of_nat (of_char d)" for c d :: char
  proof -
    have "(of_char c :: nat) = of_char d"
      using arg_cong [OF that, of unat] by (simp add: unat_of_nat)
    then show ?thesis by simp
  qed
  assume "string_bytes s = string_bytes t"
  then show ?thesis
    unfolding string_bytes_def by (rule map_injective) (auto intro: injI char)
qed

lemma newline_not_in: "char_of (10 :: nat) \<notin> set s \<Longrightarrow> (10 :: byte) \<notin> set (string_bytes s)"
proof
  assume nl: "char_of (10 :: nat) \<notin> set s" and "(10 :: byte) \<in> set (string_bytes s)"
  then obtain c where c: "c \<in> set s" and eq: "(10 :: byte) = word_of_nat (of_char c)"
    by (auto simp: string_bytes_def)
  have "(of_char c :: nat) = 10"
    using arg_cong [OF eq, of unat] by (simp add: unat_of_nat)
  then have "c = char_of (10 :: nat)"
    by (metis char_of_char)
  with c nl show False by simp
qed

lemma split_at_newline:
  assumes "(10 :: byte) \<notin> set a" and "(10 :: byte) \<notin> set b" and "a @ 10 # c = b @ 10 # d"
  shows "a = b \<and> c = d"
  using assms
proof (induction a arbitrary: b)
  case Nil
  then show ?case by (cases b) auto
next
  case (Cons y a)
  then show ?case by (cases b) auto
qed

lemma name_input_inj:
  assumes "\<And>i. i \<in> set is \<union> set js \<Longrightarrow> char_of (10 :: nat) \<notin> set i"
    and "name_input is = name_input js"
  shows "is = js"
  using assms
proof (induction "is" arbitrary: js)
  case Nil
  then show ?case by (cases js) (auto simp: name_input_def)
next
  case (Cons i ids)
  then obtain j js' where js: "js = j # js'"
    by (cases js) (auto simp: name_input_def)
  have nl: "(10 :: byte) \<notin> set (string_bytes i)" "(10 :: byte) \<notin> set (string_bytes j)"
    using Cons.prems(1) by (auto simp: js intro!: newline_not_in)
  have "string_bytes i @ 10 # name_input ids = string_bytes j @ 10 # name_input js'"
    using Cons.prems(2) by (simp add: js name_input_def)
  then have "string_bytes i = string_bytes j \<and> name_input ids = name_input js'"
    using split_at_newline [OF nl] by blast
  then show ?case
    using Cons.IH [of js'] Cons.prems(1) by (auto simp: js dest: string_bytes_inj)
qed

text \<open>
  The digest does not collide on the given pack-name inputs. SHA-256 is only relied on for the
  names that really occur.
\<close>

definition names_distinct :: "ext \<Rightarrow> OpId list set \<Rightarrow> bool" where
  "names_distinct x A \<longleftrightarrow> inj_on (sha256 x) (name_input ` A)"

lemma pack_name_inj:
  assumes "names_distinct x A" and "is \<in> A" and "js \<in> A" and "pack_name x is = pack_name x js"
    and "\<And>i. i \<in> set is \<union> set js \<Longrightarrow> char_of (10 :: nat) \<notin> set i"
  shows "is = js"
proof -
  have "sha256 x (name_input is) = sha256 x (name_input js)"
    using assms(4) by (simp add: pack_name_def hash_bytes_eq_iff)
  then have "name_input is = name_input js"
    using assms(1-3) by (auto simp: names_distinct_def dest: inj_onD)
  then show ?thesis
    using assms(5) by (intro name_input_inj)
qed

lemma map_fst_make_pack:
  assumes "frames_size ops < 2 ^ 64" and "distinct (map fst ops)" and "sorted (map fst ops)"
  shows "map fst (idx_ops (make_pack ops)) = map fst ops"
proof (rule strict_sorted_equal)
  show "sorted_wrt (<) (map fst (idx_ops (make_pack ops)))"
    using make_pack_spec(1) [OF assms(1,2)] by (simp add: bt_inv_def idx_ops_def)
  show "sorted_wrt (<) (map fst ops)"
    using assms(2,3) by (simp add: strict_sorted_iff)
  show "set (map fst (idx_ops (make_pack ops))) = set (map fst ops)"
    using make_pack_spec(2) [OF assms(1,2)] by (simp add: idx_ops_def)
qed

lemma make_pack_ok:
  assumes "frames_size ops < 2 ^ 64" and "distinct (map fst ops)" and "sorted (map fst ops)"
    and "\<And>i b. (i, b) \<in> set ops \<Longrightarrow> id_ok x V i \<and> decode x b = Inr (V i)"
  shows "pack_ok x V (pack_name x (map fst ops), make_pack ops)"
proof -
  have "id_ok x V i \<and> read_packed_op x (pk_bytes (make_pack ops)) off = Inr (V i)"
    if "(i, off) \<in> set (idx_ops (make_pack ops))" for i off
    using make_pack_spec(3) [OF assms(1,2)] that assms(4)
    by (fastforce simp: idx_ops_def read_packed_op_def)
  then show ?thesis
    using make_pack_spec(1) [OF assms(1,2)] map_fst_make_pack [OF assms(1-3)]
    by (auto simp: pack_ok_def idx_ops_def)
qed

lemma write_pack_ok:
  assumes ps: "packs_ok x V ps" and size: "frames_size ops < 2 ^ 64" and dist: "distinct (map fst ops)"
    and ok: "\<And>i b. (i, b) \<in> set ops \<Longrightarrow> id_ok x V i \<and> decode x b = Inr (V i)"
    and names: "names_distinct x A" "sort (map fst ops) \<in> A" "(\<lambda>(_, p). map fst (idx_ops p)) ` set ps \<subseteq> A"
  shows "packs_ok x V (write_pack_from_survivors x ops ps)"
    and "packed_ids (write_pack_from_survivors x ops ps) = packed_ids ps \<union> fst ` set ops"
    and "hp \<in> set (write_pack_from_survivors x ops ps) \<Longrightarrow>
      hp \<in> set ps \<or> map fst (idx_ops (snd hp)) = sort (map fst ops)"
proof -
  let ?ops = "sort_key fst ops"
  let ?name = "pack_name x (map fst ?ops)"
  have m: "mset ?ops = mset ops" and st: "set ?ops = set ops"
    by simp_all
  have size': "frames_size ?ops < 2 ^ 64"
    using size frames_size_mset [OF m] by simp
  have dist': "distinct (map fst ?ops)"
    using dist by (metis m mset_eq_imp_distinct_iff mset_map)
  have sort': "sorted (map fst ?ops)" by simp
  have ids: "map fst ?ops = sort (map fst ops)"
    by (rule properties_for_sort [symmetric]) simp_all
  have pk: "pack_ok x V (?name, make_pack ?ops)"
    using make_pack_ok [OF size' dist' sort'] ok st by blast
  have keys: "fst ` set (idx_ops (make_pack ?ops)) = fst ` set ops"
    using make_pack_spec(2) [OF size' dist'] st by (simp add: idx_ops_def)
  have old: "fst ` set (idx_ops p) = fst ` set ops" if "(?name, p) \<in> set ps" for p
  proof -
    have p: "pack_ok x V (?name, p)"
      using ps that by (simp add: packs_ok_def)
    have "map fst (idx_ops p) = sort (map fst ops)"
    proof (rule pack_name_inj [OF names(1)])
      show "map fst (idx_ops p) \<in> A"
        using names(3) that by force
      show "pack_name x (map fst (idx_ops p)) = pack_name x (sort (map fst ops))"
        using p by (simp add: pack_ok_def ids)
      show "char_of (10 :: nat) \<notin> set i"
        if "i \<in> set (map fst (idx_ops p)) \<union> set (sort (map fst ops))" for i
        using that p ok by (fastforce simp: pack_ok_def id_ok_def)
    qed (use names in simp)
    from arg_cong [OF this, of set] show ?thesis by simp
  qed
  show "packs_ok x V (write_pack_from_survivors x ops ps)"
    using ps pk by (auto simp: write_pack_from_survivors_def Let_def packs_ok_def)
  show "packed_ids (write_pack_from_survivors x ops ps) = packed_ids ps \<union> fst ` set ops"
  proof (cases "?name \<in> fst ` set ps")
    case True
    then obtain p where "(?name, p) \<in> set ps" by auto
    then have "fst ` set ops \<subseteq> packed_ids ps"
      using old packed_ids_mem by metis
    with True show ?thesis
      by (auto simp: write_pack_from_survivors_def Let_def)
  next
    case False
    then show ?thesis
      using keys by (auto simp: write_pack_from_survivors_def Let_def)
  qed
  have "map fst (idx_ops (make_pack ?ops)) = sort (map fst ops)"
    using map_fst_make_pack [OF size' dist' sort'] ids by simp
  then show "hp \<in> set ps \<or> map fst (idx_ops (snd hp)) = sort (map fst ops)"
    if "hp \<in> set (write_pack_from_survivors x ops ps)"
    using that by (auto simp: write_pack_from_survivors_def Let_def split: if_splits)
qed

text \<open>\<open>repack\<close> writes its pack the way \<open>write_pack_from_survivors\<close> does.\<close>

lemma repack_eq:
  "repack x threshold log =
     (let files = list_loose_files log in
      if length files < threshold then (log, 0)
      else (log\<lparr>loose := remove_loose (fst ` set files) (loose log),
                packs := write_pack_from_survivors x files (packs log)\<rparr>, length files))"
  by (simp add: repack_def write_pack_from_survivors_def Let_def)

definition loose_size :: "OpLog \<Rightarrow> nat" where
  "loose_size log = frames_size (loose log)"

lemma list_loose_ok: "store_ok x V log \<Longrightarrow> list_loose_files log = loose log"
  by (auto simp: list_loose_files_def store_ok_def id_ok_def intro!: filter_True)

lemma remove_loose_all: "remove_loose (fst ` set l) l = []"
  by (force simp: remove_loose_def filter_empty_conv)

lemma repack_ok:
  assumes ok: "store_ok x V log" and size: "loose_size log < 2 ^ 64"
    and names: "names_distinct x (insert (sort (map fst (loose log)))
      ((\<lambda>(_, p). map fst (idx_ops p)) ` set (packs log)))"
  shows "store_ok x V (fst (repack x t log)) \<and> stored_ids (fst (repack x t log)) = stored_ids log"
proof (cases "length (loose log) < t")
  case True
  then show ?thesis
    using ok by (simp add: repack_eq list_loose_ok [OF ok] Let_def)
next
  case False
  have ps: "packs_ok x V (packs log)" and dist: "distinct (map fst (loose log))"
    and l: "\<And>i b. (i, b) \<in> set (loose log) \<Longrightarrow> id_ok x V i \<and> decode x b = Inr (V i)"
    using ok by (auto simp: store_ok_def)
  note w = write_pack_ok [OF ps _ dist l names, unfolded loose_size_def [symmetric], OF size]
  show ?thesis
    using False w(1,2)
    by (auto simp: repack_eq list_loose_ok [OF ok] Let_def store_ok_def stored_ids_def remove_loose_all)
qed

section \<open>evict\<close>

definition pack_json_size :: "ext \<Rightarrow> (OpId \<Rightarrow> OperationRecord) \<Rightarrow> Pack \<Rightarrow> nat" where
  "pack_json_size x V p = frames_size (map (\<lambda>(i, _). (i, json_record x (V i))) (idx_ops p))"

lemma frames_size_filter: "frames_size (filter P ops) \<le> frames_size ops"
  by (induction ops) (auto simp: frames_size_def)

lemma survivors_read:
  assumes "pack_ok x V (h, p)"
  shows "rmap (\<lambda>(i, off). rbind (read_packed_op x (pk_bytes p) off) (\<lambda>r. Inr (i, json_record x r)))
      (filter P (idx_ops p)) =
    Inr (map (\<lambda>(i, _). (i, json_record x (V i))) (filter P (idx_ops p)))"
  by (rule rmap_all_Inr) (use assms in \<open>auto simp: pack_ok_def\<close>)

text \<open>The name inputs that can occur while packs are rewritten.\<close>

definition evict_names :: "OpId set \<Rightarrow> (string \<times> Pack) list \<Rightarrow> OpId list set" where
  "evict_names victims ps =
     (\<lambda>(_, p). map fst (idx_ops p)) ` set ps \<union>
     (\<lambda>(_, p). filter (\<lambda>i. i \<notin> victims) (map fst (idx_ops p))) ` set ps"

text \<open>The frames written back for a pack and the packs on disk once it is rewritten.\<close>

definition live_frames ::
  "ext \<Rightarrow> (OpId \<Rightarrow> OperationRecord) \<Rightarrow> OpId set \<Rightarrow> Pack \<Rightarrow> (OpId \<times> byte list) list" where
  "live_frames x V victims p =
     map (\<lambda>(i, _). (i, json_record x (V i))) (filter (\<lambda>e. fst e \<notin> victims) (idx_ops p))"

definition packs_after ::
  "ext \<Rightarrow> (OpId \<times> byte list) list \<Rightarrow> string \<Rightarrow> (string \<times> Pack) list \<Rightarrow> (string \<times> Pack) list" where
  "packs_after x survivors h cur =
     (let cur' = filter (\<lambda>e. fst e \<noteq> h) cur
      in if survivors = [] then cur' else write_pack_from_survivors x survivors cur')"

lemma keys_live_frames:
  "map fst (live_frames x V victims p) = filter (\<lambda>i. i \<notin> victims) (map fst (idx_ops p))"
  "fst ` set (live_frames x V victims p) = fst ` set (idx_ops p) - victims"
proof -
  show "map fst (live_frames x V victims p) = filter (\<lambda>i. i \<notin> victims) (map fst (idx_ops p))"
    by (simp add: live_frames_def filter_map o_def case_prod_beta)
  from arg_cong [OF this, of set]
  show "fst ` set (live_frames x V victims p) = fst ` set (idx_ops p) - victims"
    by auto
qed

lemma live_frames_ok:
  assumes pk: "pack_ok x V (h, p)"
  shows "sorted (map fst (live_frames x V victims p))"
    and "distinct (map fst (live_frames x V victims p))"
    and "frames_size (live_frames x V victims p) \<le> pack_json_size x V p"
    and "(i, b) \<in> set (live_frames x V victims p) \<Longrightarrow> id_ok x V i \<and> decode x b = Inr (V i)"
proof -
  have inv: "bt_inv (idx_ops p)"
    using pk by (simp add: pack_ok_def)
  then show "sorted (map fst (live_frames x V victims p))" "distinct (map fst (live_frames x V victims p))"
    unfolding keys_live_frames by (simp_all add: bt_inv_def strict_sorted_iff sorted_wrt_filter)
  have "live_frames x V victims p =
    filter (\<lambda>e. fst e \<notin> victims) (map (\<lambda>(i, _). (i, json_record x (V i))) (idx_ops p))"
    by (simp add: live_frames_def filter_map o_def case_prod_beta)
  then show "frames_size (live_frames x V victims p) \<le> pack_json_size x V p"
    by (simp add: pack_json_size_def frames_size_filter)
  show "id_ok x V i \<and> decode x b = Inr (V i)" if "(i, b) \<in> set (live_frames x V victims p)"
    using that pk by (auto simp: live_frames_def pack_ok_def id_ok_def)
qed

lemma packs_after_ok:
  assumes cur: "packs_ok x V cur" and hp: "(h, p) \<in> set cur"
    and size: "pack_json_size x V p < 2 ^ 64"
    and A: "names_distinct x A" "(\<lambda>(_, p). map fst (idx_ops p)) ` set cur \<subseteq> A"
      "filter (\<lambda>i. i \<notin> victims) (map fst (idx_ops p)) \<in> A"
  defines "nxt \<equiv> packs_after x (live_frames x V victims p) h cur"
  shows "packs_ok x V nxt"
    and "packed_ids nxt - victims = packed_ids cur - victims"
    and "q \<in> set nxt \<Longrightarrow> (q \<in> set cur \<and> fst q \<noteq> h) \<or>
      map fst (idx_ops (snd q)) = filter (\<lambda>i. i \<notin> victims) (map fst (idx_ops p))"
proof -
  let ?surv = "live_frames x V victims p" and ?cur = "filter (\<lambda>e. fst e \<noteq> h) cur"
  have pk: "pack_ok x V (h, p)"
    using cur hp by (auto simp: packs_ok_def)
  note live = live_frames_ok [OF pk, where victims = victims]
  have cur_ok: "packs_ok x V ?cur"
    using cur by (auto simp: packs_ok_def distinct_map_filter)
  have srt: "sort (map fst ?surv) = filter (\<lambda>i. i \<notin> victims) (map fst (idx_ops p))"
    using sorted_sort_id [OF live(1)] by (simp add: keys_live_frames(1))
  have A': "sort (map fst ?surv) \<in> A" "(\<lambda>(_, p). map fst (idx_ops p)) ` set ?cur \<subseteq> A"
    using A(2,3) by (auto simp: srt)
  note w = write_pack_ok [OF cur_ok _ live(2,4) A(1) A']
  have sz: "frames_size ?surv < 2 ^ 64"
    using live(3) size by (rule le_less_trans)
  have ids: "packed_ids nxt = packed_ids ?cur \<union> fst ` set ?surv"
    using w(2) [OF sz] by (cases "?surv = []") (auto simp: nxt_def packs_after_def)
  have split: "set cur = insert (h, p) (set ?cur)"
    using cur hp by (auto simp: packs_ok_def dest: eq_key_imp_eq_value)
  have "packed_ids cur = fst ` set (idx_ops p) \<union> packed_ids ?cur"
    unfolding packed_ids_def split by simp
  then show "packed_ids nxt - victims = packed_ids cur - victims"
    unfolding ids keys_live_frames by blast
  show "packs_ok x V nxt"
    using w(1) [OF sz] cur_ok by (cases "?surv = []") (simp_all add: nxt_def packs_after_def)
  show "(q \<in> set cur \<and> fst q \<noteq> h) \<or>
      map fst (idx_ops (snd q)) = filter (\<lambda>i. i \<notin> victims) (map fst (idx_ops p))"
    if "q \<in> set nxt"
    using w(3) [OF sz] that srt by (cases "?surv = []") (auto simp: nxt_def packs_after_def)
qed

text \<open>The invariant of the loop of \<open>evict\<close>: the packs it has passed hold no victim.\<close>

definition evict_inv ::
  "ext \<Rightarrow> (OpId \<Rightarrow> OperationRecord) \<Rightarrow> OpId set \<Rightarrow> OpId list set \<Rightarrow> (string \<times> Pack) list \<Rightarrow>
   (string \<times> Pack) list \<Rightarrow> bool" where
  "evict_inv x V victims A todo cur \<longleftrightarrow> packs_ok x V cur \<and> set todo \<subseteq> set cur \<and>
     distinct (map fst todo) \<and>
     (\<forall>hp \<in> set cur - set todo. fst ` set (idx_ops (snd hp)) \<inter> victims = {}) \<and>
     (\<forall>(h, p) \<in> set todo. pack_json_size x V p < 2 ^ 64) \<and>
     (\<lambda>(_, p). map fst (idx_ops p)) ` set cur \<subseteq> A \<and> evict_names victims todo \<subseteq> A"

lemma evict_inv_skip:
  assumes "evict_inv x V victims A (hp # todo) cur"
    and "fst ` set (idx_ops (snd hp)) \<inter> victims = {}"
  shows "evict_inv x V victims A todo cur"
proof -
  have "fst ` set (idx_ops (snd q)) \<inter> victims = {}" if "q \<in> set cur - set todo" for q
    using assms that by (cases "q = hp") (simp_all add: evict_inv_def)
  moreover have "evict_names victims todo \<subseteq> A"
    using assms(1) by (auto simp: evict_inv_def evict_names_def)
  ultimately show ?thesis
    using assms(1) by (simp add: evict_inv_def)
qed

lemma evict_inv_rewrite:
  assumes inv: "evict_inv x V victims A ((h, p) # todo) cur" and A: "names_distinct x A"
  defines "nxt \<equiv> packs_after x (live_frames x V victims p) h cur"
  shows "evict_inv x V victims A todo nxt" and "packed_ids nxt - victims = packed_ids cur - victims"
proof -
  have cur: "packs_ok x V cur" "(h, p) \<in> set cur" "pack_json_size x V p < 2 ^ 64"
    and B: "(\<lambda>(_, p). map fst (idx_ops p)) ` set cur \<subseteq> A"
      "filter (\<lambda>i. i \<notin> victims) (map fst (idx_ops p)) \<in> A"
    using inv by (auto simp: evict_inv_def evict_names_def)
  note after = packs_after_ok [OF cur A B, folded nxt_def]
  show "packed_ids nxt - victims = packed_ids cur - victims"
    by (rule after(2))
  have "set todo \<subseteq> set (filter (\<lambda>e. fst e \<noteq> h) cur)"
    using inv by (auto simp: evict_inv_def image_iff)
  then have "set todo \<subseteq> set nxt"
    by (auto simp: nxt_def packs_after_def write_pack_from_survivors_def Let_def)
  moreover have "fst ` set (idx_ops (snd q)) \<inter> victims = {}" if "q \<in> set nxt" "q \<notin> set todo" for q
    using after(3) [OF that(1)]
  proof
    assume "q \<in> set cur \<and> fst q \<noteq> h"
    then have "q \<in> set cur - set ((h, p) # todo)"
      using that(2) by auto
    then show ?thesis
      using inv by (simp add: evict_inv_def)
  next
    assume "map fst (idx_ops (snd q)) = filter (\<lambda>i. i \<notin> victims) (map fst (idx_ops p))"
    from arg_cong [OF this, of set] show ?thesis by auto
  qed
  moreover have "(\<lambda>(_, p). map fst (idx_ops p)) ` set nxt \<subseteq> A"
    using after(3) B by (force simp: case_prod_beta)
  ultimately show "evict_inv x V victims A todo nxt"
    using inv after(1) by (auto simp: evict_inv_def evict_names_def)
qed

lemma evict_packs_ok:
  assumes "evict_inv x V victims A todo cur" and "names_distinct x A"
  shows "\<exists>ps n. evict_packs x victims todo cur removed = (ps, Inr n) \<and>
    packs_ok x V ps \<and> packed_ids ps = packed_ids cur - victims"
  using assms(1)
proof (induction todo arbitrary: cur removed)
  case Nil
  then have "packed_ids cur \<inter> victims = {}"
    by (fastforce simp: packed_ids_def evict_inv_def)
  with Nil show ?case by (auto simp: evict_inv_def)
next
  case (Cons hp todo)
  obtain h p where hp: "hp = (h, p)" by (cases hp)
  show ?case
  proof (cases "\<exists>e \<in> set (idx_ops p). fst e \<in> victims")
    case False
    then have "evict_inv x V victims A todo cur"
      by (intro evict_inv_skip [OF Cons.prems]) (auto simp: hp)
    then show ?thesis
      using False Cons.IH by (simp add: hp Let_def idx_ops_def)
  next
    case True
    have pk: "pack_ok x V (h, p)"
      using Cons.prems by (auto simp: hp evict_inv_def packs_ok_def)
    note rewrite = evict_inv_rewrite [OF Cons.prems [unfolded hp] assms(2)]
    have "evict_packs x victims (hp # todo) cur removed =
      evict_packs x victims todo (packs_after x (live_frames x V victims p) h cur)
        (removed + length (filter (\<lambda>e. fst e \<in> victims) (idx_ops p)))"
      using True survivors_read [OF pk, of "\<lambda>e. fst e \<notin> victims"]
      by (auto simp: hp Let_def idx_ops_def live_frames_def packs_after_def)
    then show ?thesis
      using Cons.IH [OF rewrite(1)] rewrite(2) by simp
  qed
qed

lemma evict_ok:
  assumes ok: "store_ok x V log"
    and size: "\<And>h p. (h, p) \<in> set (packs log) \<Longrightarrow> pack_json_size x V p < 2 ^ 64"
    and names: "names_distinct x (evict_names victims (packs log))"
  shows "\<exists>log' n. evict x victims log = (log', Inr n) \<and> store_ok x V log' \<and>
    stored_ids log' = stored_ids log - victims"
proof (cases "victims = {}")
  case True
  then show ?thesis
    using ok by (simp add: evict_def)
next
  case False
  let ?gone = "filter (\<lambda>e. fst e \<in> victims) (loose log)"
  have ps: "packs_ok x V (packs log)"
    using ok by (simp add: store_ok_def)
  have "\<exists>ps n. evict_packs x victims (packs log) (packs log) (length ?gone) = (ps, Inr n) \<and>
    packs_ok x V ps \<and> packed_ids ps = packed_ids (packs log) - victims"
    using ps size names by (intro evict_packs_ok [where A = "evict_names victims (packs log)"])
      (auto simp: evict_inv_def packs_ok_def evict_names_def)
  then obtain qs n where qs: "evict_packs x victims (packs log) (packs log) (length ?gone) = (qs, Inr n)"
    and qs_ok: "packs_ok x V qs" and ids: "packed_ids qs = packed_ids (packs log) - victims"
    by blast
  let ?rest = "filter (\<lambda>e. fst e \<notin> victims) (loose log)"
  have rest: "remove_loose (fst ` set ?gone) (loose log) = ?rest"
    by (force simp: remove_loose_def intro: filter_cong)
  have ev: "evict x victims log = (log\<lparr>loose := ?rest, packs := qs\<rparr>, Inr n)"
    using False qs
    by (simp add: evict_def list_loose_ok [OF ok] list_pack_indices_def Let_def rest del: set_filter)
  have "store_ok x V (log\<lparr>loose := ?rest, packs := qs\<rparr>)"
    using ok qs_ok by (auto simp: store_ok_def distinct_map_filter)
  moreover have "stored_ids (log\<lparr>loose := ?rest, packs := qs\<rparr>) = stored_ids log - victims"
    by (auto simp: stored_ids_def ids)
  ultimately show ?thesis
    using ev by blast
qed

section \<open>list\_all\<close>

text \<open>The state of the listing loop: \<open>seen\<close> holds exactly the ids of the records listed.\<close>

definition listed :: "(OpId \<Rightarrow> OperationRecord) \<Rightarrow> OpId list \<Rightarrow> OperationRecord list \<Rightarrow> bool" where
  "listed V seen out \<longleftrightarrow> set out = V ` set seen \<and> distinct (map op_id out) \<and>
     set (map op_id out) = set seen"

lemma listed_snoc:
  "listed V seen out \<Longrightarrow> i \<notin> set seen \<Longrightarrow> op_id (V i) = i \<Longrightarrow> listed V (i # seen) (out @ [V i])"
  by (auto simp: listed_def)

lemma list_loose_records_ok:
  assumes "store_ok x V log" and "set is \<subseteq> stored_ids log" and "listed V seen out"
  shows "\<exists>seen' out'. list_loose_records x log is seen out = Inr (seen', out') \<and>
    listed V seen' out' \<and> set seen' = set seen \<union> set is"
  using assms(2,3)
proof (induction "is" arbitrary: seen out)
  case Nil
  then show ?case by simp
next
  case (Cons i ids)
  have i: "get x log i = Inr (Some (V i))" "op_id (V i) = i"
    using Cons.prems(1) get_ok [OF assms(1), of i] stored_id_ok [OF assms(1), of i]
    by (auto simp: id_ok_def)
  show ?case
  proof (cases "i \<in> set seen")
    case True
    then show ?thesis
      using Cons.IH [of seen out] Cons.prems i by (auto simp: insert_absorb)
  next
    case False
    then show ?thesis
      using Cons.IH [of "i # seen" "out @ [V i]"] Cons.prems i listed_snoc [OF Cons.prems(2) False]
      by auto
  qed
qed

lemma list_packed_records_ok:
  assumes "\<And>i off. (i, off) \<in> set es \<Longrightarrow> id_ok x V i \<and> read_packed_op x bytes off = Inr (V i)"
    and "listed V seen out"
  shows "\<exists>seen' out'. list_packed_records x bytes es seen out = Inr (seen', out') \<and>
    listed V seen' out' \<and> set seen' = set seen \<union> fst ` set es"
  using assms
proof (induction es arbitrary: seen out)
  case Nil
  then show ?case by simp
next
  case (Cons e es)
  obtain i off where e: "e = (i, off)" by (cases e)
  have i: "read_packed_op x bytes off = Inr (V i)" "op_id (V i) = i"
    using Cons.prems(1) [of i off] by (auto simp: e id_ok_def)
  have tl: "id_ok x V j \<and> read_packed_op x bytes o' = Inr (V j)" if "(j, o') \<in> set es" for j o'
    using Cons.prems(1) [of j o'] that by simp
  show ?case
  proof (cases "i \<in> set seen")
    case True
    then show ?thesis
      using Cons.IH [OF tl Cons.prems(2)] i by (auto simp: e insert_absorb)
  next
    case False
    then show ?thesis
      using Cons.IH [OF tl listed_snoc [OF Cons.prems(2) False i(2)]] i by (auto simp: e)
  qed
qed

lemma list_all_packs_ok:
  assumes "\<And>hp. hp \<in> set ps \<Longrightarrow> pack_ok x V hp" and "listed V seen out"
  shows "\<exists>seen' out'. list_all_packs x ps seen out = Inr out' \<and>
    listed V seen' out' \<and> set seen' = set seen \<union> packed_ids ps"
  using assms
proof (induction ps arbitrary: seen out)
  case Nil
  then show ?case by auto
next
  case (Cons hp ps)
  obtain h p where hp: "hp = (h, p)" by (cases hp)
  have p: "id_ok x V i \<and> read_packed_op x (pk_bytes p) off = Inr (V i)"
    if "(i, off) \<in> set (pk_ops (pk_idx p))" for i off
    using Cons.prems(1) [of hp] that by (auto simp: hp pack_ok_def idx_ops_def)
  obtain s o' where so: "list_packed_records x (pk_bytes p) (pk_ops (pk_idx p)) seen out = Inr (s, o')"
    and l: "listed V s o'" and s: "set s = set seen \<union> fst ` set (pk_ops (pk_idx p))"
    using list_packed_records_ok [OF p Cons.prems(2)] by blast
  show ?case
    using Cons.IH [OF _ l] Cons.prems(1) so s by (auto simp: hp idx_ops_def Un_assoc)
qed

lemma list_all_ops_ok:
  assumes ok: "store_ok x V log"
  shows "\<exists>recs. list_all_ops x log = Inr recs \<and> set recs = V ` stored_ids log \<and>
    distinct (map op_id recs)"
proof -
  have sub: "set (map fst (loose log)) \<subseteq> stored_ids log"
    by (auto simp: stored_ids_def)
  have nil: "listed V [] []"
    by (simp add: listed_def)
  obtain s out where
    l: "list_loose_records x log (map fst (loose log)) [] [] = Inr (s, out)" "listed V s out"
      "set s = fst ` set (loose log)"
    using list_loose_records_ok [OF ok sub nil] by auto
  have pks: "\<And>hp. hp \<in> set (packs log) \<Longrightarrow> pack_ok x V hp"
    using ok by (simp add: store_ok_def packs_ok_def)
  obtain s' out' where "list_all_packs x (packs log) s out = Inr out'" "listed V s' out'"
    "set s' = set s \<union> packed_ids (packs log)"
    using list_all_packs_ok [OF pks l(2)] by blast
  then show ?thesis
    using l by (simp add: list_all_ops_def list_loose_ok [OF ok] list_pack_indices_def listed_def
        stored_ids_def)
qed

section \<open>The interface of the operation log\<close>

text \<open>
  What the DAG queries, the apply gate and the merge engine rely on: a log that satisfies its
  invariant answers every read without an error with the record its id stands for, or with
  nothing; \<open>append\<close> adds exactly one id.
\<close>

locale op_store =
  fixes fetch :: "'log \<Rightarrow> OpId \<Rightarrow> OperationRecord option io_result"
    and append :: "'log \<Rightarrow> OperationRecord \<Rightarrow> 'log"
    and ids :: "'log \<Rightarrow> OpId set"
    and view :: "OpId \<Rightarrow> OperationRecord"
    and inv :: "'log \<Rightarrow> bool"
    and storable :: "OperationRecord \<Rightarrow> bool"
  assumes finite_ids: "finite (ids log)"
    and fetch_view: "inv log \<Longrightarrow> fetch log i = Inr (if i \<in> ids log then Some (view i) else None)"
    and view_id: "inv log \<Longrightarrow> i \<in> ids log \<Longrightarrow> op_id (view i) = i"
    and inv_append: "inv log \<Longrightarrow> storable r \<Longrightarrow> view (op_id r) = r \<Longrightarrow> inv (append log r)"
    and ids_append: "ids (append log r) = insert (op_id r) (ids log)"
begin

lemma fetch_append:
  assumes "inv log" and "storable r" and "view (op_id r) = r"
  shows "fetch (append log r) i = (if i = op_id r then Inr (Some r) else fetch log i)"
  using assms by (auto simp: fetch_view inv_append ids_append)

lemma append_again:
  assumes "inv log" and "storable r" and "view (op_id r) = r" and "op_id r \<in> ids log"
  shows "fetch (append log r) = fetch log"
  using assms by (auto simp: fetch_view inv_append ids_append fun_eq_iff)

end

interpretation store: op_store "get x" "put x" stored_ids V "store_ok x V"
    "\<lambda>r. id_ok x V (op_id r)"
  for x V
  by unfold_locales (simp_all add: get_ok stored_id_ok put_ok stored_ids_put
      stored_id_ok [unfolded id_ok_def])

section \<open>A concrete store\<close>

definition sample_log :: OpLog where
  "sample_log = fold (\<lambda>r log. put sample_ext log r) sample_records open_log"

lemma sample_log_ok: "store_ok sample_ext sample_view sample_log"
  by code_simp

lemma sample_repacked_ok: "store_ok sample_ext sample_view (fst (repack sample_ext 2 sample_log))"
  by code_simp

lemma sample_ids: "stored_ids sample_log = {''00'', ''01'', ''02'', ''03''}"
  by code_simp

section \<open>Properties\<close>

text \<open>
  C4. \<open>put\<close> then \<open>get\<close>: the stored record comes back under its id, every other lookup is
  unchanged, and the log stays well formed.
\<close>

theorem put_get:
  assumes "store_ok x V log" and "id_ok x V (op_id r)" and "V (op_id r) = r"
  shows "store_ok x V (put x log r) \<and>
    get x (put x log r) i = (if i = op_id r then Inr (Some r) else get x log i)"
  using put_ok [OF assms] store.fetch_append [OF assms] by simp

theorem put_get_witness:
  "let r = sample_records ! 0
   in get sample_ext (put sample_ext open_log r) ''00'' = Inr (Some r)"
proof -
  let ?r = "sample_records ! 0"
  have "id_ok sample_ext sample_view (op_id ?r)" "sample_view (op_id ?r) = ?r" "op_id ?r = ''00''"
    by code_simp+
  from put_get [OF store_ok_open this(1,2), of "''00''"] this(3) show ?thesis
    by simp
qed

text \<open>
  A packfile holds exactly the records framed into it, and the index leads every one of them
  back to its bytes, as long as the pack stays below the range of the 64-bit offsets.
\<close>

theorem pack_roundtrip:
  assumes "distinct (map fst ops)" and "(\<Sum>(_, bytes) \<leftarrow> ops. 8 + length bytes) < 2 ^ 64"
  shows "fst ` set (pk_ops (pk_idx (make_pack ops))) = fst ` set ops \<and>
    (\<forall>(i, bytes) \<in> set ops. \<exists>off. bt_get (pk_ops (pk_idx (make_pack ops))) i = Some off \<and>
       read_frame (pk_bytes (make_pack ops)) off = Inr bytes)"
proof -
  have size: "frames_size ops < 2 ^ 64"
    using assms(2) by (simp add: frames_size_def)
  obtain buf offs where w: "write_frames 0 ops [] [] = (buf, offs)"
    by (cases "write_frames 0 ops [] []")
  then show ?thesis
    using make_pack_spec(2) [OF size assms(1)] write_frames_spec [OF w] size assms(1)
    by (simp add: make_pack_def)
qed

theorem pack_roundtrip_witness:
  "let p = make_pack [(''b'', [1, 2, 3]), (''a'', [])]
   in \<exists>off. bt_get (pk_ops (pk_idx p)) ''b'' = Some off \<and> read_frame (pk_bytes p) off = Inr [1, 2, 3]"
  using pack_roundtrip [of "[(''b'', [1, 2, 3]), (''a'', [])]"] by simp

text \<open>
  C5. \<open>repack\<close> is invisible to readers: whatever moves from loose files into a pack, every lookup
  answers as before, and the reported count is the number of loose files that were moved.
\<close>

theorem repack_transparent:
  assumes "store_ok x V log" and "loose_size log < 2 ^ 64"
    and "names_distinct x (insert (sort (map fst (loose log)))
           ((\<lambda>(_, p). map fst (idx_ops p)) ` set (packs log)))"
  shows "store_ok x V (fst (repack x t log)) \<and> get x (fst (repack x t log)) i = get x log i \<and>
    (if length (loose log) < t then repack x t log = (log, 0)
     else loose (fst (repack x t log)) = [] \<and> snd (repack x t log) = length (loose log))"
proof -
  have "store_ok x V (fst (repack x t log)) \<and> stored_ids (fst (repack x t log)) = stored_ids log"
    by (rule repack_ok [OF assms])
  then have "store_ok x V (fst (repack x t log)) \<and> get x (fst (repack x t log)) i = get x log i"
    using get_ok [OF assms(1)] by (metis get_ok)
  then show ?thesis
    by (simp add: repack_eq list_loose_ok [OF assms(1)] remove_loose_all Let_def)
qed

theorem repack_transparent_witness:
  "get sample_ext (fst (repack sample_ext 2 sample_log)) ''01'' = get sample_ext sample_log ''01'' \<and>
   loose (fst (repack sample_ext 2 sample_log)) = []"
proof -
  have "loose_size sample_log = 36" "packs sample_log = []" "\<not> length (loose sample_log) < 2"
    by code_simp+
  moreover have "names_distinct sample_ext {sort (map fst (loose sample_log))}"
    by (simp add: names_distinct_def)
  ultimately show ?thesis
    using repack_transparent [OF sample_log_ok, of 2 "''01''"] by simp
qed

text \<open>
  C6. \<open>evict\<close> succeeds on a well-formed log, removes every copy of the victims, loose or packed,
  and leaves every other record readable.
\<close>

theorem evict_exact:
  assumes "store_ok x V log"
    and "\<forall>(h, p) \<in> set (packs log). pack_json_size x V p < 2 ^ 64"
    and "names_distinct x (evict_names victims (packs log))"
  shows "\<exists>log' n. evict x victims log = (log', Inr n) \<and> store_ok x V log' \<and>
    (\<forall>i. get x log' i = (if i \<in> victims then Inr None else get x log i))"
proof -
  obtain log' n where ev: "evict x victims log = (log', Inr n)" "store_ok x V log'"
    "stored_ids log' = stored_ids log - victims"
    using evict_ok [OF assms(1) _ assms(3)] assms(2) by blast
  then show ?thesis
    using get_ok [OF assms(1)] get_ok [OF ev(2)] by auto
qed

theorem evict_exact_witness:
  "\<exists>log' n. evict sample_ext {''03''} (fst (repack sample_ext 2 sample_log)) = (log', Inr n) \<and>
     get sample_ext log' ''03'' = Inr None"
proof -
  let ?log = "fst (repack sample_ext 2 sample_log)"
  have "\<forall>(h, p) \<in> set (packs ?log). pack_json_size sample_ext sample_view p = 36"
    by code_simp
  then have "\<forall>(h, p) \<in> set (packs ?log). pack_json_size sample_ext sample_view p < 2 ^ 64"
    by auto
  moreover have "names_distinct sample_ext (evict_names {''03''} (packs ?log))"
    by (simp add: names_distinct_def table_ext_def)
  ultimately show ?thesis
    using evict_exact [OF sample_repacked_ok, of "{''03''}"] by auto
qed

text \<open>
  \<open>list_all\<close> returns every stored record once, whether it is loose, packed or both.
\<close>

theorem list_all_complete:
  assumes "store_ok x V log"
  shows "\<exists>recs. list_all_ops x log = Inr recs \<and> distinct (map op_id recs) \<and>
    (\<forall>i r. get x log i = Inr (Some r) \<longleftrightarrow> r \<in> set recs \<and> op_id r = i)"
proof -
  obtain recs where recs: "list_all_ops x log = Inr recs" "set recs = V ` stored_ids log"
    "distinct (map op_id recs)"
    using list_all_ops_ok [OF assms] by blast
  have "op_id (V i) = i" if "i \<in> stored_ids log" for i
    using stored_id_ok [OF assms that] by (simp add: id_ok_def)
  then show ?thesis
    using recs get_ok [OF assms] by auto
qed

theorem list_all_complete_witness:
  "\<exists>recs. list_all_ops sample_ext (fst (repack sample_ext 2 sample_log)) = Inr recs \<and>
     distinct (map op_id recs)"
  using list_all_complete [OF sample_repacked_ok] by blast

end
