(* ===== verification/Vcs_OpDag.thy ===== *)
theory Vcs_OpDag
  imports Vcs_OpStore
begin

text \<open>
  The query half of \<open>crates/lex-vcs/src/op_log.rs\<close>: ancestry walks, the topological order a
  head is replayed in, common ancestors and history differences. The walks are total functions
  (the frontier can grow only by parents of records not seen yet, and the log holds finitely
  many); the order is Kahn's algorithm with a least-index-first queue.
\<close>

section \<open>Ancestry walks\<close>

definition parent_count :: "ext \<Rightarrow> OpLog \<Rightarrow> OpId \<Rightarrow> nat" where
  "parent_count x log i =
     (case get x log i of Inr (Some r) \<Rightarrow> length (parents (op r)) | _ \<Rightarrow> 0)"

lemma get_packed_stored: "get_packed x ps i = Inr (Some r) \<Longrightarrow> i \<in> packed_ids ps"
proof (induction ps)
  case (Cons hp ps)
  show ?case
  proof (cases "bt_get (pk_ops (pk_idx (snd hp))) i")
    case None
    with Cons show ?thesis by (cases hp) simp
  next
    case (Some off)
    then have "(i, off) \<in> set (idx_ops (snd hp))"
      by (simp add: idx_ops_def bt_get_SomeD)
    then show ?thesis by (force simp: image_iff)
  qed
qed simp

lemma get_stored: "get x log i = Inr (Some r) \<Longrightarrow> i \<in> stored_ids log"
  by (auto simp: get_def stored_ids_def split: option.splits dest: get_packed_stored map_of_SomeD)
     (force dest: map_of_SomeD)

definition unseen_weight :: "ext \<Rightarrow> OpLog \<Rightarrow> OpId list \<Rightarrow> nat" where
  "unseen_weight x log seen = (\<Sum>i \<in> stored_ids log - set seen. parent_count x log i)"

lemma unseen_weight_step:
  assumes "get x log i = Inr (Some r)" and "i \<notin> set seen"
  shows "unseen_weight x log seen = length (parents (op r)) + unseen_weight x log (i # seen)"
proof -
  have eq: "stored_ids log - set seen = insert i (stored_ids log - set (i # seen))"
    using assms(2) get_stored [OF assms(1)] by auto
  have "unseen_weight x log seen = parent_count x log i + unseen_weight x log (i # seen)"
    unfolding unseen_weight_def by (subst eq, subst sum.insert) simp_all
  then show ?thesis
    using assms(1) by (simp add: parent_count_def)
qed

lemma unseen_weight_skip: "unseen_weight x log (i # seen) \<le> unseen_weight x log seen"
  unfolding unseen_weight_def by (rule sum_mono2) auto

text \<open>
  The \<open>VecDeque\<close> is listed from its back to its front: \<open>pop_back\<close> takes the head of the list and
  \<open>push_front\<close> appends at its end.
\<close>

function walk_back_loop ::
  "ext \<Rightarrow> OpLog \<Rightarrow> nat option \<Rightarrow> OpId list \<Rightarrow> OpId list \<Rightarrow> OperationRecord list \<Rightarrow>
   OperationRecord list io_result" where
  "walk_back_loop x log limit [] seen out = Inr out"
| "walk_back_loop x log limit (i # frontier) seen out =
     (if i \<in> set seen then walk_back_loop x log limit frontier seen out
      else case get x log i of
          Inl e \<Rightarrow> Inl e
        | Inr None \<Rightarrow> walk_back_loop x log limit frontier (i # seen) out
        | Inr (Some rec) \<Rightarrow>
            if (case limit of Some n \<Rightarrow> n \<le> length (out @ [rec]) | None \<Rightarrow> False)
            then Inr (out @ [rec])
            else walk_back_loop x log limit
                   (frontier @ filter (\<lambda>p. p \<notin> set (i # seen)) (parents (op rec)))
                   (i # seen) (out @ [rec]))"
  by pat_completeness auto
termination
proof (relation "measure (\<lambda>(x, log, limit, frontier, seen, out).
    length frontier + unseen_weight x log seen)", goal_cases)
  case (3 x log limit i frontier seen out a)
  then show ?case
    using unseen_weight_skip [of x log i seen] by simp
next
  case (4 x log limit i frontier seen out a rec)
  then show ?case
    using unseen_weight_step [of x log i rec seen]
    by (simp add: le_imp_less_Suc)
qed simp_all

definition walk_back ::
  "ext \<Rightarrow> OpLog \<Rightarrow> OpId \<Rightarrow> nat option \<Rightarrow> OperationRecord list io_result" where
  "walk_back x log head limit = walk_back_loop x log limit [head] [] []"

function walk_since_loop ::
  "ext \<Rightarrow> OpLog \<Rightarrow> OpId \<Rightarrow> OpId list \<Rightarrow> OpId list \<Rightarrow> bool \<Rightarrow> OperationRecord list \<Rightarrow>
   (bool \<times> OperationRecord list) io_result" where
  "walk_since_loop x log since [] seen found out = Inr (found, out)"
| "walk_since_loop x log since (i # frontier) seen found out =
     (if i \<in> set seen then walk_since_loop x log since frontier seen found out
      else if i = since then walk_since_loop x log since frontier (i # seen) True out
      else case get x log i of
          Inl e \<Rightarrow> Inl e
        | Inr None \<Rightarrow> walk_since_loop x log since frontier (i # seen) found out
        | Inr (Some rec) \<Rightarrow>
            walk_since_loop x log since
              (frontier @ filter (\<lambda>p. p \<notin> set (i # seen)) (parents (op rec)))
              (i # seen) found (out @ [rec]))"
  by pat_completeness auto
termination
proof (relation "measure (\<lambda>(x, log, since, frontier, seen, found, out).
    length frontier + unseen_weight x log seen)", goal_cases)
  case (3 x log since i frontier seen found out)
  then show ?case
    using unseen_weight_skip [of x log i seen] by simp
next
  case (4 x log since i frontier seen found out a)
  then show ?case
    using unseen_weight_skip [of x log i seen] by simp
next
  case (5 x log since i frontier seen found out a rec)
  then show ?case
    using unseen_weight_step [of x log i rec seen]
    by (simp add: le_imp_less_Suc)
qed simp_all

definition walk_forward_since ::
  "ext \<Rightarrow> OpLog \<Rightarrow> OpId \<Rightarrow> OpId \<Rightarrow> OperationRecord list option io_result" where
  "walk_forward_since x log head since =
     (if head = since then Inr (Some [])
      else rbind (walk_since_loop x log since [head] [] False [])
             (\<lambda>(found, out). Inr (if found then Some (rev out) else None)))"

section \<open>Topological order\<close>

text \<open>\<open>index\<close>: a \<open>HashMap\<close> filled in order, so the last record with an id wins.\<close>

definition rec_index :: "OperationRecord list \<Rightarrow> OpId \<Rightarrow> nat option" where
  "rec_index records = map_of (rev (zip (map op_id records) [0..<length records]))"

definition already_ordered :: "OperationRecord list \<Rightarrow> bool" where
  "already_ordered records \<longleftrightarrow>
     (\<forall>i \<in> set [0..<length records]. \<forall>p \<in> set (parents (op (records ! i))).
        case rec_index records p of None \<Rightarrow> True | Some j \<Rightarrow> j < i)"

text \<open>The distinct in-set parents of record \<open>i\<close>, itself left out.\<close>

fun dep_loop :: "(OpId \<Rightarrow> nat option) \<Rightarrow> nat \<Rightarrow> OpId list \<Rightarrow> nat list \<Rightarrow> nat list" where
  "dep_loop index i [] seen = seen"
| "dep_loop index i (p # ps) seen =
     (case index p of
        None \<Rightarrow> dep_loop index i ps seen
      | Some j \<Rightarrow> if j \<noteq> i \<and> j \<notin> set seen then dep_loop index i ps (seen @ [j])
                  else dep_loop index i ps seen)"

definition deps :: "OperationRecord list \<Rightarrow> nat \<Rightarrow> nat list" where
  "deps records i = dep_loop (rec_index records) i (parents (op (records ! i))) []"

definition indegrees :: "OperationRecord list \<Rightarrow> nat list" where
  "indegrees records = map (\<lambda>i. length (deps records i)) [0..<length records]"

definition children_of :: "OperationRecord list \<Rightarrow> nat \<Rightarrow> nat list" where
  "children_of records j = filter (\<lambda>i. j \<in> set (deps records i)) [0..<length records]"

text \<open>
  One pass over the children of a popped index. The source's \<open>indegree[c] -= 1\<close> followed by a
  test for zero is the test for one here; a count is never zero before it is decremented
  (\<open>kahn_inv\<close> below), so the subtraction cannot underflow.
\<close>

fun release_children :: "nat list \<Rightarrow> nat list \<Rightarrow> nat list \<Rightarrow> nat list \<times> nat list" where
  "release_children [] indegree ready = (indegree, ready)"
| "release_children (c # cs) indegree ready =
     release_children cs (indegree[c := indegree ! c - 1])
       (if c < length indegree \<and> indegree ! c = 1 then insort c ready else ready)"

lemma sum_list_dec: "c < length ns \<Longrightarrow> ns ! c = Suc m \<Longrightarrow> Suc (sum_list (ns[c := m])) = sum_list ns"
proof (induction ns arbitrary: c)
  case (Cons n ns)
  then show ?case by (cases c) auto
qed simp

lemma sum_list_dec_le: "sum_list (ns[c := ns ! c - 1]) \<le> sum_list (ns :: nat list)"
proof (induction ns arbitrary: c)
  case (Cons n ns)
  then show ?case by (cases c) auto
qed simp

lemma release_children_weight:
  "release_children cs ind ready = (ind', ready') \<Longrightarrow>
   sum_list ind' + length ready' \<le> sum_list ind + length ready"
proof (induction cs ind ready rule: release_children.induct)
  case (1 ind ready)
  then show ?case by simp
next
  case (2 c cs ind ready)
  show ?case
  proof (cases "c < length ind \<and> ind ! c = 1")
    case True
    have "Suc (sum_list (ind[c := 0])) = sum_list ind"
      using True by (intro sum_list_dec) auto
    then show ?thesis
      using 2 True by simp
  next
    case False
    then show ?thesis
      using 2 sum_list_dec_le [of ind c] by (auto simp: if_not_P)
  qed
qed

text \<open>The \<open>BinaryHeap<Reverse<usize>>\<close> is the sorted list of its elements: \<open>pop\<close> takes the least.\<close>

function kahn_loop :: "OperationRecord list \<Rightarrow> nat list \<Rightarrow> nat list \<Rightarrow> nat list \<Rightarrow> nat list" where
  "kahn_loop records indegree [] order = order"
| "kahn_loop records indegree (i # ready) order =
     (let (indegree', ready') = release_children (children_of records i) indegree ready
      in kahn_loop records indegree' ready' (order @ [i]))"
  by pat_completeness auto
termination
proof (relation "measure (\<lambda>(records, indegree, ready, order). sum_list indegree + length ready)",
    goal_cases)
  case (2 records indegree i ready order st ind' ready')
  then show ?case
    using release_children_weight [of "children_of records i" indegree ready ind' ready'] by simp
qed simp

fun take_slots :: "'a option list \<Rightarrow> nat list \<Rightarrow> 'a list" where
  "take_slots slots [] = []"
| "take_slots slots (i # is) =
     (case slots ! i of
        Some r \<Rightarrow> r # take_slots (slots[i := None]) is
      | None \<Rightarrow> take_slots slots is)"

definition kahn_order :: "OperationRecord list \<Rightarrow> nat list" where
  "kahn_order records =
     (let n = length records;
          ready = filter (\<lambda>i. indegrees records ! i = 0) [0..<n];
          order = kahn_loop records (indegrees records) ready []
      in if length order < n then order @ filter (\<lambda>i. i \<notin> set order) [0..<n] else order)"

definition linearize :: "OperationRecord list \<Rightarrow> OperationRecord list" where
  "linearize records =
     (if already_ordered records then records
      else take_slots (map Some records) (kahn_order records))"

definition walk_forward ::
  "ext \<Rightarrow> OpLog \<Rightarrow> OpId \<Rightarrow> nat option \<Rightarrow> OperationRecord list io_result" where
  "walk_forward x log head limit =
     rbind (walk_back x log head None) (\<lambda>all.
       let ordered = linearize (rev all)
       in Inr (case limit of Some n \<Rightarrow> take n ordered | None \<Rightarrow> ordered))"

section \<open>Common ancestors and differences\<close>

definition lca :: "ext \<Rightarrow> OpLog \<Rightarrow> OpId \<Rightarrow> OpId \<Rightarrow> OpId option io_result" where
  "lca x log a b =
     rbind (walk_back x log a None) (\<lambda>a_anc.
     rbind (walk_back x log b None) (\<lambda>b_anc.
       Inr (map_option op_id (find (\<lambda>r. op_id r \<in> set (map op_id a_anc)) b_anc))))"

definition ops_since ::
  "ext \<Rightarrow> OpLog \<Rightarrow> OpId \<Rightarrow> OpId option \<Rightarrow> OperationRecord list io_result" where
  "ops_since x log head base =
     rbind (case base of
              Some b \<Rightarrow> rbind (walk_back x log b None) (\<lambda>rs. Inr (map op_id rs))
            | None \<Rightarrow> Inr []) (\<lambda>exclude.
     rbind (walk_back x log head None) (\<lambda>rs.
       Inr (filter (\<lambda>r. op_id r \<notin> set exclude) rs)))"

section \<open>Ancestry\<close>

text \<open>
  The specification of the walks: \<open>anc M h i\<close> says that record \<open>i\<close> of the log \<open>M\<close> is \<open>h\<close> or is
  reached from it over parents that are in the log. Parents that are missing (an incomplete
  local log) are passed over, the leniency the code documents.
\<close>

definition log_view :: "(OpId \<Rightarrow> OperationRecord) \<Rightarrow> OpLog \<Rightarrow> OpId \<Rightarrow> OperationRecord option" where
  "log_view V log i = (if i \<in> stored_ids log then Some (V i) else None)"

inductive anc :: "(OpId \<Rightarrow> OperationRecord option) \<Rightarrow> OpId \<Rightarrow> OpId \<Rightarrow> bool" for M h where
  anc_self: "M h = Some r \<Longrightarrow> anc M h h"
| anc_parent: "anc M h i \<Longrightarrow> M i = Some r \<Longrightarrow> p \<in> set (parents (op r)) \<Longrightarrow> M p = Some r' \<Longrightarrow> anc M h p"

lemma anc_present: "anc M h i \<Longrightarrow> M h \<noteq> None \<and> M i \<noteq> None"
  by (induction rule: anc.induct) auto

lemma anc_trans: "anc M i j \<Longrightarrow> anc M h i \<Longrightarrow> anc M h j"
  by (induction rule: anc.induct) (auto intro: anc_parent)

lemma get_log_view: "store_ok x V log \<Longrightarrow> get x log i = Inr (log_view V log i)"
  by (simp add: log_view_def store.fetch_view)

text \<open>
  What holds between two iterations of the walk from \<open>h\<close>: the output lists the present ids seen so
  far; everything seen or queued is an ancestor; the parents of what was seen are seen or queued.
\<close>

definition walk_out :: "(OpId \<Rightarrow> OperationRecord option) \<Rightarrow> OpId set \<Rightarrow> OperationRecord list \<Rightarrow> bool" where
  "walk_out M S out \<longleftrightarrow> (\<forall>r \<in> set out. M (op_id r) = Some r) \<and> distinct (map op_id out) \<and>
     set (map op_id out) = S \<inter> dom M"

definition walk_reach :: "(OpId \<Rightarrow> OperationRecord option) \<Rightarrow> OpId \<Rightarrow> OpId set \<Rightarrow> bool" where
  "walk_reach M h U \<longleftrightarrow> h \<in> U \<and> (\<forall>i \<in> U. M i \<noteq> None \<longrightarrow> anc M h i)"

definition walk_closed :: "(OpId \<Rightarrow> OperationRecord option) \<Rightarrow> OpId set \<Rightarrow> OpId set \<Rightarrow> bool" where
  "walk_closed M S U \<longleftrightarrow> (\<forall>i r. i \<in> S \<longrightarrow> M i = Some r \<longrightarrow> set (parents (op r)) \<subseteq> U)"

definition walk_inv ::
  "(OpId \<Rightarrow> OperationRecord option) \<Rightarrow> OpId \<Rightarrow> OpId list \<Rightarrow> OpId list \<Rightarrow> OperationRecord list \<Rightarrow> bool" where
  "walk_inv M h frontier seen out \<longleftrightarrow> walk_out M (set seen) out \<and>
     walk_reach M h (set seen \<union> set frontier) \<and>
     walk_closed M (set seen) (set seen \<union> set frontier)"

lemma walk_closed_visit:
  "walk_closed M S U \<Longrightarrow> M i = Some r \<Longrightarrow> U \<subseteq> U' \<Longrightarrow> set (parents (op r)) \<subseteq> U' \<Longrightarrow>
   walk_closed M (insert i S) U'"
  by (auto simp: walk_closed_def)

lemma walk_reach_visit:
  assumes "walk_reach M h U" and "i \<in> U" and "M i = Some r"
  shows "walk_reach M h (U \<union> set (parents (op r)))"
proof -
  have "anc M h i"
    using assms by (auto simp: walk_reach_def)
  then have "anc M h p" if "p \<in> set (parents (op r))" "M p \<noteq> None" for p
    using anc_parent assms(3) that by auto
  then show ?thesis
    using assms(1) by (auto simp: walk_reach_def)
qed

lemma walk_inv_init: "walk_inv M h [h] [] []"
  by (auto simp: walk_inv_def walk_out_def walk_reach_def walk_closed_def intro: anc_self)

lemma walk_inv_skip:
  assumes "walk_inv M h (i # q) seen out" and "i \<in> set seen"
  shows "walk_inv M h q seen out"
proof -
  have "set seen \<union> set (i # q) = set seen \<union> set q"
    using assms(2) by auto
  with assms(1) show ?thesis
    unfolding walk_inv_def by (simp only:)
qed

lemma walk_inv_missing:
  assumes "walk_inv M h (i # q) seen out" and "M i = None"
  shows "walk_inv M h q (i # seen) out"
proof -
  have "set (i # seen) \<union> set q = set seen \<union> set (i # q)"
    by simp
  moreover have "walk_out M (set (i # seen)) out = walk_out M (set seen) out"
    using assms(2) by (simp add: walk_out_def dom_def)
  moreover have "walk_closed M (set (i # seen)) U = walk_closed M (set seen) U" for U
    using assms(2) by (auto simp: walk_closed_def)
  ultimately show ?thesis
    using assms(1) unfolding walk_inv_def by (simp only:)
qed

lemma walk_inv_visit:
  assumes inv: "walk_inv M h (i # q) seen out" and new: "i \<notin> set seen" and r: "M i = Some r"
    and id: "op_id r = i"
  shows "walk_inv M h (q @ filter (\<lambda>p. p \<notin> set (i # seen)) (parents (op r))) (i # seen) (out @ [r])"
proof -
  let ?q = "q @ filter (\<lambda>p. p \<notin> set (i # seen)) (parents (op r))"
  let ?U = "set seen \<union> set (i # q)"
  have U: "set (i # seen) \<union> set ?q = ?U \<union> set (parents (op r))"
    by auto
  have "walk_out M (set (i # seen)) (out @ [r])"
    using inv new r id by (auto simp: walk_inv_def walk_out_def)
  moreover have "walk_reach M h (?U \<union> set (parents (op r)))"
    using inv r by (intro walk_reach_visit) (auto simp: walk_inv_def)
  moreover have "walk_closed M (set (i # seen)) (?U \<union> set (parents (op r)))"
    using inv r walk_closed_visit [of M "set seen" ?U i r "?U \<union> set (parents (op r))"]
    by (simp add: walk_inv_def subset_iff)
  ultimately show ?thesis
    unfolding walk_inv_def U by blast
qed

text \<open>At the end everything reachable has been seen.\<close>

lemma walk_inv_done:
  assumes "walk_inv M h [] seen out"
  shows "set (map op_id out) = {i. anc M h i}"
proof -
  have "i \<in> set seen" if "anc M h i" for i
    using that
  proof (induction rule: anc.induct)
    case (anc_self r)
    then show ?case using assms by (simp add: walk_inv_def walk_reach_def)
  next
    case (anc_parent i r p r')
    then show ?case using assms by (auto simp: walk_inv_def walk_closed_def)
  qed
  then show ?thesis
    using assms anc_present [of M h] by (force simp: walk_inv_def walk_out_def walk_reach_def)
qed

lemma walk_back_loop_ok:
  assumes "store_ok x V log" and "limit = None"
    and "walk_inv (log_view V log) h frontier seen out"
  shows "\<exists>seen' out'. walk_back_loop x log limit frontier seen out = Inr out' \<and>
    walk_inv (log_view V log) h [] seen' out'"
  using assms
proof (induction x log limit frontier seen out rule: walk_back_loop.induct)
  case (1 x log limit seen out)
  then show ?case by auto
next
  case (2 x log limit i frontier seen out)
  note g = get_log_view [OF "2.prems"(1), of i]
  show ?case
  proof (cases "i \<in> set seen")
    case True
    then show ?thesis
      using "2.IH"(1) "2.prems" walk_inv_skip by auto
  next
    case False
    show ?thesis
    proof (cases "log_view V log i")
      case None
      then show ?thesis
        using False "2.IH"(2) "2.prems" g walk_inv_missing by auto
    next
      case (Some r)
      have "op_id r = i"
        using Some stored_id_ok [OF "2.prems"(1), of i] by (auto simp: log_view_def id_ok_def split: if_splits)
      note inv = walk_inv_visit [OF "2.prems"(3) False Some this]
      show ?thesis
        using False Some g "2.prems"(1,2) "2.IH"(3) [OF False _ refl _ _ _ inv] by simp
    qed
  qed
qed

lemma walk_back_ok:
  assumes "store_ok x V log"
  obtains recs where "walk_back x log h None = Inr recs"
    and "set (map op_id recs) = {i. anc (log_view V log) h i}"
    and "distinct (map op_id recs)"
    and "\<And>r. r \<in> set recs \<Longrightarrow> log_view V log (op_id r) = Some r"
proof -
  obtain seen' out' where w: "walk_back_loop x log None [h] [] [] = Inr out'"
    and inv: "walk_inv (log_view V log) h [] seen' out'"
    using walk_back_loop_ok [OF assms refl walk_inv_init] by blast
  show ?thesis
  proof (rule that)
    show "walk_back x log h None = Inr out'"
      using w by (simp add: walk_back_def)
    show "set (map op_id out') = {i. anc (log_view V log) h i}"
      by (rule walk_inv_done [OF inv])
    show "distinct (map op_id out')"
      using inv by (simp add: walk_inv_def walk_out_def)
    show "log_view V log (op_id r) = Some r" if "r \<in> set out'" for r
      using inv that by (simp add: walk_inv_def walk_out_def)
  qed
qed

section \<open>Kahn's algorithm\<close>

lemma rec_index_Some:
  assumes "rec_index rs p = Some j"
  shows "j < length rs \<and> op_id (rs ! j) = p \<and> (\<forall>k < length rs. op_id (rs ! k) = p \<longrightarrow> k \<le> j)"
  using assms
proof (induction rs rule: rev_induct)
  case Nil
  then show ?case by (simp add: rec_index_def)
next
  case (snoc r rs)
  have "rec_index (rs @ [r]) p = (if p = op_id r then Some (length rs) else rec_index rs p)"
    by (simp add: rec_index_def)
  with snoc show ?case
    by (fastforce simp: nth_append less_Suc_eq split: if_splits)
qed

lemma rec_index_present: "p \<in> op_id ` set rs \<Longrightarrow> \<exists>j. rec_index rs p = Some j"
proof -
  assume "p \<in> op_id ` set rs"
  moreover have "fst ` set (rev (zip (map op_id rs) [0..<length rs])) = op_id ` set rs"
    by (metis length_map length_upt list.set_map map_fst_zip minus_nat.diff_0 set_rev)
  ultimately show ?thesis
    unfolding rec_index_def by (metis map_of_eq_None_iff not_None_eq)
qed

lemma dep_loop_spec:
  "distinct seen \<Longrightarrow> distinct (dep_loop idx i ps seen) \<and>
   set (dep_loop idx i ps seen) = set seen \<union> {j. j \<noteq> i \<and> (\<exists>p \<in> set ps. idx p = Some j)}"
  by (induction ps arbitrary: seen) (auto split: option.splits)

lemma distinct_deps [simp]: "distinct (deps rs i)"
  using dep_loop_spec [of "[]" "rec_index rs" i "parents (op (rs ! i))"] by (simp add: deps_def)

lemma set_deps:
  "set (deps rs i) = {j. j \<noteq> i \<and> (\<exists>p \<in> set (parents (op (rs ! i))). rec_index rs p = Some j)}"
  using dep_loop_spec [of "[]" "rec_index rs" i "parents (op (rs ! i))"] by (simp add: deps_def)

lemma deps_bound: "j \<in> set (deps rs i) \<Longrightarrow> j < length rs"
  by (auto simp: set_deps dest: rec_index_Some)

lemma release_children_spec:
  assumes "release_children cs ind ready = (ind', ready')"
    and "distinct cs" and "\<forall>c \<in> set cs. c < length ind \<and> 0 < ind ! c"
    and "sorted ready" and "distinct ready" and "set cs \<inter> set ready = {}"
  shows "length ind' = length ind \<and> (\<forall>k < length ind. ind' ! k = ind ! k - (if k \<in> set cs then 1 else 0)) \<and>
    set ready' = set ready \<union> {c \<in> set cs. ind ! c = 1} \<and> sorted ready' \<and> distinct ready'"
  using assms
proof (induction cs ind ready rule: release_children.induct)
  case (1 ind ready)
  then show ?case by simp
next
  case (2 c cs ind ready)
  let ?ind = "ind[c := ind ! c - 1]"
  let ?ready = "if c < length ind \<and> ind ! c = 1 then insort c ready else ready"
  have other: "?ind ! d = ind ! d" if "d \<in> set cs" for d
    using that "2.prems"(2) by (metis distinct.simps(2) nth_list_update_neq)
  have "length ind' = length ?ind \<and>
    (\<forall>k < length ?ind. ind' ! k = ?ind ! k - (if k \<in> set cs then 1 else 0)) \<and>
    set ready' = set ?ready \<union> {d \<in> set cs. ?ind ! d = 1} \<and> sorted ready' \<and> distinct ready'"
  proof (rule "2.IH")
    show "release_children cs ?ind ?ready = (ind', ready')"
      using "2.prems"(1) by simp
    show "\<forall>d \<in> set cs. d < length ?ind \<and> 0 < ?ind ! d"
      using "2.prems"(3) other by simp
  qed (use "2.prems" in \<open>auto simp: set_insort_key sorted_insort distinct_insort\<close>)
  moreover have "{d \<in> set cs. ?ind ! d = 1} = {d \<in> set cs. ind ! d = 1}"
    using other by auto
  ultimately show ?case
    using "2.prems"(2,3) by (auto simp: nth_list_update set_insort_key)
qed

definition kahn_inv ::
  "OperationRecord list \<Rightarrow> nat list \<Rightarrow> nat list \<Rightarrow> nat list \<Rightarrow> bool" where
  "kahn_inv rs ind ready order \<longleftrightarrow>
     sorted ready \<and> distinct ready \<and> distinct order \<and> set order \<subseteq> {..<length rs} \<and>
     length ind = length rs \<and>
     (\<forall>i < length rs. ind ! i = card (set (deps rs i) - set order)) \<and>
     set ready = {i. i < length rs \<and> i \<notin> set order \<and> set (deps rs i) \<subseteq> set order} \<and>
     (\<forall>k < length order. set (deps rs (order ! k)) \<subseteq> set (take k order))"

lemma kahn_inv_init:
  "kahn_inv rs (indegrees rs) (filter (\<lambda>i. indegrees rs ! i = 0) [0..<length rs]) []"
  by (auto simp: kahn_inv_def indegrees_def distinct_card [symmetric] sorted_wrt_filter)

lemma kahn_inv_closed:
  assumes "kahn_inv rs ind ready order" and "i \<in> set order"
  shows "set (deps rs i) \<subseteq> set order"
proof -
  obtain k where "k < length order" "i = order ! k"
    using assms(2) by (auto simp: in_set_conv_nth)
  with assms(1) have "set (deps rs i) \<subseteq> set (take k order)"
    by (simp add: kahn_inv_def)
  then show ?thesis
    using set_take_subset by fast
qed

lemma card_remove_dep:
  "finite A \<Longrightarrow> i \<notin> B \<Longrightarrow> card (A - insert i B) = card (A - B) - (if i \<in> A then 1 else 0)"
proof -
  assume "finite A" and "i \<notin> B"
  moreover have "A - insert i B = A - B - {i}" by auto
  ultimately show ?thesis
    by (simp add: card_Diff_singleton_if)
qed

lemma kahn_inv_step:
  assumes inv: "kahn_inv rs ind (i # ready) order"
    and rel: "release_children (children_of rs i) ind ready = (ind', ready')"
  shows "kahn_inv rs ind' ready' (order @ [i])"
proof -
  let ?cs = "children_of rs i"
  have i: "i < length rs" "i \<notin> set order" "set (deps rs i) \<subseteq> set order" "i \<notin> set ready"
    using inv by (auto simp: kahn_inv_def)
  have len: "length ind = length rs"
    and cnt: "\<And>k. k < length rs \<Longrightarrow> ind ! k = card (set (deps rs k) - set order)"
    and rdy: "insert i (set ready) = {k. k < length rs \<and> k \<notin> set order \<and> set (deps rs k) \<subseteq> set order}"
    using inv by (auto simp: kahn_inv_def)
  have cs: "c \<in> set ?cs \<longleftrightarrow> c < length rs \<and> i \<in> set (deps rs c)" for c
    by (auto simp: children_of_def)
  have c_new: "c \<notin> set order" "c \<notin> set ready" "0 < ind ! c" if "c \<in> set ?cs" for c
  proof -
    show "c \<notin> set order"
      using kahn_inv_closed [OF inv] that i(2) cs by blast
    show "c \<notin> set ready"
      using rdy that i(2) cs by blast
    have "i \<in> set (deps rs c) - set order"
      using that i(2) cs by blast
    then show "0 < ind ! c"
      using that cnt cs by (metis List.finite_set card_gt_0_iff empty_iff finite_Diff)
  qed
  have spec: "length ind' = length rs \<and>
    (\<forall>k < length rs. ind' ! k = ind ! k - (if k \<in> set ?cs then 1 else 0)) \<and>
    set ready' = set ready \<union> {c \<in> set ?cs. ind ! c = 1} \<and> sorted ready' \<and> distinct ready'"
    unfolding len [symmetric]
  proof (rule release_children_spec [OF rel])
    show "distinct ?cs" by (simp add: children_of_def)
    show "\<forall>c \<in> set ?cs. c < length ind \<and> 0 < ind ! c"
      using c_new(3) cs len by auto
    show "sorted ready" "distinct ready"
      using inv by (auto simp: kahn_inv_def)
    show "set ?cs \<inter> set ready = {}"
      using c_new(2) by blast
  qed
  have cnt': "ind' ! k = card (set (deps rs k) - set (order @ [i]))" if "k < length rs" for k
    using spec that cnt [OF that] card_remove_dep [OF _ i(2), of "set (deps rs k)"] cs [of k] by simp
  have sub: "set (deps rs k) \<subseteq> set (order @ [i]) \<longleftrightarrow> ind' ! k = 0" if "k < length rs" for k
    using cnt' [OF that] by (metis List.finite_set card_0_eq Diff_eq_empty_iff finite_Diff)
  have sub0: "set (deps rs k) \<subseteq> set order \<longleftrightarrow> ind ! k = 0" if "k < length rs" for k
    using cnt [OF that] by (metis List.finite_set card_0_eq Diff_eq_empty_iff finite_Diff)
  have "set ready' = {k. k < length rs \<and> k \<notin> set (order @ [i]) \<and> set (deps rs k) \<subseteq> set (order @ [i])}"
  proof (rule set_eqI)
    fix k
    have "k \<noteq> i" if "k \<in> set ?cs"
      using that cs by (auto simp: set_deps)
    then show "k \<in> set ready' \<longleftrightarrow>
      k \<in> {k. k < length rs \<and> k \<notin> set (order @ [i]) \<and> set (deps rs k) \<subseteq> set (order @ [i])}"
      using spec c_new [of k] sub [of k] sub0 [of k] rdy i(4) cs [of k] by (auto simp: set_eq_iff)
  qed
  then show ?thesis
    using inv spec cnt' i by (auto simp: kahn_inv_def nth_append less_Suc_eq)
qed

lemma kahn_loop_inv:
  "kahn_inv rs ind ready order \<Longrightarrow>
   \<exists>ind'. kahn_inv rs ind' [] (kahn_loop rs ind ready order)"
proof (induction rs ind ready order rule: kahn_loop.induct)
  case (1 rs ind order)
  then show ?case by auto
next
  case (2 rs ind i ready order)
  obtain ind' ready' where rel: "release_children (children_of rs i) ind ready = (ind', ready')"
    by fastforce
  show ?case
    using "2.IH" [OF rel [symmetric] refl kahn_inv_step [OF "2.prems" rel]] rel by simp
qed

text \<open>An acyclic parent relation, as a rank that every in-set parent lowers.\<close>

definition acyclic_records :: "OperationRecord list \<Rightarrow> bool" where
  "acyclic_records rs \<longleftrightarrow> (\<exists>rank :: OpId \<Rightarrow> nat. \<forall>r \<in> set rs. \<forall>p \<in> set (parents (op r)).
     p \<in> op_id ` set rs \<longrightarrow> rank p < rank (op_id r))"

lemma deps_rank:
  assumes "\<forall>r \<in> set rs. \<forall>p \<in> set (parents (op r)). p \<in> op_id ` set rs \<longrightarrow> rank p < rank (op_id r)"
    and "i < length rs" and "j \<in> set (deps rs i)"
  shows "(rank (op_id (rs ! j)) :: nat) < rank (op_id (rs ! i))"
proof -
  obtain p where p: "p \<in> set (parents (op (rs ! i)))" "rec_index rs p = Some j"
    using assms(3) by (auto simp: set_deps)
  then have "op_id (rs ! j) = p" "j < length rs"
    using rec_index_Some by blast+
  moreover from this have "p \<in> op_id ` set rs" by auto
  ultimately show ?thesis
    using assms(1,2) p(1) by (metis nth_mem)
qed

lemma kahn_complete:
  assumes "acyclic_records rs" and inv: "kahn_inv rs ind [] order"
  shows "set order = {..<length rs}"
proof -
  obtain rank :: "OpId \<Rightarrow> nat" where
    rank: "\<forall>r \<in> set rs. \<forall>p \<in> set (parents (op r)). p \<in> op_id ` set rs \<longrightarrow> rank p < rank (op_id r)"
    using assms(1) by (auto simp: acyclic_records_def)
  have "i \<in> set order" if "i < length rs" for i
    using that
  proof (induction "rank (op_id (rs ! i))" arbitrary: i rule: less_induct)
    case less
    have "set (deps rs i) \<subseteq> set order"
      using less.hyps deps_rank [OF rank less.prems] deps_bound by blast
    then show ?case
      using inv less.prems by (auto simp: kahn_inv_def)
  qed
  then show ?thesis
    using inv by (auto simp: kahn_inv_def)
qed

lemma kahn_order_perm: "distinct (kahn_order rs) \<and> set (kahn_order rs) = {..<length rs}"
proof -
  let ?ord = "kahn_loop rs (indegrees rs) (filter (\<lambda>i. indegrees rs ! i = 0) [0..<length rs]) []"
  obtain ind where "kahn_inv rs ind [] ?ord"
    using kahn_loop_inv [OF kahn_inv_init] by blast
  then have d: "distinct ?ord" "set ?ord \<subseteq> {..<length rs}"
    by (auto simp: kahn_inv_def)
  show ?thesis
  proof (cases "length ?ord < length rs")
    case True
    then show ?thesis
      using d by (auto simp: kahn_order_def Let_def)
  next
    case False
    have "card {..<length rs} \<le> card (set ?ord)"
      using False distinct_card [OF d(1)] by simp
    then have "set ?ord = {..<length rs}"
      using d(2) by (intro card_seteq) simp_all
    then show ?thesis
      using d False by (simp add: kahn_order_def Let_def)
  qed
qed

lemma take_slots_map:
  assumes "distinct ord" and "\<forall>i \<in> set ord. i < length slots \<and> slots ! i \<noteq> None"
  shows "take_slots slots ord = map (\<lambda>i. the (slots ! i)) ord"
  using assms
proof (induction slots ord rule: take_slots.induct)
  case (1 slots)
  then show ?case by simp
next
  case (2 slots i ord)
  obtain r where r: "slots ! i = Some r"
    using "2.prems"(2) by auto
  have "take_slots (slots[i := None]) ord = map (\<lambda>j. the (slots[i := None] ! j)) ord"
    by (rule "2.IH"(2) [OF r]) (use "2.prems" in \<open>auto simp: nth_list_update\<close>)
  also have "\<dots> = map (\<lambda>j. the (slots ! j)) ord"
    using "2.prems" by (auto simp: nth_list_update)
  finally show ?case
    using "2.prems" by auto
qed

lemma linearize_eq:
  "linearize rs = (if already_ordered rs then rs else map ((!) rs) (kahn_order rs))"
proof -
  have "take_slots (map Some rs) (kahn_order rs) = map (\<lambda>i. the (map Some rs ! i)) (kahn_order rs)"
    using kahn_order_perm [of rs] by (intro take_slots_map) auto
  also have "\<dots> = map ((!) rs) (kahn_order rs)"
    using kahn_order_perm [of rs] by auto
  finally show ?thesis
    by (simp add: linearize_def)
qed

lemma mset_linearize: "mset (linearize rs) = mset rs"
proof (cases "already_ordered rs")
  case True
  then show ?thesis by (simp add: linearize_def)
next
  case False
  have "mset (kahn_order rs) = mset [0..<length rs]"
    using kahn_order_perm [of rs] by (metis atLeast_upt distinct_upt set_eq_iff_mset_eq_distinct)
  then have "mset (map ((!) rs) (kahn_order rs)) = mset (map ((!) rs) [0..<length rs])"
    by simp
  then show ?thesis
    using False by (simp add: linearize_eq map_nth)
qed

text \<open>Every record comes after all of its parents that are in the list.\<close>

definition topo_ordered :: "OperationRecord list \<Rightarrow> bool" where
  "topo_ordered rs \<longleftrightarrow> (\<forall>i < length rs. \<forall>p \<in> set (parents (op (rs ! i))). p \<notin> op_id ` set (drop i rs))"

lemma topo_orderedI:
  assumes "\<And>i j. i < length rs \<Longrightarrow> j < length rs \<Longrightarrow> op_id (rs ! j) \<in> set (parents (op (rs ! i))) \<Longrightarrow> j < i"
  shows "topo_ordered rs"
proof -
  have "op_id (rs ! (i + k)) \<notin> set (parents (op (rs ! i)))" if "i + k < length rs" for i k
    using assms [of i "i + k"] that by auto
  then show ?thesis
    by (auto simp: topo_ordered_def in_set_conv_nth)
qed

lemma topo_orderedD:
  assumes "topo_ordered rs" and "i < length rs" and "j < length rs"
    and "op_id (rs ! j) \<in> set (parents (op (rs ! i)))"
  shows "j < i"
proof (rule ccontr)
  assume "\<not> j < i"
  then have "rs ! j \<in> set (drop i rs)"
    using assms(3) by (auto simp: in_set_conv_nth intro!: exI [of _ "j - i"])
  then show False
    using assms by (auto simp: topo_ordered_def)
qed

lemma already_ordered_topo: "already_ordered rs \<longleftrightarrow> topo_ordered rs"
proof
  assume al: "already_ordered rs"
  show "topo_ordered rs"
  proof (rule topo_orderedI)
    fix i j assume ij: "i < length rs" "j < length rs" "op_id (rs ! j) \<in> set (parents (op (rs ! i)))"
    obtain k where k: "rec_index rs (op_id (rs ! j)) = Some k"
      using rec_index_present ij(2) by (metis image_eqI nth_mem)
    then have "k < i"
      using al ij by (fastforce simp: already_ordered_def)
    moreover have "j \<le> k"
      using rec_index_Some [OF k] ij(2) by blast
    ultimately show "j < i" by simp
  qed
next
  assume topo: "topo_ordered rs"
  have "j < i" if "i < length rs" "p \<in> set (parents (op (rs ! i)))" "rec_index rs p = Some j" for i j p
    using rec_index_Some [OF that(3)] that topo_orderedD [OF topo] by blast
  then show "already_ordered rs"
    by (auto simp: already_ordered_def split: option.splits)
qed

lemma linearize_topo:
  assumes dist: "distinct (map op_id rs)" and acyc: "acyclic_records rs"
  shows "topo_ordered (linearize rs)"
proof (cases "already_ordered rs")
  case True
  then show ?thesis by (simp add: linearize_def already_ordered_topo)
next
  case False
  let ?ord = "kahn_loop rs (indegrees rs) (filter (\<lambda>i. indegrees rs ! i = 0) [0..<length rs]) []"
  obtain ind where inv: "kahn_inv rs ind [] ?ord"
    using kahn_loop_inv [OF kahn_inv_init] by blast
  have all: "set ?ord = {..<length rs}" and d: "distinct ?ord"
    using kahn_complete [OF acyc inv] inv by (auto simp: kahn_inv_def)
  then have ord: "kahn_order rs = ?ord"
    using distinct_card [OF d] by (simp add: kahn_order_def Let_def)
  obtain rank :: "OpId \<Rightarrow> nat" where
    rank: "\<forall>r \<in> set rs. \<forall>p \<in> set (parents (op r)). p \<in> op_id ` set rs \<longrightarrow> rank p < rank (op_id r)"
    using acyc by (auto simp: acyclic_records_def)
  have "topo_ordered (map ((!) rs) ?ord)"
  proof (rule topo_orderedI)
    fix i j
    assume i: "i < length (map ((!) rs) ?ord)" and j: "j < length (map ((!) rs) ?ord)"
      and par: "op_id (map ((!) rs) ?ord ! j) \<in> set (parents (op (map ((!) rs) ?ord ! i)))"
    let ?a = "?ord ! i" let ?b = "?ord ! j"
    have ab: "?a < length rs" "?b < length rs"
      using i j all by (metis length_map lessThan_iff nth_mem)+
    have pab: "op_id (rs ! ?b) \<in> set (parents (op (rs ! ?a)))"
      using par i j by simp
    obtain k where k: "rec_index rs (op_id (rs ! ?b)) = Some k"
      using rec_index_present ab(2) by (metis image_eqI nth_mem)
    have "k = ?b"
      using rec_index_Some [OF k] dist ab(2) by (simp add: distinct_conv_nth) metis
    have "rank (op_id (rs ! ?b)) < rank (op_id (rs ! ?a))"
      using rank pab ab by (metis image_eqI nth_mem)
    then have "?b \<in> set (deps rs ?a)"
      using k \<open>k = ?b\<close> pab by (auto simp: set_deps)
    then have "?b \<in> set (take i ?ord)"
      using inv i by (auto simp: kahn_inv_def)
    then obtain m where m: "m < i" "m < length ?ord" "?ord ! m = ?b"
      by (auto simp: in_set_conv_nth)
    then have "m = j"
      using d j by (simp add: nth_eq_iff_index_eq)
    with m(1) show "j < i" by simp
  qed
  then show ?thesis
    using False by (simp add: linearize_eq ord)
qed

section \<open>Replay order, common ancestors, differences\<close>

definition acyclic_view :: "(OpId \<Rightarrow> OperationRecord option) \<Rightarrow> bool" where
  "acyclic_view M \<longleftrightarrow> (\<exists>rank :: OpId \<Rightarrow> nat. \<forall>i r p. M i = Some r \<longrightarrow> p \<in> set (parents (op r)) \<longrightarrow>
     M p \<noteq> None \<longrightarrow> rank p < rank i)"

lemma acyclic_view_records:
  assumes "acyclic_view M" and "\<And>r. r \<in> set rs \<Longrightarrow> M (op_id r) = Some r"
  shows "acyclic_records rs"
proof -
  obtain rank :: "OpId \<Rightarrow> nat" where
    rank: "\<forall>i r p. M i = Some r \<longrightarrow> p \<in> set (parents (op r)) \<longrightarrow> M p \<noteq> None \<longrightarrow> rank p < rank i"
    using assms(1) by (auto simp: acyclic_view_def)
  have "rank p < rank (op_id r)"
    if "r \<in> set rs" "p \<in> set (parents (op r))" "p \<in> op_id ` set rs" for r p
    using rank assms(2) that by fastforce
  then show ?thesis
    by (auto simp: acyclic_records_def)
qed

lemma walk_forward_ok:
  assumes ok: "store_ok x V log" and acyc: "acyclic_view (log_view V log)"
  obtains recs where "walk_forward x log h None = Inr recs"
    and "set (map op_id recs) = {i. anc (log_view V log) h i}"
    and "distinct (map op_id recs)" and "topo_ordered recs"
    and "\<And>r. r \<in> set recs \<Longrightarrow> log_view V log (op_id r) = Some r"
proof -
  obtain rs where w: "walk_back x log h None = Inr rs"
    and ids: "set (map op_id rs) = {i. anc (log_view V log) h i}"
    and d: "distinct (map op_id rs)" and V: "\<And>r. r \<in> set rs \<Longrightarrow> log_view V log (op_id r) = Some r"
    using walk_back_ok [OF ok] by blast
  have m: "mset (linearize (rev rs)) = mset rs"
    by (simp add: mset_linearize)
  have st: "set (linearize (rev rs)) = set rs"
    using m by (metis set_mset_mset)
  have "acyclic_records (rev rs)"
    using acyc by (rule acyclic_view_records) (simp add: V)
  then have "topo_ordered (linearize (rev rs))"
    using d by (intro linearize_topo) (simp_all flip: rev_map)
  moreover have "distinct (map op_id (linearize (rev rs)))"
    using d m by (metis mset_eq_imp_distinct_iff mset_map)
  ultimately show ?thesis
    using w ids V st by (intro that [of "linearize (rev rs)"]) (simp_all add: walk_forward_def)
qed

lemma lca_ok:
  assumes ok: "store_ok x V log"
  shows "\<exists>c. lca x log a b = Inr c \<and>
    (case c of Some d \<Rightarrow> anc (log_view V log) a d \<and> anc (log_view V log) b d
     | None \<Rightarrow> \<not> (\<exists>d. anc (log_view V log) a d \<and> anc (log_view V log) b d))"
proof -
  obtain as where a: "walk_back x log a None = Inr as"
    "set (map op_id as) = {i. anc (log_view V log) a i}"
    using walk_back_ok [OF ok] by blast
  obtain bs where b: "walk_back x log b None = Inr bs"
    "set (map op_id bs) = {i. anc (log_view V log) b i}"
    using walk_back_ok [OF ok] by blast
  let ?c = "find (\<lambda>r. op_id r \<in> set (map op_id as)) bs"
  have l: "lca x log a b = Inr (map_option op_id ?c)"
    using a(1) b(1) by (simp add: lca_def)
  show ?thesis
  proof (cases ?c)
    case None
    then have "\<not> (\<exists>d. d \<in> set (map op_id bs) \<and> d \<in> set (map op_id as))"
      by (auto simp: find_None_iff)
    then show ?thesis
      using None l unfolding a(2) b(2) by auto
  next
    case (Some r)
    then have "op_id r \<in> set (map op_id as)" "op_id r \<in> set (map op_id bs)"
      by (auto simp: find_Some_iff)
    then show ?thesis
      using Some l unfolding a(2) b(2) by auto
  qed
qed

text \<open>
  On histories without merges the walk lists a chain, so the first hit is the lowest common
  ancestor.
\<close>

definition single_parent :: "(OpId \<Rightarrow> OperationRecord option) \<Rightarrow> bool" where
  "single_parent M \<longleftrightarrow> (\<forall>i r. M i = Some r \<longrightarrow> length (parents (op r)) \<le> 1)"

definition chain_inv ::
  "(OpId \<Rightarrow> OperationRecord option) \<Rightarrow> OpId list \<Rightarrow> OperationRecord list \<Rightarrow> bool" where
  "chain_inv M frontier out \<longleftrightarrow> length frontier \<le> 1 \<and>
     sorted_wrt (\<lambda>r s. anc M (op_id r) (op_id s)) out \<and>
     (\<forall>r \<in> set out. \<forall>p \<in> set frontier. M p \<noteq> None \<longrightarrow> anc M (op_id r) p)"

lemma chain_inv_visit:
  assumes inv: "chain_inv M (i # q) out" and r: "M i = Some r" "op_id r = i"
    and single: "length (parents (op r)) \<le> 1"
  shows "chain_inv M (q @ filter P (parents (op r))) (out @ [r])"
proof -
  have q: "q = []" and out: "\<And>s. s \<in> set out \<Longrightarrow> anc M (op_id s) i"
    using inv r by (auto simp: chain_inv_def)
  have len: "length (filter P (parents (op r))) \<le> 1"
    using single by (rule le_trans [OF length_filter_le])
  have "anc M h p" if "anc M h i" "p \<in> set (parents (op r))" "M p \<noteq> None" for h p
    using anc_parent [OF that(1) r(1) that(2)] that(3) by auto
  then show ?thesis
    using inv out len r anc_self [of M i r, OF r(1)] by (auto simp: chain_inv_def q sorted_wrt_append)
qed

lemma walk_back_loop_chain:
  assumes "store_ok x V log" and "limit = None" and "single_parent (log_view V log)"
    and "chain_inv (log_view V log) frontier out"
    and "walk_back_loop x log limit frontier seen out = Inr recs"
  shows "sorted_wrt (\<lambda>r s. anc (log_view V log) (op_id r) (op_id s)) recs"
  using assms
proof (induction x log limit frontier seen out rule: walk_back_loop.induct)
  case (1 x log limit seen out)
  then show ?case by (simp add: chain_inv_def)
next
  case (2 x log limit i frontier seen out)
  note g = get_log_view [OF "2.prems"(1), of i]
  have tl: "chain_inv (log_view V log) frontier out"
    using "2.prems"(4) by (auto simp: chain_inv_def)
  show ?case
  proof (cases "i \<in> set seen")
    case True
    then show ?thesis
      using "2.IH"(1) "2.prems" tl by simp
  next
    case False
    show ?thesis
    proof (cases "log_view V log i")
      case None
      then show ?thesis
        using False "2.IH"(2) "2.prems" g tl by simp
    next
      case (Some r)
      have id: "op_id r = i"
        using Some stored_id_ok [OF "2.prems"(1), of i]
        by (auto simp: log_view_def id_ok_def split: if_splits)
      have "length (parents (op r)) \<le> 1"
        using "2.prems"(3) Some by (simp add: single_parent_def)
      note inv = chain_inv_visit [OF "2.prems"(4) Some id this]
      show ?thesis
        using "2.IH"(3) [OF False _ refl _ "2.prems"(1,2,3) inv] False Some g "2.prems"(2,5) by simp
    qed
  qed
qed

lemma walk_back_chain:
  assumes "store_ok x V log" and "single_parent (log_view V log)" and "walk_back x log h None = Inr rs"
  shows "sorted_wrt (\<lambda>r s. anc (log_view V log) (op_id r) (op_id s)) rs"
proof -
  have "chain_inv (log_view V log) [h] []"
    by (simp add: chain_inv_def)
  from walk_back_loop_chain [OF assms(1) refl assms(2) this assms(3) [unfolded walk_back_def]]
  show ?thesis .
qed

lemma lca_lowest_single:
  assumes ok: "store_ok x V log" and single: "single_parent (log_view V log)"
    and l: "lca x log a b = Inr (Some c)"
    and d: "anc (log_view V log) a d" "anc (log_view V log) b d"
  shows "anc (log_view V log) c d"
proof -
  obtain as where a: "walk_back x log a None = Inr as"
    "set (map op_id as) = {i. anc (log_view V log) a i}"
    using walk_back_ok [OF ok] by blast
  obtain bs where b: "walk_back x log b None = Inr bs"
    "set (map op_id bs) = {i. anc (log_view V log) b i}"
    using walk_back_ok [OF ok] by blast
  note chain = walk_back_chain [OF ok single b(1)]
  obtain k where k: "k < length bs" "op_id (bs ! k) \<in> set (map op_id as)" "c = op_id (bs ! k)"
    and first: "\<And>j. j < k \<Longrightarrow> op_id (bs ! j) \<notin> set (map op_id as)"
    using l a(1) b(1) by (auto simp: lca_def find_Some_iff)
  have "d \<in> set (map op_id bs)"
    using d(2) b(2) by simp
  then obtain m where m: "m < length bs" "d = op_id (bs ! m)"
    by (auto simp: in_set_conv_nth)
  have "d \<in> set (map op_id as)"
    using d(1) a(2) by simp
  then have "k \<le> m"
    using first m by (meson not_le)
  then show ?thesis
    using chain k m anc_present [OF d(2)] anc_self [of "log_view V log" c]
    by (cases "k = m") (auto simp: sorted_wrt_iff_nth_less)
qed

lemma ops_since_ok:
  assumes ok: "store_ok x V log"
  obtains recs where "ops_since x log h base = Inr recs"
    and "set (map op_id recs) = {i. anc (log_view V log) h i \<and>
      (\<forall>b. base = Some b \<longrightarrow> \<not> anc (log_view V log) b i)}"
    and "distinct (map op_id recs)"
    and "\<And>r. r \<in> set recs \<Longrightarrow> log_view V log (op_id r) = Some r"
proof -
  obtain hs where h: "walk_back x log h None = Inr hs"
    "set (map op_id hs) = {i. anc (log_view V log) h i}" "distinct (map op_id hs)"
    "\<And>r. r \<in> set hs \<Longrightarrow> log_view V log (op_id r) = Some r"
    using walk_back_ok [OF ok] by blast
  obtain ex where ex: "(case base of Some b \<Rightarrow> rbind (walk_back x log b None) (\<lambda>rs. Inr (map op_id rs))
      | None \<Rightarrow> Inr []) = Inr ex"
    "set ex = {i. \<exists>b. base = Some b \<and> anc (log_view V log) b i}"
  proof (cases base)
    case None
    then show ?thesis by (intro that [of "[]"]) simp_all
  next
    case (Some b)
    obtain bs where "walk_back x log b None = Inr bs"
      "set (map op_id bs) = {i. anc (log_view V log) b i}"
      using walk_back_ok [OF ok] by blast
    then show ?thesis
      using Some by (intro that [of "map op_id bs"]) simp_all
  qed
  let ?rs = "filter (\<lambda>r. op_id r \<notin> set ex) hs"
  have "ops_since x log h base = Inr ?rs"
    using h(1) ex(1) by (simp add: ops_since_def)
  moreover have "set (map op_id ?rs) = set (map op_id hs) - set ex"
    by auto
  moreover have "distinct (map op_id ?rs)"
    using h(3) by (simp add: distinct_map_filter)
  ultimately show ?thesis
    using h(2,4) ex(2) by (intro that [of ?rs]) auto
qed

section \<open>The sample history\<close>

lemma log_view_sample:
  "log_view sample_view sample_log =
     (\<lambda>i. if i \<in> {''00'', ''01'', ''02'', ''03''} then Some (sample_view i) else None)"
  by (simp add: log_view_def sample_ids fun_eq_iff)

lemma acyclic_sample: "acyclic_view (log_view sample_view sample_log)"
  unfolding acyclic_view_def
proof (intro exI allI impI)
  let ?rank = "\<lambda>i. if i = ''00'' then 0 else if i = ''03'' then 2 else 1 :: nat"
  have "\<forall>i \<in> {''00'', ''01'', ''02'', ''03''}. \<forall>p \<in> set (parents (op (sample_view i))). ?rank p < ?rank i"
    by code_simp
  then show "?rank p < ?rank i"
    if "log_view sample_view sample_log i = Some r" "p \<in> set (parents (op r))" for i r p
    using that by (auto simp: log_view_sample split: if_splits)
qed

section \<open>Properties\<close>

text \<open>
  C2. \<open>walk_back\<close> returns exactly the ancestors of the head, each once and as stored; it terminates
  on every log.
\<close>

theorem walk_back_ancestors:
  assumes "store_ok x V log"
  shows "\<exists>recs. walk_back x log head None = Inr recs \<and>
    set (map op_id recs) = {i. anc (log_view V log) head i} \<and> distinct (map op_id recs) \<and>
    (\<forall>r \<in> set recs. get x log (op_id r) = Inr (Some r))"
proof -
  obtain recs where recs: "walk_back x log head None = Inr recs"
    "set (map op_id recs) = {i. anc (log_view V log) head i}" "distinct (map op_id recs)"
    "\<And>r. r \<in> set recs \<Longrightarrow> log_view V log (op_id r) = Some r"
    using walk_back_ok [OF assms] by blast
  then show ?thesis
    using get_log_view [OF assms] by auto
qed

theorem walk_back_ancestors_witness:
  "\<exists>recs. walk_back sample_ext sample_log ''03'' None = Inr recs \<and> distinct (map op_id recs)"
  using walk_back_ancestors [OF sample_log_ok] by blast

text \<open>
  C3. \<open>linearize\<close> reorders the records and drops none; on a list without parent cycles every record
  comes after those of its parents that are in the list, and a list that is already in that order
  is returned as it is.
\<close>

theorem linearize_topological:
  "mset (linearize rs) = mset rs \<and>
   (distinct (map op_id rs) \<longrightarrow> acyclic_records rs \<longrightarrow> topo_ordered (linearize rs)) \<and>
   (topo_ordered rs \<longrightarrow> linearize rs = rs)"
  using mset_linearize linearize_topo already_ordered_topo by (simp add: linearize_def)

theorem linearize_topological_witness:
  "topo_ordered (linearize (rev sample_records)) \<and> linearize sample_records = sample_records"
proof -
  have V: "log_view sample_view sample_log (op_id r) = Some r" if "r \<in> set (rev sample_records)" for r
  proof -
    have "\<forall>r \<in> set (rev sample_records).
        op_id r \<in> {''00'', ''01'', ''02'', ''03''} \<and> sample_view (op_id r) = r"
      by code_simp
    then show ?thesis using that by (simp add: log_view_sample)
  qed
  have "acyclic_records (rev sample_records)"
    by (rule acyclic_view_records [OF acyclic_sample V])
  moreover have "distinct (map op_id (rev sample_records))" "topo_ordered sample_records"
    by code_simp+
  ultimately show ?thesis
    using linearize_topological [of "rev sample_records"] linearize_topological [of sample_records]
    by simp
qed

text \<open>
  \<open>walk_forward\<close> replays exactly the ancestors of the head, oldest first: no record comes
  before a parent of it.
\<close>

theorem walk_forward_replays:
  assumes "store_ok x V log" and "acyclic_view (log_view V log)"
  shows "\<exists>recs. walk_forward x log head None = Inr recs \<and>
    set (map op_id recs) = {i. anc (log_view V log) head i} \<and> distinct (map op_id recs) \<and>
    topo_ordered recs"
  using walk_forward_ok [OF assms] by metis

theorem walk_forward_replays_witness:
  "\<exists>recs. walk_forward sample_ext sample_log ''03'' None = Inr recs \<and> topo_ordered recs"
  using walk_forward_replays [OF sample_log_ok acyclic_sample] by blast

text \<open>
  C7. \<open>lca\<close> answers with a common ancestor of the two heads, and with \<open>None\<close> only when they have
  none.
\<close>

theorem lca_common:
  assumes "store_ok x V log"
  shows "\<exists>c. lca x log a b = Inr c \<and>
    (case c of Some d \<Rightarrow> anc (log_view V log) a d \<and> anc (log_view V log) b d
     | None \<Rightarrow> \<not> (\<exists>d. anc (log_view V log) a d \<and> anc (log_view V log) b d))"
  by (rule lca_ok [OF assms])

theorem lca_common_witness:
  "anc (log_view sample_view sample_log) ''01'' ''00'' \<and> anc (log_view sample_view sample_log) ''02'' ''00''"
proof -
  have "lca sample_ext sample_log ''01'' ''02'' = Inr (Some ''00'')"
    by code_simp
  then show ?thesis
    using lca_common [OF sample_log_ok, of "''01''" "''02''"] by simp
qed

text \<open>
  C8. On a history without merges \<open>lca\<close> is the lowest common ancestor: every common ancestor of
  the two heads is an ancestor of the answer.
\<close>

theorem lca_lowest:
  assumes "store_ok x V log" and "single_parent (log_view V log)"
    and "lca x log a b = Inr (Some c)"
    and "anc (log_view V log) a d" and "anc (log_view V log) b d"
  shows "anc (log_view V log) c d"
  by (rule lca_lowest_single [OF assms])

definition sample_fork :: OpLog where
  "sample_fork = delete_op sample_log ''03''"

theorem lca_lowest_witness:
  "anc (log_view sample_view sample_fork) ''00'' ''00''"
proof -
  have ok: "store_ok sample_ext sample_view sample_fork"
    unfolding sample_fork_def by (rule delete_ok [OF sample_log_ok])
  have ids: "stored_ids sample_fork = {''00'', ''01'', ''02''}"
    by code_simp
  have "\<forall>i \<in> {''00'', ''01'', ''02''}. length (parents (op (sample_view i))) \<le> 1"
    by code_simp
  then have single: "single_parent (log_view sample_view sample_fork)"
    by (auto simp: single_parent_def log_view_def ids split: if_splits)
  have l: "lca sample_ext sample_fork ''01'' ''02'' = Inr (Some ''00'')"
    by code_simp
  have "anc (log_view sample_view sample_fork) ''01'' ''00''"
    "anc (log_view sample_view sample_fork) ''02'' ''00''"
    using lca_ok [OF ok, of "''01''" "''02''"] l by simp_all
  then show ?thesis
    by (rule lca_lowest [OF ok single l])
qed

text \<open>
  \<open>ops_since head base\<close> is the difference of the two histories: the ancestors of the head that
  are not ancestors of the base.
\<close>

theorem ops_since_difference:
  assumes "store_ok x V log"
  shows "\<exists>recs. ops_since x log head base = Inr recs \<and> distinct (map op_id recs) \<and>
    set (map op_id recs) = {i. anc (log_view V log) head i \<and>
      (\<forall>b. base = Some b \<longrightarrow> \<not> anc (log_view V log) b i)}"
  by (rule ops_since_ok [OF assms, of head base]) blast

theorem ops_since_difference_witness:
  "\<exists>recs. ops_since sample_ext sample_log ''03'' (Some ''01'') = Inr recs \<and> distinct (map op_id recs)"
  using ops_since_difference [OF sample_log_ok] by blast

end
