(* ===== verification/Vcs_Apply.thy ===== *)
theory Vcs_Apply
  imports Vcs_OpDag
begin

text \<open>
  The write path: \<open>apply\<close> of \<open>crates/lex-vcs/src/apply.rs\<close> (the parent check in front of
  \<open>OpLog::put\<close>) and \<open>check_and_apply\<close> of \<open>gate.rs\<close> (the type-check gate in front of \<open>apply\<close>),
  and the repositories that can be reached through them. The type checker is an argument of the
  gate: a function from a candidate program to its list of errors.
\<close>

section \<open>apply\<close>

record NewHead =
  nh_op_id :: OpId
  nh_record :: OperationRecord

datatype ApplyError =
    StaleParent "OpId option" "OpId list"   \<comment> \<open>expected, op_parents\<close>
  | UnknownMergeParent OpId
  | Persist io_error

definition check_parents ::
  "ext \<Rightarrow> OpLog \<Rightarrow> OpId option \<Rightarrow> OpId list \<Rightarrow> ApplyError + unit" where
  "check_parents x log head_op ps =
     (case (ps, head_op) of
        ([], None) \<Rightarrow> Inr ()
      | ([p], Some h) \<Rightarrow> if p = h then Inr () else Inl (StaleParent head_op ps)
      | ([p, q], Some h) \<Rightarrow>
          if p = q then Inl (StaleParent head_op ps)
          else if p \<noteq> h \<and> q \<noteq> h then Inl (StaleParent head_op ps)
          else let other = (if p = h then q else p)
               in (case get x log other of
                     Inl e \<Rightarrow> Inl (Persist e)
                   | Inr None \<Rightarrow> Inl (UnknownMergeParent other)
                   | Inr (Some _) \<Rightarrow> Inr ())
      | _ \<Rightarrow> Inl (StaleParent head_op ps))"

definition apply_op ::
  "ext \<Rightarrow> OpLog \<Rightarrow> OpId option \<Rightarrow> Operation \<Rightarrow> StageTransition \<Rightarrow> OpLog \<times> (ApplyError + NewHead)" where
  "apply_op x log head_op o' t =
     (case check_parents x log head_op (parents o') of
        Inl e \<Rightarrow> (log, Inl e)
      | Inr _ \<Rightarrow>
          let rec = record_new x o' t
          in (put x log rec, Inr \<lparr>nh_op_id = op_id rec, nh_record = rec\<rparr>))"

section \<open>The type-check gate\<close>

datatype 'err GateError =
    GateApply ApplyError
  | GateTypeError OpId "'err list"

text \<open>\<open>check\<close> stands for \<open>check_program\<close>: the errors of a program, none when it typechecks.\<close>

definition check_and_apply ::
  "('stage list \<Rightarrow> 'err list) \<Rightarrow> ext \<Rightarrow> OpLog \<Rightarrow> OpId option \<Rightarrow> Operation \<Rightarrow> StageTransition \<Rightarrow>
   'stage list \<Rightarrow> OpLog \<times> ('err GateError + NewHead)" where
  "check_and_apply check x log head_op o' t candidate =
     (let errors = check candidate in
      if errors \<noteq> [] then (log, Inl (GateTypeError (op_id_of x o') errors))
      else (case apply_op x log head_op o' t of
              (log', Inl e) \<Rightarrow> (log', Inl (GateApply e))
            | (log', Inr nh) \<Rightarrow> (log', Inr nh)))"

section \<open>What the parent check accepts\<close>

text \<open>The contract in the documentation of \<open>apply\<close>, over the ids a log holds.\<close>

definition parents_accepted :: "OpId set \<Rightarrow> OpId option \<Rightarrow> OpId list \<Rightarrow> bool" where
  "parents_accepted ids head_op ps \<longleftrightarrow>
     (case head_op of
        None \<Rightarrow> ps = []
      | Some h \<Rightarrow> ps = [h] \<or> (\<exists>other. other \<noteq> h \<and> other \<in> ids \<and> (ps = [h, other] \<or> ps = [other, h])))"

text \<open>What a rejection says: a merge naming the head and an unknown id, or a stale parent list.\<close>

definition parent_error :: "OpId option \<Rightarrow> OpId list \<Rightarrow> ApplyError" where
  "parent_error head_op ps =
     (case (ps, head_op) of
        ([p, q], Some h) \<Rightarrow>
          if p \<noteq> q \<and> (p = h \<or> q = h) then UnknownMergeParent (if p = h then q else p)
          else StaleParent head_op ps
      | _ \<Rightarrow> StaleParent head_op ps)"

lemma check_parents_cases:
  assumes "store_ok x V log"
  shows "check_parents x log head_op ps =
    (if parents_accepted (stored_ids log) head_op ps then Inr () else Inl (parent_error head_op ps))"
proof (cases head_op)
  case None
  then show ?thesis
    by (cases ps rule: remdups_adj.cases)
      (auto simp: check_parents_def parents_accepted_def parent_error_def split: list.splits)
next
  case (Some h)
  show ?thesis
  proof (cases "\<exists>p q. ps = [p, q]")
    case True
    then obtain p q where "ps = [p, q]" by blast
    then show ?thesis
      using Some get_ok [OF assms] by (auto simp: check_parents_def parents_accepted_def parent_error_def Let_def)
  next
    case False
    then show ?thesis
      using Some by (auto simp: check_parents_def parents_accepted_def parent_error_def split: list.splits)
  qed
qed

lemma apply_op_ok:
  assumes "store_ok x V log" and "apply_op x log head_op o' t = (log', Inr nh)"
  shows "parents_accepted (stored_ids log) head_op (parents o')"
    and "log' = put x log (record_new x o' t)"
    and "nh = \<lparr>nh_op_id = op_id_of x o', nh_record = record_new x o' t\<rparr>"
  using assms(2) check_parents_cases [OF assms(1)]
  by (auto simp: apply_op_def Let_def split: sum.splits if_splits)

lemma apply_op_err: "apply_op x log head_op o' t = (log', Inl e) \<Longrightarrow> log' = log"
  by (auto simp: apply_op_def Let_def split: sum.splits)

lemma parents_accepted_stored:
  "parents_accepted ids head_op ps \<Longrightarrow> set_option head_op \<subseteq> ids \<Longrightarrow> set ps \<subseteq> ids"
  by (auto simp: parents_accepted_def split: option.splits)

section \<open>Reachable repositories\<close>

text \<open>
  A repository is a log shared by branches, each with its head. It starts empty; a branch moves by
  an operation the gate accepts, a branch can be created at the head of another, and the log can be
  repacked. \<open>V\<close> is the record an id denotes; a record is \<open>storable\<close> when its id denotes it (no
  digest collision) and it survives serialisation.
\<close>

record repo =
  r_log :: OpLog
  r_heads :: "string \<Rightarrow> OpId option"

definition storable :: "ext \<Rightarrow> (OpId \<Rightarrow> OperationRecord) \<Rightarrow> OperationRecord \<Rightarrow> bool" where
  "storable x V r \<longleftrightarrow> V (op_id r) = r \<and> id_ok x V (op_id r)"

definition repack_safe :: "ext \<Rightarrow> OpLog \<Rightarrow> bool" where
  "repack_safe x log \<longleftrightarrow> loose_size log < 2 ^ 64 \<and>
     names_distinct x (insert (sort (map fst (loose log)))
       ((\<lambda>(_, p). map fst (idx_ops p)) ` set (packs log)))"

inductive repo_step ::
  "('stage list \<Rightarrow> 'err list) \<Rightarrow> ext \<Rightarrow> (OpId \<Rightarrow> OperationRecord) \<Rightarrow> repo \<Rightarrow> repo \<Rightarrow> bool"
  for check x V where
  advance:
    "check_and_apply check x (r_log s) (r_heads s b) o' t candidate = (log', Inr nh) \<Longrightarrow>
     storable x V (nh_record nh) \<Longrightarrow>
     repo_step check x V s \<lparr>r_log = log', r_heads = (r_heads s)(b \<mapsto> nh_op_id nh)\<rparr>"
| fork:
    "repo_step check x V s \<lparr>r_log = r_log s, r_heads = (r_heads s)(b := r_heads s from_b)\<rparr>"
| pack:
    "repack_safe x (r_log s) \<Longrightarrow>
     repo_step check x V s (s\<lparr>r_log := fst (repack x threshold (r_log s))\<rparr>)"

inductive_cases repo_stepE: "repo_step check x V s s'"

inductive reachable ::
  "('stage list \<Rightarrow> 'err list) \<Rightarrow> ext \<Rightarrow> (OpId \<Rightarrow> OperationRecord) \<Rightarrow> repo \<Rightarrow> bool"
  for check x V where
  start: "reachable check x V \<lparr>r_log = open_log, r_heads = (\<lambda>_. None)\<rparr>"
| step: "reachable check x V s \<Longrightarrow> repo_step check x V s s' \<Longrightarrow> reachable check x V s'"

definition parent_closed :: "(OpId \<Rightarrow> OperationRecord) \<Rightarrow> OpLog \<Rightarrow> bool" where
  "parent_closed V log \<longleftrightarrow> (\<forall>i \<in> stored_ids log. set (parents (op (V i))) \<subseteq> stored_ids log)"

definition repo_inv :: "ext \<Rightarrow> (OpId \<Rightarrow> OperationRecord) \<Rightarrow> repo \<Rightarrow> bool" where
  "repo_inv x V s \<longleftrightarrow> store_ok x V (r_log s) \<and> ran (r_heads s) \<subseteq> stored_ids (r_log s) \<and>
     parent_closed V (r_log s) \<and> acyclic_view (log_view V (r_log s))"

text \<open>Adding a record whose parents are stored keeps the history acyclic: nothing stored can name it.\<close>

lemma log_view_cong: "stored_ids log' = stored_ids log \<Longrightarrow> log_view V log' = log_view V log"
  by (simp add: log_view_def fun_eq_iff)

lemma acyclic_put:
  assumes acyc: "acyclic_view (log_view V log)" and closed: "parent_closed V log"
    and r: "V (op_id r) = r" and ps: "set (parents (op r)) \<subseteq> stored_ids log"
  shows "acyclic_view (log_view V (put x log r))"
proof (cases "op_id r \<in> stored_ids log")
  case True
  then show ?thesis
    using acyc log_view_cong [of "put x log r" log V] by (simp add: stored_ids_put insert_absorb)
next
  case False
  obtain rank :: "OpId \<Rightarrow> nat" where rank: "rank p < rank i"
    if "log_view V log i = Some s" "p \<in> set (parents (op s))" "log_view V log p \<noteq> None" for i s p
    using acyc unfolding acyclic_view_def by blast
  define top where "top = Suc (Max (rank ` stored_ids log))"
  have low: "rank p < top" if "p \<in> stored_ids log" for p
    using that Max_ge [of "rank ` stored_ids log" "rank p"] by (simp add: top_def less_Suc_eq_le)
  have old: "p \<noteq> op_id r \<and> rank p < rank i"
    if "i \<in> stored_ids log" "p \<in> set (parents (op (V i)))" for i p
  proof -
    have "p \<in> stored_ids log"
      using that closed by (auto simp: parent_closed_def)
    then show ?thesis
      using that False rank [of i "V i" p] by (auto simp: log_view_def)
  qed
  have new: "p \<noteq> op_id r \<and> rank p < top" if "p \<in> set (parents (op r))" for p
    using that ps False low by auto
  show ?thesis
    unfolding acyclic_view_def
  proof (intro exI allI impI)
    fix i s p
    assume i: "log_view V (put x log r) i = Some s" and p: "p \<in> set (parents (op s))"
    show "(rank(op_id r := top)) p < (rank(op_id r := top)) i"
    proof (cases "i = op_id r")
      case True
      then have "s = r" using i r by (simp add: log_view_def stored_ids_put)
      then show ?thesis using new p True by simp
    next
      case False
      then have "i \<in> stored_ids log" "s = V i"
        using i by (auto simp: log_view_def stored_ids_put split: if_splits)
      then show ?thesis using old p False by simp
    qed
  qed
qed

lemma parent_closed_put:
  assumes "parent_closed V log" and "V (op_id r) = r" and "set (parents (op r)) \<subseteq> stored_ids log"
  shows "parent_closed V (put x log r)"
  using assms by (auto simp: parent_closed_def stored_ids_put)

lemma check_and_apply_ok:
  assumes "check_and_apply check x log head_op o' t candidate = (log', Inr nh)"
  shows "check candidate = []" and "apply_op x log head_op o' t = (log', Inr nh)"
  using assms by (auto simp: check_and_apply_def Let_def split: if_splits prod.splits sum.splits)

lemma repo_inv_start: "repo_inv x V \<lparr>r_log = open_log, r_heads = (\<lambda>_. None)\<rparr>"
  by (simp add: repo_inv_def parent_closed_def acyclic_view_def log_view_def)

lemma repo_inv_advance:
  assumes inv: "repo_inv x V s"
    and step: "check_and_apply check x (r_log s) (r_heads s b) o' t candidate = (log', Inr nh)"
    and r: "storable x V (nh_record nh)"
  shows "repo_inv x V \<lparr>r_log = log', r_heads = (r_heads s)(b \<mapsto> nh_op_id nh)\<rparr>"
proof -
  have ok: "store_ok x V (r_log s)"
    using inv by (simp add: repo_inv_def)
  note ap = apply_op_ok [OF ok check_and_apply_ok(2) [OF step]]
  have "set_option (r_heads s b) \<subseteq> stored_ids (r_log s)"
    using inv by (auto simp: repo_inv_def ran_def)
  then have ps: "set (parents o') \<subseteq> stored_ids (r_log s)"
    by (rule parents_accepted_stored [OF ap(1)])
  have V: "V (op_id_of x o') = record_new x o' t" "id_ok x V (op_id_of x o')"
    using r by (simp_all add: ap(3) storable_def)
  have "store_ok x V log'"
    unfolding ap(2) using V by (intro put_ok [OF ok]) simp_all
  moreover have "parent_closed V log'"
    unfolding ap(2) using inv V(1) ps by (intro parent_closed_put) (simp_all add: repo_inv_def)
  moreover have "acyclic_view (log_view V log')"
    unfolding ap(2) using inv V(1) ps by (intro acyclic_put) (simp_all add: repo_inv_def)
  moreover have "ran ((r_heads s)(b \<mapsto> nh_op_id nh)) \<subseteq> stored_ids log'"
    using inv by (auto simp: ap(2,3) repo_inv_def stored_ids_put ran_def)
  ultimately show ?thesis
    by (simp add: repo_inv_def)
qed

lemma repo_inv_pack:
  assumes inv: "repo_inv x V s" and safe: "repack_safe x (r_log s)"
  shows "repo_inv x V (s\<lparr>r_log := fst (repack x n (r_log s))\<rparr>)"
proof -
  have "store_ok x V (fst (repack x n (r_log s))) \<and>
      stored_ids (fst (repack x n (r_log s))) = stored_ids (r_log s)"
    using inv safe by (intro repack_ok) (simp_all add: repo_inv_def repack_safe_def)
  then show ?thesis
    using inv log_view_cong [of "fst (repack x n (r_log s))" "r_log s" V]
    by (simp add: repo_inv_def parent_closed_def)
qed

lemma repo_inv_step: "repo_inv x V s \<Longrightarrow> repo_step check x V s s' \<Longrightarrow> repo_inv x V s'"
  by (erule repo_stepE)
    (simp_all add: repo_inv_advance repo_inv_pack, auto simp: repo_inv_def ran_def split: if_splits)

lemma reachable_inv: "reachable check x V s \<Longrightarrow> repo_inv x V s"
  by (induction rule: reachable.induct) (auto intro: repo_inv_start repo_inv_step)

section \<open>Properties\<close>

text \<open>
  C9. \<open>apply\<close> on every branch: it accepts exactly the parent lists its documentation names
  (genesis on an empty branch, the head alone, or the head with one other stored record) and then
  stores the content-addressed record and returns it as the new head; everything else is rejected
  with the documented error and the log is untouched.
\<close>

theorem apply_op_branches:
  assumes "store_ok x V log"
  shows "apply_op x log head_op o' t =
    (if parents_accepted (stored_ids log) head_op (parents o')
     then (put x log (record_new x o' t),
           Inr \<lparr>nh_op_id = op_id_of x o', nh_record = record_new x o' t\<rparr>)
     else (log, Inl (parent_error head_op (parents o'))))"
  by (simp add: apply_op_def check_parents_cases [OF assms] Let_def)

theorem apply_op_branches_witness:
  "apply_op sample_ext sample_log (Some ''01'') (op_new (Merge 0) [''01'', ''09'']) (MergeEntries []) =
     (sample_log, Inl (UnknownMergeParent ''09''))"
proof -
  have "\<not> parents_accepted (stored_ids sample_log) (Some ''01'')
      (parents (op_new (Merge 0) [''01'', ''09'']))"
    by (simp add: parents_accepted_def sample_ids bs_of_list_def)
  moreover have "parent_error (Some ''01'') (parents (op_new (Merge 0) [''01'', ''09''])) =
      UnknownMergeParent ''09''"
    by code_simp
  ultimately show ?thesis
    using apply_op_branches [OF sample_log_ok] by simp
qed

text \<open>
  C12. The gate persists nothing it does not accept: a candidate with type errors is reported under
  the id the operation would have had, and whenever the gate fails, for that or any other reason,
  the log is unchanged; when it succeeds the candidate had no errors and the outcome is that of
  \<open>apply\<close>.
\<close>

theorem gate_rejects_without_effect:
  "(case check_and_apply check x log head_op o' t candidate of
      (log', Inl (GateTypeError i errors)) \<Rightarrow>
        log' = log \<and> i = op_id_of x o' \<and> errors = check candidate \<and> errors \<noteq> []
    | (log', Inl (GateApply e)) \<Rightarrow>
        log' = log \<and> check candidate = [] \<and> apply_op x log head_op o' t = (log, Inl e)
    | (log', Inr nh) \<Rightarrow>
        check candidate = [] \<and> apply_op x log head_op o' t = (log', Inr nh))"
  by (auto simp: check_and_apply_def Let_def split: prod.splits sum.splits dest: apply_op_err)

text \<open>
  C10. Every repository reached through the gate, by any sequence of commits and merges on any
  branches, branch creations and repacks, is sound: the store decodes, every branch head is
  stored, so is every parent of a stored record, and the history has no cycle.
\<close>

theorem reachable_repo_sound:
  assumes "reachable check x V s"
  shows "store_ok x V (r_log s) \<and> ran (r_heads s) \<subseteq> stored_ids (r_log s) \<and>
    parent_closed V (r_log s) \<and> acyclic_view (log_view V (r_log s))"
  using reachable_inv [OF assms] by (simp add: repo_inv_def)

lemma sample_reachable:
  "reachable (\<lambda>_ :: unit list. [] :: unit list) sample_ext sample_view
     \<lparr>r_log = put sample_ext open_log (sample_records ! 0), r_heads = [''main'' \<mapsto> ''00'']\<rparr>"
proof (rule reachable.step [OF reachable.start])
  let ?r = "sample_records ! 0" and ?chk = "\<lambda>_ :: unit list. [] :: unit list"
  let ?s = "\<lparr>r_log = open_log, r_heads = \<lambda>_. None\<rparr> :: repo"
  have new: "record_new sample_ext (op ?r) (produces ?r) = ?r" "op_id_of sample_ext (op ?r) = ''00''"
    "parents (op ?r) = []" "op_id ?r = ''00''"
    by code_simp+
  then have "check_and_apply ?chk sample_ext open_log None (op ?r) (produces ?r) [] =
      (put sample_ext open_log ?r, Inr \<lparr>nh_op_id = ''00'', nh_record = ?r\<rparr>)"
    by (simp add: check_and_apply_def apply_op_def check_parents_def Let_def)
  moreover have "storable sample_ext sample_view ?r"
    by code_simp
  ultimately show "repo_step ?chk sample_ext sample_view ?s
      \<lparr>r_log = put sample_ext open_log ?r, r_heads = [''main'' \<mapsto> ''00'']\<rparr>"
    using repo_step.advance [of ?chk sample_ext ?s "''main''" "op ?r" "produces ?r" "[]"] by fastforce
qed

theorem reachable_repo_sound_witness:
  "acyclic_view (log_view sample_view (put sample_ext open_log (sample_records ! 0)))"
  using reachable_repo_sound [OF sample_reachable] by simp

text \<open>
  C11. In a reachable repository every branch can be replayed: \<open>walk_forward\<close> from its head succeeds,
  ends with no record missing (every parent of a returned record is returned, and before it), and
  the head itself is among the records.
\<close>

theorem reachable_head_replays:
  assumes "reachable check x V s" and "r_heads s b = Some h"
  shows "\<exists>recs. walk_forward x (r_log s) h None = Inr recs \<and> h \<in> set (map op_id recs) \<and>
    topo_ordered recs \<and> (\<forall>r \<in> set recs. set (parents (op r)) \<subseteq> set (map op_id recs))"
proof -
  let ?M = "log_view V (r_log s)"
  have inv: "store_ok x V (r_log s)" "ran (r_heads s) \<subseteq> stored_ids (r_log s)"
      "parent_closed V (r_log s)" "acyclic_view ?M"
    using reachable_inv [OF assms(1)] by (simp_all add: repo_inv_def)
  have h: "?M h = Some (V h)"
    using inv(2) assms(2) by (auto simp: log_view_def ran_def)
  obtain recs where recs: "walk_forward x (r_log s) h None = Inr recs"
    "set (map op_id recs) = {i. anc ?M h i}" "topo_ordered recs"
    "\<And>r. r \<in> set recs \<Longrightarrow> ?M (op_id r) = Some r"
    using walk_forward_ok [OF inv(1,4)] by metis
  have "anc ?M h p" if r: "r \<in> set recs" and p: "p \<in> set (parents (op r))" for r p
  proof -
    have "op_id r \<in> stored_ids (r_log s)" "V (op_id r) = r"
      using recs(4) [OF r] by (auto simp: log_view_def split: if_splits)
    then have "p \<in> stored_ids (r_log s)"
      using inv(3) p unfolding parent_closed_def by (metis subsetD)
    moreover have "anc ?M h (op_id r)"
      using recs(2) r by auto
    ultimately show ?thesis
      using anc_parent [of ?M h "op_id r" r p "V p"] recs(4) [OF r] p by (simp add: log_view_def)
  qed
  then show ?thesis
    using recs h anc_self [of ?M h] by (intro exI [of _ recs]) auto
qed

theorem reachable_head_replays_witness:
  "\<exists>recs. walk_forward sample_ext (put sample_ext open_log (sample_records ! 0)) ''00'' None = Inr recs \<and>
     ''00'' \<in> set (map op_id recs)"
  using reachable_head_replays [OF sample_reachable, of "''main''" "''00''"] by auto

end
