(* ===== verification/Vcs_Replay.thy ===== *)
theory Vcs_Replay
  imports Vcs_Apply
begin

text \<open>
  How a history becomes a program: the transition every kind of operation produces
  (\<open>transition_for_kind\<close> in \<open>crates/lex-store/src/store.rs\<close>), the effect of a transition on a
  branch's map from signatures to stages (\<open>apply_transition\<close> in \<open>branches.rs\<close>) and the two replays
  of an ancestry (\<open>sig_map_at_op\<close> in \<open>branches.rs\<close>, \<open>head_at\<close> in \<open>crates/lex-vcs/src/merge.rs\<close>).
  The specification is the effect on partial functions, \<open>transition_effect\<close>.
\<close>

section \<open>Transitions\<close>

type_synonym sig_map = "(SigId, StageId) btree_map"

text \<open>The transition of a modification that may move its function to another signature.\<close>

definition moved_or_replaced ::
  "SigId \<Rightarrow> StageId \<Rightarrow> StageId \<Rightarrow> SigId option \<Rightarrow> StageTransition" where
  "moved_or_replaced sig_id from_stage_id to_stage_id to_sig_id =
     (case to_sig_id of
        Some to_sig \<Rightarrow>
          if to_sig \<noteq> sig_id then Rename sig_id to_sig to_stage_id
          else Replace sig_id from_stage_id to_stage_id
      | None \<Rightarrow> Replace sig_id from_stage_id to_stage_id)"

fun transition_for_kind :: "OperationKind \<Rightarrow> StageTransition" where
  "transition_for_kind (AddFunction sig_id stage_id _ _ _) = Create sig_id stage_id"
| "transition_for_kind (AddType sig_id stage_id _) = Create sig_id stage_id"
| "transition_for_kind (RemoveFunction sig_id last_stage_id) = Remove sig_id last_stage_id"
| "transition_for_kind (RemoveType sig_id last_stage_id) = Remove sig_id last_stage_id"
| "transition_for_kind (ChangeEffectSig sig_id from_stage_id to_stage_id _ _ _ _ to_sig_id) =
     moved_or_replaced sig_id from_stage_id to_stage_id to_sig_id"
| "transition_for_kind (ModifyBody sig_id from_stage_id to_stage_id _ _ to_sig_id) =
     moved_or_replaced sig_id from_stage_id to_stage_id to_sig_id"
| "transition_for_kind (ModifyType sig_id from_stage_id to_stage_id to_sig_id) =
     moved_or_replaced sig_id from_stage_id to_stage_id to_sig_id"
| "transition_for_kind (ReplaceMatchArm sig_id from_stage_id to_stage_id _ _ _ _) =
     Replace sig_id from_stage_id to_stage_id"
| "transition_for_kind (RenameLocal sig_id from_stage_id to_stage_id _ _ _ _ _) =
     Replace sig_id from_stage_id to_stage_id"
| "transition_for_kind (InlineLet sig_id from_stage_id to_stage_id _ _ _ _) =
     Replace sig_id from_stage_id to_stage_id"
| "transition_for_kind (RenameSymbol from to body_stage_id _) = Rename from to body_stage_id"
| "transition_for_kind (AddImport _ _ _) = ImportOnly"
| "transition_for_kind (RemoveImport _ _) = ImportOnly"
| "transition_for_kind (Merge _) = MergeEntries []"
| "transition_for_kind (Candidate _ _) = ImportOnly"
| "transition_for_kind (SetFiles _) = FilesOnly"
| "transition_for_kind (Promote sig_id _ winner_stage_id _ from_stage_id _ _) =
     (case from_stage_id of
        Some from \<Rightarrow> Replace sig_id from winner_stage_id
      | None \<Rightarrow> Create sig_id winner_stage_id)"

section \<open>Replay\<close>

definition apply_entry :: "SigId \<times> StageId option \<Rightarrow> sig_map \<Rightarrow> sig_map" where
  "apply_entry = (\<lambda>(sig, stage) m.
     case stage of Some s \<Rightarrow> bt_insert sig s m | None \<Rightarrow> bt_remove sig m)"

fun apply_transition :: "sig_map \<Rightarrow> StageTransition \<Rightarrow> sig_map" where
  "apply_transition m (Create sig_id stage_id) = bt_insert sig_id stage_id m"
| "apply_transition m (Replace sig_id _ to) = bt_insert sig_id to m"
| "apply_transition m (Remove sig_id _) = bt_remove sig_id m"
| "apply_transition m (Rename from to body_stage_id) =
     bt_insert to body_stage_id (bt_remove from m)"
| "apply_transition m ImportOnly = m"
| "apply_transition m FilesOnly = m"
| "apply_transition m (MergeEntries entries) = fold apply_entry entries m"

definition replay :: "OperationRecord list \<Rightarrow> sig_map \<Rightarrow> sig_map" where
  "replay recs m = fold (\<lambda>r m. apply_transition m (produces r)) recs m"

definition sig_map_at_op :: "ext \<Rightarrow> OpLog \<Rightarrow> OpId \<Rightarrow> sig_map io_result" where
  "sig_map_at_op x log oid = rbind (walk_forward x log oid None) (\<lambda>recs. Inr (replay recs []))"

section \<open>The effect of a transition\<close>

definition transition_effect ::
  "StageTransition \<Rightarrow> (SigId \<Rightarrow> StageId option) \<Rightarrow> SigId \<Rightarrow> StageId option" where
  "transition_effect t f =
     (case t of
        Create sig stage \<Rightarrow> f(sig \<mapsto> stage)
      | Replace sig _ stage \<Rightarrow> f(sig \<mapsto> stage)
      | Remove sig _ \<Rightarrow> f(sig := None)
      | Rename from to stage \<Rightarrow> (f(from := None))(to \<mapsto> stage)
      | ImportOnly \<Rightarrow> f
      | FilesOnly \<Rightarrow> f
      | MergeEntries es \<Rightarrow> (\<lambda>s. case bt_get es s of Some stage \<Rightarrow> stage | None \<Rightarrow> f s))"

definition effects :: "OperationRecord list \<Rightarrow> (SigId \<Rightarrow> StageId option) \<Rightarrow> SigId \<Rightarrow> StageId option" where
  "effects recs = fold (\<lambda>r. transition_effect (produces r)) recs"

definition touched_by :: "StageTransition \<Rightarrow> SigId set" where
  "touched_by t =
     (case t of
        Create sig _ \<Rightarrow> {sig} | Replace sig _ _ \<Rightarrow> {sig} | Remove sig _ \<Rightarrow> {sig}
      | Rename from to _ \<Rightarrow> {from, to} | ImportOnly \<Rightarrow> {} | FilesOnly \<Rightarrow> {}
      | MergeEntries es \<Rightarrow> set (bt_keys es))"

text \<open>The payload of a merge transition is a map: one entry per signature.\<close>

definition transition_ok :: "StageTransition \<Rightarrow> bool" where
  "transition_ok t = (case t of MergeEntries es \<Rightarrow> bt_inv es | _ \<Rightarrow> True)"

lemma apply_transition_refines:
  assumes "bt_inv m" and "transition_ok t"
  shows "bt_inv (apply_transition m t) \<and>
    bt_get (apply_transition m t) = transition_effect t (bt_get m)"
proof (cases t)
  case (MergeEntries es)
  have "distinct (map fst es)"
    using assms(2) MergeEntries by (simp add: transition_ok_def bt_inv_distinct)
  then show ?thesis
    using bt.fold_entries [OF assms(1), of es] MergeEntries
    by (simp add: apply_entry_def [abs_def] transition_effect_def fun_eq_iff fold_upd_distinct bt_get_def)
qed (use assms(1) in \<open>simp_all add: transition_effect_def bt_simps bt_intros\<close>)

lemma replay_refines:
  assumes "bt_inv m" and "\<And>r. r \<in> set recs \<Longrightarrow> transition_ok (produces r)"
  shows "bt_inv (replay recs m) \<and> bt_get (replay recs m) = effects recs (bt_get m)"
  using assms
proof (induction recs arbitrary: m)
  case (Cons r recs)
  then show ?case
    using apply_transition_refines [of m "produces r"] by (simp add: replay_def effects_def)
qed (simp add: replay_def effects_def)

lemma transition_effect_untouched: "s \<notin> touched_by t \<Longrightarrow> transition_effect t f s = f s"
  by (auto simp: touched_by_def transition_effect_def bt_get_None_iff [symmetric]
      split: StageTransition.splits)

text \<open>A touched signature ends with a value that does not depend on the map before.\<close>

lemma transition_effect_touched:
  "s \<in> touched_by t \<Longrightarrow> transition_effect t f s = transition_effect t g s"
  by (auto simp: touched_by_def transition_effect_def bt_get_None_iff
      split: StageTransition.splits option.splits)

lemma effects_append: "effects (rs @ qs) f = effects qs (effects rs f)"
  by (simp add: effects_def)

lemma effects_Cons: "effects (r # rs) f = effects rs (transition_effect (produces r) f)"
  by (simp add: effects_def)

lemma effects_untouched:
  "\<forall>r \<in> set rs. s \<notin> touched_by (produces r) \<Longrightarrow> effects rs f s = f s"
  by (induction rs arbitrary: f) (simp_all add: effects_def transition_effect_untouched)

lemma effects_pointwise: "f s = g s \<Longrightarrow> effects rs f s = effects rs g s"
proof (induction rs arbitrary: f g)
  case (Cons r rs)
  have "transition_effect (produces r) f s = transition_effect (produces r) g s"
  proof (cases "s \<in> touched_by (produces r)")
    case True
    then show ?thesis by (rule transition_effect_touched)
  next
    case False
    then show ?thesis using Cons.prems by (simp add: transition_effect_untouched)
  qed
  then show ?case
    unfolding effects_Cons by (rule Cons.IH)
qed (simp add: effects_def)

section \<open>Properties\<close>

text \<open>
  C19. Replaying a history is the composition of the effects of its transitions, read as partial
  functions from signatures to stages; the map stays a well-formed ordered map throughout.
\<close>

theorem replay_is_effects:
  assumes "bt_inv m" and "\<forall>r \<in> set recs. transition_ok (produces r)"
  shows "bt_inv (replay recs m) \<and> bt_get (replay recs m) = effects recs (bt_get m)"
  using replay_refines assms by blast

theorem replay_is_effects_witness:
  "bt_get (replay sample_records []) ''f'' = Some ''s1''"
proof -
  have "\<forall>r \<in> set sample_records. transition_ok (produces r)"
    by code_simp
  then have "bt_get (replay sample_records []) = effects sample_records (bt_get [])"
    using replay_is_effects [OF bt_inv_empty] by blast
  moreover have "effects sample_records (bt_get []) ''f'' = Some ''s1''"
    by code_simp
  ultimately show ?thesis by simp
qed

text \<open>
  Two histories that touch disjoint signatures can be replayed in either order: the resulting
  maps are equal.
\<close>

theorem replay_disjoint_commutes:
  assumes "bt_inv m" and "\<forall>r \<in> set (as @ bs). transition_ok (produces r)"
    and "(\<Union>r \<in> set as. touched_by (produces r)) \<inter> (\<Union>r \<in> set bs. touched_by (produces r)) = {}"
  shows "replay (as @ bs) m = replay (bs @ as) m"
proof (rule bt_eqI)
  have ab: "bt_inv (replay (as @ bs) m) \<and> bt_get (replay (as @ bs) m) = effects (as @ bs) (bt_get m)"
    and ba: "bt_inv (replay (bs @ as) m) \<and> bt_get (replay (bs @ as) m) = effects (bs @ as) (bt_get m)"
    by (rule replay_refines; use assms(1,2) in auto)+
  then show "bt_inv (replay (as @ bs) m)" "bt_inv (replay (bs @ as) m)" by simp_all
  have "effects (as @ bs) f s = effects (bs @ as) f s" for f s
  proof (cases "\<forall>r \<in> set bs. s \<notin> touched_by (produces r)")
    case True
    then show ?thesis
      using effects_pointwise [of "effects bs f" s f as] by (simp add: effects_append effects_untouched)
  next
    case False
    then have "\<forall>r \<in> set as. s \<notin> touched_by (produces r)"
      using assms(3) by blast
    then show ?thesis
      using effects_pointwise [of "effects as f" s f bs] by (simp add: effects_append effects_untouched)
  qed
  then show "bt_get (replay (as @ bs) m) = bt_get (replay (bs @ as) m)"
    using ab ba by (simp add: fun_eq_iff)
qed

theorem replay_disjoint_commutes_witness:
  "replay ([sample_records ! 1] @ [sample_records ! 2]) [] =
   replay ([sample_records ! 2] @ [sample_records ! 1]) []"
proof (rule replay_disjoint_commutes [OF bt_inv_empty])
  show "\<forall>r \<in> set ([sample_records ! 1] @ [sample_records ! 2]). transition_ok (produces r)"
    by code_simp
  show "(\<Union>r \<in> set [sample_records ! 1]. touched_by (produces r)) \<inter>
      (\<Union>r \<in> set [sample_records ! 2]. touched_by (produces r)) = {}"
    by code_simp
qed

text \<open>
  \<open>merge_target\<close> names the head-map delta an operation really makes: after its transition the
  target signature holds exactly the target stage (or is gone), and an operation without a target
  changes nothing.
\<close>

theorem merge_target_effect:
  assumes "bt_inv m"
  shows "case merge_target k of
      Some (sig, stage) \<Rightarrow> bt_get (apply_transition m (transition_for_kind k)) sig = stage
    | None \<Rightarrow> apply_transition m (transition_for_kind k) = m"
  using assms
  by (cases k) (auto simp: moved_or_replaced_def bt_simps bt_intros split: option.splits)

theorem merge_target_effect_witness:
  "bt_get (apply_transition [] (transition_for_kind (ModifyBody ''f'' ''a'' ''b'' None None (Some ''g'')))) ''g''
     = Some ''b''"
  using merge_target_effect [OF bt_inv_empty, of "ModifyBody ''f'' ''a'' ''b'' None None (Some ''g'')"]
  by simp

end
