(* ===== verification/Vcs_Merge.thy ===== *)
theory Vcs_Merge
  imports Vcs_Replay
begin

text \<open>
  The three-way merge of two branch heads, \<open>crates/lex-vcs/src/merge.rs\<close>: the operations on each
  side since the common ancestor are grouped by the signatures they touch and every group gets an
  outcome. \<open>debug_assert!\<close> is compiled out, as in a release build.
\<close>

section \<open>Outcomes\<close>

datatype ConflictKind = ModifyModify | ModifyDelete | DeleteModify | AddAdd

datatype MergeOutcome =
    Both SigId "StageId option"            \<comment> \<open>sig_id, stage_id\<close>
  | Src SigId "StageId option"             \<comment> \<open>sig_id, stage_id\<close>
  | Dst SigId "StageId option"             \<comment> \<open>sig_id, stage_id\<close>
  | Conflict SigId ConflictKind "StageId option" "StageId option" "StageId option"
      \<comment> \<open>sig_id, kind, base, src, dst\<close>

record MergeOutput =
  mo_lca :: "OpId option"
  mo_outcomes :: "MergeOutcome list"

section \<open>Grouping by signature\<close>

text \<open>A sig-moving modification touches both signatures, like a rename.\<close>

definition moved_sigs :: "SigId \<Rightarrow> SigId option \<Rightarrow> SigId list" where
  "moved_sigs sig_id to_sig_id =
     (case to_sig_id of
        Some to \<Rightarrow> if to \<noteq> sig_id then [sig_id, to] else [sig_id]
      | None \<Rightarrow> [sig_id])"

fun touched_sigs :: "OperationKind \<Rightarrow> SigId list" where
  "touched_sigs (ModifyBody sig_id _ _ _ _ to_sig_id) = moved_sigs sig_id to_sig_id"
| "touched_sigs (ChangeEffectSig sig_id _ _ _ _ _ _ to_sig_id) = moved_sigs sig_id to_sig_id"
| "touched_sigs (ModifyType sig_id _ _ to_sig_id) = moved_sigs sig_id to_sig_id"
| "touched_sigs (AddFunction sig_id _ _ _ _) = [sig_id]"
| "touched_sigs (RemoveFunction sig_id _) = [sig_id]"
| "touched_sigs (AddType sig_id _ _) = [sig_id]"
| "touched_sigs (RemoveType sig_id _) = [sig_id]"
| "touched_sigs (ReplaceMatchArm sig_id _ _ _ _ _ _) = [sig_id]"
| "touched_sigs (RenameLocal sig_id _ _ _ _ _ _ _) = [sig_id]"
| "touched_sigs (InlineLet sig_id _ _ _ _ _ _) = [sig_id]"
| "touched_sigs (Promote sig_id _ _ _ _ _ _) = [sig_id]"
| "touched_sigs (RenameSymbol from to _ _) = [from, to]"
| "touched_sigs (AddImport _ _ _) = []"
| "touched_sigs (RemoveImport _ _) = []"
| "touched_sigs (Merge _) = []"
| "touched_sigs (Candidate _ _) = []"
| "touched_sigs (SetFiles _) = []"

type_synonym sig_groups = "(SigId, OperationRecord list) btree_map"

text \<open>\<open>out.entry(sig).or_default().push(r)\<close>\<close>

definition push_rec :: "OperationRecord \<Rightarrow> SigId \<Rightarrow> sig_groups \<Rightarrow> sig_groups" where
  "push_rec r sig out =
     bt_insert sig ((case bt_get out sig of Some v \<Rightarrow> v | None \<Rightarrow> []) @ [r]) out"

definition group_by_sig :: "OperationRecord list \<Rightarrow> sig_groups" where
  "group_by_sig ops =
     map (\<lambda>(sig, v). (sig, rev v))
       (fold (\<lambda>r out. fold (push_rec r) (touched_sigs (kind (op r))) out) ops [])"

section \<open>The stage a side leaves a signature with\<close>

definition latest_step :: "SigId \<Rightarrow> OperationRecord \<Rightarrow> StageId option \<Rightarrow> StageId option" where
  "latest_step sig r current =
     (case kind (op r) of
        RenameSymbol from to body_stage_id _ \<Rightarrow>
          if sig = from then None else if sig = to then Some body_stage_id else current
      | _ \<Rightarrow>
          (case produces r of
             Create _ stage_id \<Rightarrow> Some stage_id
           | Replace _ _ to \<Rightarrow> Some to
           | Remove _ _ \<Rightarrow> None
           | Rename _ _ body_stage_id \<Rightarrow> Some body_stage_id
           | ImportOnly \<Rightarrow> current
           | FilesOnly \<Rightarrow> current
           | MergeEntries _ \<Rightarrow> current))"

definition latest_stage :: "SigId \<Rightarrow> OperationRecord list \<Rightarrow> StageId option" where
  "latest_stage sig recs = fold (latest_step sig) recs None"

definition head_step :: "OperationRecord \<Rightarrow> sig_map \<Rightarrow> sig_map" where
  "head_step r m =
     (case produces r of
        Create sig_id stage_id \<Rightarrow> bt_insert sig_id stage_id m
      | Replace sig_id _ to \<Rightarrow> bt_insert sig_id to m
      | Remove sig_id _ \<Rightarrow> bt_remove sig_id m
      | Rename from to body_stage_id \<Rightarrow> bt_insert to body_stage_id (bt_remove from m)
      | ImportOnly \<Rightarrow> m
      | FilesOnly \<Rightarrow> m
      | MergeEntries entries \<Rightarrow>
          fold (\<lambda>(sig, stage) m. case stage of Some s \<Rightarrow> bt_insert sig s m | None \<Rightarrow> bt_remove sig m)
            entries m)"

definition head_at :: "ext \<Rightarrow> OpLog \<Rightarrow> OpId \<Rightarrow> sig_map io_result" where
  "head_at x log head = rbind (walk_forward x log head None) (\<lambda>recs. Inr (fold head_step recs []))"

definition classify ::
  "StageId option \<Rightarrow> StageId option \<Rightarrow> sig_map \<Rightarrow> SigId \<Rightarrow> ConflictKind" where
  "classify src dst base sig =
     (case (bt_get base sig \<noteq> None, src \<noteq> None, dst \<noteq> None) of
        (False, True, True) \<Rightarrow> AddAdd
      | (True, True, True) \<Rightarrow> ModifyModify
      | (True, True, False) \<Rightarrow> ModifyDelete
      | (True, False, True) \<Rightarrow> DeleteModify
      | _ \<Rightarrow> ModifyModify)"

section \<open>merge\<close>

text \<open>The body of the loop over the touched signatures; a signature neither side touched has none.\<close>

definition last_op :: "OperationRecord list \<Rightarrow> OpId" where
  "last_op recs = (if recs = [] then [] else op_id (last recs))"

definition outcome_for ::
  "sig_groups \<Rightarrow> sig_groups \<Rightarrow> sig_map \<Rightarrow> SigId \<Rightarrow> MergeOutcome list" where
  "outcome_for src_by_sig dst_by_sig lca_head sig =
     (case (bt_get src_by_sig sig, bt_get dst_by_sig sig) of
        (Some s_recs, Some d_recs) \<Rightarrow>
          let s_stage = latest_stage sig s_recs; d_stage = latest_stage sig d_recs
          in if last_op s_recs = last_op d_recs then [Both sig s_stage]
             else [Conflict sig (classify s_stage d_stage lca_head sig) (bt_get lca_head sig) s_stage d_stage]
      | (Some s_recs, None) \<Rightarrow> [Src sig (latest_stage sig s_recs)]
      | (None, Some d_recs) \<Rightarrow> [Dst sig (latest_stage sig d_recs)]
      | (None, None) \<Rightarrow> [])"

definition merge_base :: "ext \<Rightarrow> OpLog \<Rightarrow> OpId option \<Rightarrow> OpId option \<Rightarrow> OpId option io_result" where
  "merge_base x log src_head dst_head =
     (case (src_head, dst_head) of (Some s, Some d) \<Rightarrow> lca x log s d | _ \<Rightarrow> Inr None)"

definition side_ops ::
  "ext \<Rightarrow> OpLog \<Rightarrow> OpId option \<Rightarrow> OpId option \<Rightarrow> OperationRecord list io_result" where
  "side_ops x log head base = (case head of Some h \<Rightarrow> ops_since x log h base | None \<Rightarrow> Inr [])"

definition merge :: "ext \<Rightarrow> OpLog \<Rightarrow> OpId option \<Rightarrow> OpId option \<Rightarrow> MergeOutput io_result" where
  "merge x log src_head dst_head =
     rbind (merge_base x log src_head dst_head) (\<lambda>base.
     rbind (side_ops x log src_head base) (\<lambda>src_ops.
     rbind (side_ops x log dst_head base) (\<lambda>dst_ops.
     rbind (case base of Some i \<Rightarrow> head_at x log i | None \<Rightarrow> Inr []) (\<lambda>lca_head.
       let src_by_sig = group_by_sig src_ops; dst_by_sig = group_by_sig dst_ops;
           sigs = bs_of_list (bt_keys src_by_sig @ bt_keys dst_by_sig)
       in Inr \<lparr>mo_lca = base,
               mo_outcomes = concat (map (outcome_for src_by_sig dst_by_sig lca_head) sigs)\<rparr>))))"

section \<open>The groups\<close>

text \<open>The records that touch a signature, once per mention.\<close>

definition recs_on :: "SigId \<Rightarrow> OperationRecord list \<Rightarrow> OperationRecord list" where
  "recs_on sig rs =
     concat (map (\<lambda>r. replicate (count_list (touched_sigs (kind (op r))) sig) r) rs)"

lemma recs_on_simps [simp]:
  "recs_on sig [] = []"
  "recs_on sig (r # rs) = replicate (count_list (touched_sigs (kind (op r))) sig) r @ recs_on sig rs"
  "recs_on sig (rs @ qs) = recs_on sig rs @ recs_on sig qs"
  by (simp_all add: recs_on_def)

lemma rev_recs_on: "rev (recs_on sig rs) = recs_on sig (rev rs)"
  by (induction rs) simp_all

lemma set_recs_on: "set (recs_on sig rs) = {r \<in> set rs. sig \<in> set (touched_sigs (kind (op r)))}"
  by (auto simp: recs_on_def in_set_replicate count_list_0_iff)

definition group_value :: "sig_groups \<Rightarrow> SigId \<Rightarrow> OperationRecord list" where
  "group_value g sig = (case bt_get g sig of Some v \<Rightarrow> v | None \<Rightarrow> [])"

lemma push_rec_ok:
  assumes "bt_inv g" and "\<forall>sig. bt_get g sig \<noteq> Some []"
  shows "bt_inv (push_rec r s g) \<and> (\<forall>sig. bt_get (push_rec r s g) sig \<noteq> Some []) \<and>
    group_value (push_rec r s g) = (group_value g)(s := group_value g s @ [r])"
  using assms by (auto simp: push_rec_def group_value_def bt_simps bt_intros fun_eq_iff)

lemma push_all_ok:
  assumes "bt_inv g" and "\<forall>sig. bt_get g sig \<noteq> Some []"
  shows "bt_inv (fold (push_rec r) ss g) \<and> (\<forall>sig. bt_get (fold (push_rec r) ss g) sig \<noteq> Some []) \<and>
    group_value (fold (push_rec r) ss g) = (\<lambda>sig. group_value g sig @ replicate (count_list ss sig) r)"
  using assms
proof (induction ss arbitrary: g)
  case (Cons s ss)
  note p = push_rec_ok [OF Cons.prems, of r s]
  then show ?case
    using Cons.IH [of "push_rec r s g"] by (auto simp: fun_eq_iff replicate_app_Cons_same)
qed simp

lemma group_loop_ok:
  assumes "bt_inv g" and "\<forall>sig. bt_get g sig \<noteq> Some []"
  defines "f \<equiv> \<lambda>r out. fold (push_rec r) (touched_sigs (kind (op r))) out"
  shows "bt_inv (fold f ops g) \<and> (\<forall>sig. bt_get (fold f ops g) sig \<noteq> Some []) \<and>
    group_value (fold f ops g) = (\<lambda>sig. group_value g sig @ recs_on sig ops)"
  using assms(1,2)
proof (induction ops arbitrary: g)
  case (Cons r ops)
  note p = push_all_ok [OF Cons.prems, of r "touched_sigs (kind (op r))"]
  then show ?case
    using Cons.IH [of "f r g"] by (auto simp: f_def fun_eq_iff)
qed simp

lemma bt_get_map_values: "bt_get (map (\<lambda>(k, v). (k, h v)) m) k = map_option h (bt_get m k)"
  by (simp add: bt_get_def map_of_map)

lemma bt_get_group:
  "bt_get (group_by_sig ops) sig =
     (if recs_on sig (rev ops) = [] then None else Some (recs_on sig (rev ops)))"
proof -
  let ?g = "fold (\<lambda>r out. fold (push_rec r) (touched_sigs (kind (op r))) out) ops []"
  have g: "\<forall>sig. bt_get ?g sig \<noteq> Some []" "group_value ?g sig = recs_on sig ops"
    using group_loop_ok [of "[]" ops] by (simp_all add: group_value_def)
  then have "bt_get ?g sig = (if recs_on sig ops = [] then None else Some (recs_on sig ops))"
    by (auto simp: group_value_def split: option.splits)
  then show ?thesis
    by (simp add: group_by_sig_def bt_get_map_values rev_recs_on [symmetric])
qed

lemma bt_get_group_None:
  "bt_get (group_by_sig ops) sig = None \<longleftrightarrow> (\<forall>r \<in> set ops. sig \<notin> set (touched_sigs (kind (op r))))"
proof -
  have "recs_on sig (rev ops) = [] \<longleftrightarrow> set (recs_on sig (rev ops)) = {}"
    by simp
  then show ?thesis
    by (auto simp: bt_get_group set_recs_on)
qed

lemma set_group_keys:
  "set (bt_keys (group_by_sig ops)) = (\<Union>r \<in> set ops. set (touched_sigs (kind (op r))))"
  using bt_get_None_iff [of "group_by_sig ops"] bt_get_group_None [of ops] by blast

section \<open>What merge returns\<close>

lemma head_at_sig_map: "head_at x log h = sig_map_at_op x log h"
proof -
  have "head_step r m = apply_transition m (produces r)" for r m
    by (cases "produces r") (simp_all add: head_step_def apply_entry_def [abs_def])
  then have "head_step = (\<lambda>r m. apply_transition m (produces r))"
    by (simp add: fun_eq_iff)
  then show ?thesis
    by (simp add: head_at_def sig_map_at_op_def replay_def)
qed

fun outcome_sig :: "MergeOutcome \<Rightarrow> SigId" where
  "outcome_sig (Both sig _) = sig"
| "outcome_sig (Src sig _) = sig"
| "outcome_sig (Dst sig _) = sig"
| "outcome_sig (Conflict sig _ _ _ _) = sig"

definition sigs_touched :: "OperationRecord list \<Rightarrow> SigId list" where
  "sigs_touched rs = concat (map (\<lambda>r. touched_sigs (kind (op r))) rs)"

lemma bt_get_group_iff:
  "bt_get (group_by_sig ops) sig \<noteq> None \<longleftrightarrow> sig \<in> set (sigs_touched ops)"
  using bt_get_group_None [of ops sig] by (auto simp: sigs_touched_def)

lemma outcome_for_sig:
  assumes "sig \<in> set (sigs_touched src @ sigs_touched dst)"
  shows "map outcome_sig (outcome_for (group_by_sig src) (group_by_sig dst) base sig) = [sig]"
  using assms bt_get_group_iff [of src sig] bt_get_group_iff [of dst sig]
  by (auto simp: outcome_for_def Let_def split: option.splits)

lemma merge_unfold:
  assumes "merge x log sh dh = Inr out"
    and "side_ops x log sh (mo_lca out) = Inr src" and "side_ops x log dh (mo_lca out) = Inr dst"
  obtains base where
    "(case mo_lca out of Some i \<Rightarrow> head_at x log i | None \<Rightarrow> Inr []) = Inr base"
    "mo_outcomes out = concat (map (outcome_for (group_by_sig src) (group_by_sig dst) base)
       (bs_of_list (sigs_touched src @ sigs_touched dst)))"
proof -
  have keys: "bs_of_list (bt_keys (group_by_sig src) @ bt_keys (group_by_sig dst)) =
      bs_of_list (sigs_touched src @ sigs_touched dst)"
    by (simp add: bs_of_list_cong set_group_keys sigs_touched_def)
  show ?thesis
    using assms that by (auto simp: merge_def Let_def keys)
qed

lemma concat_map_single:
  "(\<And>a. a \<in> set xs \<Longrightarrow> map f (g a) = [a]) \<Longrightarrow> map f (concat (map g xs)) = xs"
  by (induction xs) simp_all

lemma outcomes_sigs:
  assumes "merge x log sh dh = Inr out"
    and "side_ops x log sh (mo_lca out) = Inr src" and "side_ops x log dh (mo_lca out) = Inr dst"
  shows "map outcome_sig (mo_outcomes out) = bs_of_list (sigs_touched src @ sigs_touched dst)"
proof -
  obtain base where "mo_outcomes out = concat (map (outcome_for (group_by_sig src) (group_by_sig dst) base)
      (bs_of_list (sigs_touched src @ sigs_touched dst)))"
    by (rule merge_unfold [OF assms])
  then show ?thesis
    by (simp only:) (rule concat_map_single, rule outcome_for_sig, simp)
qed

lemma outcomes_spec:
  assumes "merge x log sh dh = Inr out"
    and "side_ops x log sh (mo_lca out) = Inr src" and "side_ops x log dh (mo_lca out) = Inr dst"
    and "outcome \<in> set (mo_outcomes out)"
  shows "case outcome of
      Src sig stage \<Rightarrow> sig \<in> set (sigs_touched src) \<and> sig \<notin> set (sigs_touched dst) \<and>
        stage = latest_stage sig (recs_on sig (rev src))
    | Dst sig stage \<Rightarrow> sig \<in> set (sigs_touched dst) \<and> sig \<notin> set (sigs_touched src) \<and>
        stage = latest_stage sig (recs_on sig (rev dst))
    | Both sig stage \<Rightarrow> sig \<in> set (sigs_touched src) \<inter> set (sigs_touched dst) \<and>
        op_id (last (recs_on sig (rev src))) = op_id (last (recs_on sig (rev dst))) \<and>
        stage = latest_stage sig (recs_on sig (rev src))
    | Conflict sig ck b s d \<Rightarrow> sig \<in> set (sigs_touched src) \<inter> set (sigs_touched dst) \<and>
        op_id (last (recs_on sig (rev src))) \<noteq> op_id (last (recs_on sig (rev dst))) \<and>
        s = latest_stage sig (recs_on sig (rev src)) \<and> d = latest_stage sig (recs_on sig (rev dst)) \<and>
        (case mo_lca out of None \<Rightarrow> b = None
         | Some i \<Rightarrow> \<exists>m. sig_map_at_op x log i = Inr m \<and> b = bt_get m sig)"
proof -
  obtain base where base: "(case mo_lca out of Some i \<Rightarrow> head_at x log i | None \<Rightarrow> Inr []) = Inr base"
    and out: "mo_outcomes out = concat (map (outcome_for (group_by_sig src) (group_by_sig dst) base)
      (bs_of_list (sigs_touched src @ sigs_touched dst)))"
    by (rule merge_unfold [OF assms(1-3)])
  obtain sig where o': "outcome \<in> set (outcome_for (group_by_sig src) (group_by_sig dst) base sig)"
    using assms(4) out by auto
  have head: "head_at x log = sig_map_at_op x log"
    by (rule ext) (rule head_at_sig_map)
  note g = bt_get_group_iff [of src sig] bt_get_group_iff [of dst sig]
  show ?thesis
  proof (cases "bt_get (group_by_sig src) sig")
    case None
    then show ?thesis
      using o' g by (auto simp: outcome_for_def bt_get_group split: option.splits if_splits)
  next
    case (Some s)
    then show ?thesis
      using o' g base head
      by (cases "bt_get (group_by_sig dst) sig")
        (auto simp: outcome_for_def bt_get_group last_op_def Let_def split: option.splits if_splits)
  qed
qed

section \<open>Properties\<close>

text \<open>
  Grouping is faithful to replay: the signatures an operation is grouped under are exactly
  those its transition changes in the head map.
\<close>

theorem touched_sigs_are_replayed:
  "set (touched_sigs k) = touched_by (transition_for_kind k)"
  by (cases k) (auto simp: moved_sigs_def moved_or_replaced_def touched_by_def bt_keys_def
      split: option.splits)

text \<open>
  The merge engine's own replay of the common ancestor agrees with the store's: \<open>head_at\<close> and
  \<open>sig_map_at_op\<close> are the same function.
\<close>

theorem head_at_is_sig_map_at_op: "head_at = sig_map_at_op"
  by (simp add: fun_eq_iff head_at_sig_map)

text \<open>
  C15. Every signature touched since the common ancestor, on either side, gets exactly one outcome,
  and the outcomes come in the order of their signatures.
\<close>

theorem merge_outcomes_complete:
  assumes "merge x log sh dh = Inr out"
    and "side_ops x log sh (mo_lca out) = Inr src" and "side_ops x log dh (mo_lca out) = Inr dst"
  shows "map outcome_sig (mo_outcomes out) = bs_of_list (sigs_touched src @ sigs_touched dst)"
  by (rule outcomes_sigs [OF assms])

theorem merge_outcomes_complete_witness:
  "map outcome_sig [Src ''f'' (Some ''s1''), Dst ''g'' (Some ''t0'')] =
     bs_of_list (sigs_touched [sample_records ! 1] @ sigs_touched [sample_records ! 2])"
proof -
  let ?out = "\<lparr>mo_lca = Some ''00'', mo_outcomes = [Src ''f'' (Some ''s1''), Dst ''g'' (Some ''t0'')]\<rparr>"
  have "merge sample_ext sample_log (Some ''01'') (Some ''02'') = Inr ?out"
    "side_ops sample_ext sample_log (Some ''01'') (mo_lca ?out) = Inr [sample_records ! 1]"
    "side_ops sample_ext sample_log (Some ''02'') (mo_lca ?out) = Inr [sample_records ! 2]"
    by code_simp+
  from merge_outcomes_complete [OF this] show ?thesis by simp
qed



end
