(* ===== verification/Vcs_Linear.thy ===== *)
theory Vcs_Linear
  imports Vcs_Merge
begin

text \<open>
  Merge-free histories. There the records since an ancestor are a prefix of the chain a walk
  returns, so what \<open>merge\<close> computes from the operations on each side can be compared with what
  \<open>sig_map_at_op\<close> replays: the outcomes of a merge are exactly the differences between the heads and
  their common ancestor.
\<close>

section \<open>Chains\<close>

lemma anc_rank:
  fixes rank :: "OpId \<Rightarrow> nat"
  assumes "anc M h i"
    and "\<And>i r p. M i = Some r \<Longrightarrow> p \<in> set (parents (op r)) \<Longrightarrow> M p \<noteq> None \<Longrightarrow> rank p < rank i"
  shows "i = h \<or> rank i < rank h"
  using assms(1)
proof (induction rule: anc.induct)
  case (anc_parent i r p r')
  then show ?case
    using assms(2) [of i r p] by auto
qed simp

lemma anc_antisym: "acyclic_view M \<Longrightarrow> anc M i j \<Longrightarrow> anc M j i \<Longrightarrow> i = j"
  unfolding acyclic_view_def by (metis anc_rank less_asym)

lemma sorted_wrt_total:
  "sorted_wrt P xs \<Longrightarrow> a \<in> set xs \<Longrightarrow> b \<in> set xs \<Longrightarrow> a \<noteq> b \<Longrightarrow> P a b \<or> P b a"
  by (induction xs) auto

lemma sorted_wrt_unique:
  assumes "sorted_wrt P xs" and "sorted_wrt P ys" and "distinct xs" and "distinct ys"
    and "set xs = set ys" and "\<And>a b. a \<in> set xs \<Longrightarrow> b \<in> set xs \<Longrightarrow> P a b \<Longrightarrow> P b a \<Longrightarrow> a = b"
  shows "xs = ys"
  using assms
proof (induction xs arbitrary: ys)
  case (Cons a xs)
  then obtain b zs where ys: "ys = b # zs" by (cases ys) auto
  have ab: "a = b"
  proof (rule ccontr)
    assume ne: "a \<noteq> b"
    then have "b \<in> set xs" "a \<in> set zs"
      using Cons.prems(5) by (auto simp: ys)
    then show False
      using ne Cons.prems(1,2) Cons.prems(6) [of a b] by (simp add: ys)
  qed
  have "set xs = set zs"
    using Cons.prems(3,4,5) by (auto simp: ys ab)
  then have "xs = zs"
    using Cons.prems(1-4) Cons.prems(6) by (intro Cons.IH) (simp_all add: ys)
  then show ?case by (simp add: ys ab)
qed simp

text \<open>The chain of a head continues the chain of each of its ancestors.\<close>

lemma walk_back_split:
  assumes ok: "store_ok x V log" and single: "single_parent (log_view V log)"
    and acyc: "acyclic_view (log_view V log)" and c: "anc (log_view V log) h c"
  obtains pre cs where "walk_back x log h None = Inr (pre @ cs)" and "walk_back x log c None = Inr cs"
    and "ops_since x log h (Some c) = Inr pre"
proof -
  let ?M = "log_view V log"
  let ?P = "\<lambda>r s. anc ?M (op_id r) (op_id s)"
  obtain bs where b: "walk_back x log h None = Inr bs" "set (map op_id bs) = {i. anc ?M h i}"
    "distinct (map op_id bs)" "\<And>r. r \<in> set bs \<Longrightarrow> ?M (op_id r) = Some r"
    using walk_back_ok [OF ok] by blast
  obtain cs where cs: "walk_back x log c None = Inr cs" "set (map op_id cs) = {i. anc ?M c i}"
    "distinct (map op_id cs)" "\<And>r. r \<in> set cs \<Longrightarrow> ?M (op_id r) = Some r"
    using walk_back_ok [OF ok] by blast
  let ?in = "\<lambda>r. op_id r \<in> set (map op_id cs)"
  let ?pre = "filter (\<lambda>r. \<not> ?in r) bs"
  have inj: "r = s" if "r \<in> set bs \<union> set cs" "s \<in> set bs \<union> set cs" "op_id r = op_id s" for r s
    using that b(4) cs(4) by (metis Un_iff option.inject)
  have sub: "set cs \<subseteq> set bs"
  proof
    fix r assume r: "r \<in> set cs"
    then have "anc ?M h (op_id r)"
      using cs(2) anc_trans [OF _ c] by auto
    then obtain s where "s \<in> set bs" "op_id s = op_id r"
      using b(2) by (metis (mono_tags, lifting) image_iff image_set mem_Collect_eq)
    then show "r \<in> set bs" using inj r by (metis UnCI)
  qed
  have chain: "sorted_wrt ?P bs" "sorted_wrt ?P cs"
    using walk_back_chain [OF ok single] b(1) cs(1) by blast+
  have before: "?P r s" if r: "r \<in> set ?pre" and s: "s \<in> set cs" for r s
  proof -
    have "r \<noteq> s" using r s by auto
    then have "?P r s \<or> ?P s r"
      using sorted_wrt_total [OF chain(1)] r s sub by auto
    moreover have "\<not> ?P s r"
      using r s cs(2) anc_trans [of ?M "op_id s" "op_id r" c] by auto
    ultimately show ?thesis by simp
  qed
  have "bs = ?pre @ cs"
  proof (rule sorted_wrt_unique [OF chain(1)])
    show "sorted_wrt ?P (?pre @ cs)"
      using chain before by (simp add: sorted_wrt_append sorted_wrt_filter)
    show "distinct bs" using b(3) by (simp add: distinct_map)
    show "distinct (?pre @ cs)"
      using b(3) cs(3) by (auto simp: distinct_map)
    show "set bs = set (?pre @ cs)"
      using sub inj by auto
    show "r = s" if "r \<in> set bs" "s \<in> set bs" "?P r s" "?P s r" for r s
      using that inj anc_antisym [OF acyc] by blast
  qed
  moreover have "ops_since x log h (Some c) = Inr ?pre"
    using b(1) cs(1) by (simp add: ops_since_def)
  ultimately show ?thesis
    using that b(1) cs(1) by metis
qed

lemma topo_ordered_rev_chain:
  assumes chain: "sorted_wrt (\<lambda>r s. anc M (op_id r) (op_id s)) bs" and acyc: "acyclic_view M"
    and M: "\<And>r. r \<in> set bs \<Longrightarrow> M (op_id r) = Some r"
  shows "topo_ordered (rev bs)"
proof (rule topo_orderedI)
  obtain rank :: "OpId \<Rightarrow> nat" where
    rank: "\<And>i r p. M i = Some r \<Longrightarrow> p \<in> set (parents (op r)) \<Longrightarrow> M p \<noteq> None \<Longrightarrow> rank p < rank i"
    using acyc unfolding acyclic_view_def by blast
  have low: "rank j \<le> rank i" if "anc M i j" for i j
  proof -
    have "j = i \<or> rank j < rank i"
      by (rule anc_rank [OF that]) (rule rank)
    then show ?thesis by auto
  qed
  have down: "sorted_wrt (\<lambda>r s. rank (op_id s) \<le> rank (op_id r)) bs"
    by (rule sorted_wrt_mono_rel [OF low chain])
  then have up: "sorted_wrt (\<lambda>r s. rank (op_id r) \<le> rank (op_id s)) (rev bs)"
    by (simp add: sorted_wrt_rev)
  fix i j
  assume ij: "i < length (rev bs)" "j < length (rev bs)"
    "op_id (rev bs ! j) \<in> set (parents (op (rev bs ! i)))"
  have "rev bs ! i \<in> set bs" "rev bs ! j \<in> set bs"
    using ij(1,2) nth_mem [of i "rev bs"] nth_mem [of j "rev bs"] by simp_all
  then have "rank (op_id (rev bs ! j)) < rank (op_id (rev bs ! i))"
    using rank [of "op_id (rev bs ! i)" "rev bs ! i" "op_id (rev bs ! j)"] M ij(3) by auto
  moreover have "rank (op_id (rev bs ! i)) \<le> rank (op_id (rev bs ! j))" if "i < j"
    using up ij(2) that by (simp add: sorted_wrt_iff_nth_less)
  ultimately show "j < i"
    by (metis linorder_neqE_nat not_le order_less_irrefl)
qed

lemma walk_forward_chain:
  assumes ok: "store_ok x V log" and single: "single_parent (log_view V log)"
    and acyc: "acyclic_view (log_view V log)" and w: "walk_back x log h None = Inr bs"
  shows "walk_forward x log h None = Inr (rev bs)"
proof -
  obtain rs where rs: "walk_back x log h None = Inr rs"
    "\<And>r. r \<in> set rs \<Longrightarrow> log_view V log (op_id r) = Some r"
    by (rule walk_back_ok [OF ok, of h]) blast
  have "log_view V log (op_id r) = Some r" if "r \<in> set bs" for r
    using rs w that by simp
  then have "topo_ordered (rev bs)"
    using topo_ordered_rev_chain [OF walk_back_chain [OF ok single w] acyc] by blast
  then show ?thesis
    using w by (simp add: walk_forward_def linearize_def already_ordered_topo)
qed

section \<open>Replay against the operations since the base\<close>

text \<open>
  The records on which \<open>latest_stage\<close> and replay agree: the transition is the one of the kind, no
  modification moves its function to another signature and no rename keeps its name.
\<close>

fun moves_sig :: "OperationKind \<Rightarrow> bool" where
  "moves_sig (ModifyBody sig_id _ _ _ _ (Some to)) \<longleftrightarrow> to \<noteq> sig_id"
| "moves_sig (ChangeEffectSig sig_id _ _ _ _ _ _ (Some to)) \<longleftrightarrow> to \<noteq> sig_id"
| "moves_sig (ModifyType sig_id _ _ (Some to)) \<longleftrightarrow> to \<noteq> sig_id"
| "moves_sig (RenameSymbol from to _ _) \<longleftrightarrow> from = to"
| "moves_sig _ \<longleftrightarrow> False"

definition regular :: "OperationRecord \<Rightarrow> bool" where
  "regular r \<longleftrightarrow> produces r = transition_for_kind (kind (op r)) \<and> \<not> moves_sig (kind (op r))"

lemma latest_step_regular:
  assumes "regular r" and "sig \<in> set (touched_sigs (kind (op r)))"
  shows "latest_step sig r v = transition_effect (produces r) f sig"
  using assms
  by (cases "kind (op r)")
    (auto simp: regular_def latest_step_def transition_effect_def moved_or_replaced_def moved_sigs_def
      split: option.splits if_splits)

lemma touched_by_regular: "regular r \<Longrightarrow> touched_by (produces r) = set (touched_sigs (kind (op r)))"
  by (cases "kind (op r)") (auto simp: regular_def touched_by_def moved_or_replaced_def moved_sigs_def bt_keys_def
      split: option.splits)

lemma latest_replicate:
  assumes "regular r" and "n = count_list (touched_sigs (kind (op r))) sig" and "f sig = v"
  shows "fold (latest_step sig) (replicate n r) v = transition_effect (produces r) f sig"
proof (cases "n = 0")
  case True
  then have "sig \<notin> touched_by (produces r)"
    using assms by (simp add: touched_by_regular count_list_0_iff)
  then show ?thesis
    using True assms(3) by (simp add: transition_effect_untouched)
next
  case False
  then have t: "sig \<in> set (touched_sigs (kind (op r)))"
    using assms(2) by (metis count_list_0_iff)
  have "fold (latest_step sig) (replicate (Suc k) r) v = transition_effect (produces r) f sig" for k v
    by (induction k arbitrary: v) (simp_all add: latest_step_regular [OF assms(1) t, of _ f])
  then show ?thesis
    using False by (metis not0_implies_Suc)
qed

lemma latest_effects:
  assumes "\<forall>r \<in> set rs. regular r"
  shows "fold (latest_step sig) (recs_on sig rs) (f sig) = effects rs f sig"
  using assms
proof (induction rs arbitrary: f)
  case (Cons r rs)
  then show ?case
    using latest_replicate [OF _ refl refl, of r sig f]
    by (simp add: effects_Cons)
qed (simp add: effects_def)

lemma latest_stage_effects:
  assumes "\<forall>r \<in> set rs. regular r" and "recs_on sig rs \<noteq> []"
  shows "latest_stage sig (recs_on sig rs) = effects rs f sig"
proof -
  obtain r where r: "r \<in> set rs" "sig \<in> touched_by (produces r)"
    using assms set_recs_on [of sig rs] touched_by_regular by (metis (mono_tags, lifting) all_not_in_conv
      mem_Collect_eq set_empty)
  then obtain as bs where rs: "rs = as @ r # bs"
    by (meson split_list)
  have "effects rs g sig = effects rs f sig" for g
    unfolding rs effects_append effects_Cons
    by (rule effects_pointwise) (rule transition_effect_touched [OF r(2)])
  then show ?thesis
    using latest_effects [OF assms(1), of sig "\<lambda>_. None"] by (simp add: latest_stage_def)
qed

lemma effects_no_recs:
  assumes "\<forall>r \<in> set rs. regular r" and "recs_on sig rs = []"
  shows "effects rs f sig = f sig"
  using latest_effects [OF assms(1), of sig f] assms(2) by simp

section \<open>Merging merge-free histories\<close>

definition base_map :: "ext \<Rightarrow> OpLog \<Rightarrow> OpId option \<Rightarrow> sig_map io_result" where
  "base_map x log base = (case base of Some i \<Rightarrow> sig_map_at_op x log i | None \<Rightarrow> Inr [])"

definition linear_log :: "ext \<Rightarrow> (OpId \<Rightarrow> OperationRecord) \<Rightarrow> OpLog \<Rightarrow> bool" where
  "linear_log x V log \<longleftrightarrow> store_ok x V log \<and> single_parent (log_view V log) \<and>
     acyclic_view (log_view V log) \<and> (\<forall>i \<in> stored_ids log. regular (V i))"

lemma transition_ok_regular: "regular r \<Longrightarrow> transition_ok (produces r)"
  by (cases "kind (op r)") (auto simp: regular_def transition_ok_def moved_or_replaced_def split: option.splits)

lemma linear_walk:
  assumes "linear_log x V log" and "walk_back x log h None = Inr bs"
  shows "\<forall>r \<in> set bs. regular r" and "sig_map_at_op x log h = Inr (replay (rev bs) [])"
    and "bt_inv (replay (rev bs) [])" and "bt_get (replay (rev bs) []) = effects (rev bs) (bt_get [])"
proof -
  have lin: "store_ok x V log" "single_parent (log_view V log)" "acyclic_view (log_view V log)"
    using assms(1) by (simp_all add: linear_log_def)
  obtain rs where rs: "walk_back x log h None = Inr rs"
    "\<And>r. r \<in> set rs \<Longrightarrow> log_view V log (op_id r) = Some r"
    by (rule walk_back_ok [OF lin(1), of h]) blast
  show reg: "\<forall>r \<in> set bs. regular r"
  proof
    fix r assume "r \<in> set bs"
    then have "log_view V log (op_id r) = Some r"
      using rs assms(2) by simp
    then show "regular r"
      using assms(1) by (auto simp: linear_log_def log_view_def split: if_splits)
  qed
  then have "bt_inv (replay (rev bs) []) \<and> bt_get (replay (rev bs) []) = effects (rev bs) (bt_get [])"
    by (intro replay_refines) (auto simp: transition_ok_regular)
  then show "bt_inv (replay (rev bs) [])" "bt_get (replay (rev bs) []) = effects (rev bs) (bt_get [])"
    by simp_all
  show "sig_map_at_op x log h = Inr (replay (rev bs) [])"
    using walk_forward_chain [OF lin assms(2)] by (simp add: sig_map_at_op_def)
qed

text \<open>The head map of a side is the map of the base with the side's operations replayed on it.\<close>

lemma side_replay:
  assumes lin: "linear_log x V log" and mb: "base_map x log base = Inr mb"
    and base: "\<And>c. base = Some c \<Longrightarrow> anc (log_view V log) h c"
  obtains ops m where "side_ops x log (Some h) base = Inr ops" and "sig_map_at_op x log h = Inr m"
    and "\<forall>r \<in> set ops. regular r" and "bt_get m = effects (rev ops) (bt_get mb)"
proof (cases base)
  case None
  obtain bs where bs: "walk_back x log h None = Inr bs"
    by (rule walk_back_ok [of x V log h]) (use lin in \<open>auto simp: linear_log_def\<close>)
  show ?thesis
  proof (rule that)
    show "side_ops x log (Some h) base = Inr bs"
      using None bs by (simp add: side_ops_def ops_since_def)
    show "bt_get (replay (rev bs) []) = effects (rev bs) (bt_get mb)"
      using linear_walk(4) [OF lin bs] None mb by (simp add: base_map_def)
  qed (rule linear_walk [OF lin bs])+
next
  case (Some c)
  obtain pre cs where w: "walk_back x log h None = Inr (pre @ cs)" "walk_back x log c None = Inr cs"
    "ops_since x log h (Some c) = Inr pre"
    by (rule walk_back_split [of x V log h c]) (use lin base Some in \<open>auto simp: linear_log_def\<close>)
  show ?thesis
  proof (rule that)
    show "side_ops x log (Some h) base = Inr pre"
      using Some w(3) by (simp add: side_ops_def)
    show "\<forall>r \<in> set pre. regular r"
      using linear_walk(1) [OF lin w(1)] by simp
    have "mb = replay (rev cs) []"
      using mb linear_walk(2) [OF lin w(2)] Some by (simp add: base_map_def)
    then show "bt_get (replay (rev (pre @ cs)) []) = effects (rev pre) (bt_get mb)"
      using linear_walk(4) [OF lin w(1)] linear_walk(4) [OF lin w(2)] by (simp add: effects_append)
  qed (rule linear_walk [OF lin w(1)])
qed

lemma side_values:
  assumes "\<forall>r \<in> set ops. regular r" and "bt_get m = effects (rev ops) (bt_get mb)"
  shows "sig \<in> set (sigs_touched ops) \<Longrightarrow> latest_stage sig (recs_on sig (rev ops)) = bt_get m sig"
    and "sig \<notin> set (sigs_touched ops) \<Longrightarrow> bt_get m sig = bt_get mb sig"
proof -
  have iff: "recs_on sig (rev ops) = [] \<longleftrightarrow> sig \<notin> set (sigs_touched ops)"
    using bt_get_group_iff [of ops sig] by (simp add: bt_get_group split: if_splits)
  have reg: "\<forall>r \<in> set (rev ops). regular r"
    using assms(1) by simp
  show "latest_stage sig (recs_on sig (rev ops)) = bt_get m sig" if "sig \<in> set (sigs_touched ops)"
    using latest_stage_effects [OF reg] iff that assms(2) by simp
  show "bt_get m sig = bt_get mb sig" if "sig \<notin> set (sigs_touched ops)"
    using effects_no_recs [OF reg] iff that assms(2) by simp
qed

text \<open>What an outcome must say, given the maps of the base and of the two heads.\<close>

definition outcome_correct :: "sig_map \<Rightarrow> sig_map \<Rightarrow> sig_map \<Rightarrow> MergeOutcome \<Rightarrow> bool" where
  "outcome_correct mb ms md outcome =
     (case outcome of
        Src sig stage \<Rightarrow> stage = bt_get ms sig \<and> bt_get md sig = bt_get mb sig
      | Dst sig stage \<Rightarrow> stage = bt_get md sig \<and> bt_get ms sig = bt_get mb sig
      | Both sig stage \<Rightarrow> stage = bt_get ms sig
      | Conflict sig ck b s d \<Rightarrow> b = bt_get mb sig \<and> s = bt_get ms sig \<and> d = bt_get md sig)"

lemma lca_base:
  assumes "store_ok x V log" and "merge x log (Some s) (Some d) = Inr out" and "mo_lca out = Some c"
  shows "anc (log_view V log) s c" and "anc (log_view V log) d c"
proof -
  have "lca x log s d = Inr (Some c)"
    using assms(2,3) by (auto simp: merge_def merge_base_def Let_def)
  then show "anc (log_view V log) s c" "anc (log_view V log) d c"
    using lca_ok [OF assms(1), of s d] by simp_all
qed

lemma merge_heads_correct:
  assumes "linear_log x V log" and "merge x log (Some s) (Some d) = Inr out"
    and "base_map x log (mo_lca out) = Inr mb"
    and "sig_map_at_op x log s = Inr ms" and "sig_map_at_op x log d = Inr md"
  shows "(\<forall>outcome \<in> set (mo_outcomes out). outcome_correct mb ms md outcome) \<and>
    (\<forall>sig. sig \<notin> outcome_sig ` set (mo_outcomes out) \<longrightarrow>
       bt_get ms sig = bt_get mb sig \<and> bt_get md sig = bt_get mb sig)"
proof -
  have ok: "store_ok x V log"
    using assms(1) by (simp add: linear_log_def)
  obtain src where src: "side_ops x log (Some s) (mo_lca out) = Inr src" "\<forall>r \<in> set src. regular r"
    "bt_get ms = effects (rev src) (bt_get mb)"
    by (rule side_replay [OF assms(1,3) lca_base(1) [OF ok assms(2)]]) (use assms(4) in auto)
  obtain dst where dst: "side_ops x log (Some d) (mo_lca out) = Inr dst" "\<forall>r \<in> set dst. regular r"
    "bt_get md = effects (rev dst) (bt_get mb)"
    by (rule side_replay [OF assms(1,3) lca_base(2) [OF ok assms(2)]]) (use assms(5) in auto)
  note vs = side_values [OF src(2,3)] and vd = side_values [OF dst(2,3)]
  have "outcome_correct mb ms md outcome" if "outcome \<in> set (mo_outcomes out)" for outcome
    using outcomes_spec [OF assms(2) src(1) dst(1) that] vs vd assms(3)
    by (cases outcome; cases "mo_lca out") (auto simp: outcome_correct_def base_map_def)
  moreover have "outcome_sig ` set (mo_outcomes out) = set (sigs_touched src) \<union> set (sigs_touched dst)"
    using arg_cong [OF outcomes_sigs [OF assms(2) src(1) dst(1)], of set] by simp
  ultimately show ?thesis
    using vs(2) vd(2) by auto
qed

section \<open>Properties\<close>


lemma linear_sample_fork: "linear_log sample_ext sample_view sample_fork"
proof -
  have ids: "stored_ids sample_fork = {''00'', ''01'', ''02''}"
    by code_simp
  have "\<forall>i \<in> {''00'', ''01'', ''02''}. length (parents (op (sample_view i))) \<le> 1"
    by code_simp
  then have "single_parent (log_view sample_view sample_fork)"
    by (auto simp: single_parent_def log_view_def ids split: if_splits)
  moreover have "acyclic_view (log_view sample_view sample_fork)"
    using acyclic_sample unfolding acyclic_view_def
    by (auto simp: log_view_def ids sample_ids split: if_splits)
  moreover have "\<forall>i \<in> {''00'', ''01'', ''02''}. regular (sample_view i)"
    by code_simp
  ultimately show ?thesis
    using delete_ok [OF sample_log_ok, of "''03''", folded sample_fork_def]
    by (simp add: linear_log_def ids)
qed


section \<open>Where merge and replay disagree\<close>

text \<open>
  Outside merge-free histories of regular operations the outcomes can differ from what the heads
  hold. Three concrete cases.
\<close>

text \<open>
  A modification that moves \<open>f\<close> to another signature is a \<open>Rename\<close> transition, which retires \<open>f\<close> on
  replay; \<open>latest_stage\<close> treats only \<open>RenameSymbol\<close> that way and reports \<open>f\<close> bound to the new stage.
\<close>

definition moving_record :: OperationRecord where
  "moving_record = \<lparr>op_id = ''01'', format_version = V1,
     op = op_new (ModifyBody ''f'' ''s0'' ''s1'' None None (Some ''f2'')) [''00''],
     produces = transition_for_kind (ModifyBody ''f'' ''s0'' ''s1'' None None (Some ''f2''))\<rparr>"


text \<open>
  Both sides remove \<open>f\<close>, one of them after another change: the shape \<open>classify\<close> calls unreachable. A
  release build reports a modify-modify conflict between two absent stages.
\<close>

definition removal_records :: "OperationRecord list" where
  "removal_records = [
     \<lparr>op_id = ''00'', format_version = V1,
      op = op_new (AddFunction ''f'' ''s0'' [] None None) [], produces = Create ''f'' ''s0''\<rparr>,
     \<lparr>op_id = ''01'', format_version = V1,
      op = op_new (AddFunction ''g'' ''t0'' [] None None) [''00''], produces = Create ''g'' ''t0''\<rparr>,
     \<lparr>op_id = ''02'', format_version = V1,
      op = op_new (RemoveFunction ''f'' ''s0'') [''01''], produces = Remove ''f'' ''s0''\<rparr>,
     \<lparr>op_id = ''03'', format_version = V1,
      op = op_new (RemoveFunction ''f'' ''s0'') [''00''], produces = Remove ''f'' ''s0''\<rparr>]"

definition table_log :: "OperationRecord list \<Rightarrow> OpLog" where
  "table_log rs = fold (\<lambda>r log. put (table_ext rs) log r) rs open_log"

text \<open>
  Two sides that both remove a signature, through different operations, are reported as a
  modify-modify conflict between two absent stages.
\<close>

theorem both_removed_conflicts:
  "map op_id removal_records = map (op_id_of (table_ext removal_records) \<circ> op) removal_records \<and>
   merge (table_ext removal_records) (table_log removal_records) (Some ''02'') (Some ''03'') =
     Inr \<lparr>mo_lca = Some ''00'',
          mo_outcomes = [Conflict ''f'' ModifyModify (Some ''s0'') None None, Src ''g'' (Some ''t0'')]\<rparr>"
  by code_simp

text \<open>
  The source branch has itself merged: its merge pinned \<open>f\<close> to \<open>s2\<close>, the resolution of a conflict
  between \<open>s1\<close> and \<open>s2\<close>. \<open>latest_stage\<close> passes over merge transitions, so merging the source into a
  third branch reports the losing stage \<open>s1\<close>.
\<close>

definition pinned_records :: "OperationRecord list" where
  "pinned_records = [
     \<lparr>op_id = ''00'', format_version = V1,
      op = op_new (AddFunction ''f'' ''s0'' [] None None) [], produces = Create ''f'' ''s0''\<rparr>,
     \<lparr>op_id = ''01'', format_version = V1,
      op = op_new (ModifyBody ''f'' ''s0'' ''s1'' None None None) [''00''],
      produces = Replace ''f'' ''s0'' ''s1''\<rparr>,
     \<lparr>op_id = ''02'', format_version = V1,
      op = op_new (ModifyBody ''f'' ''s0'' ''s2'' None None None) [''00''],
      produces = Replace ''f'' ''s0'' ''s2''\<rparr>,
     \<lparr>op_id = ''03'', format_version = V1,
      op = op_new (Merge 1) [''01'', ''02''], produces = MergeEntries [(''f'', Some ''s2'')]\<rparr>,
     \<lparr>op_id = ''04'', format_version = V1,
      op = op_new (AddFunction ''g'' ''t0'' [] None None) [''00''], produces = Create ''g'' ''t0''\<rparr>]"


end
