(* ===== verification/Vcs_MergeSession.thy ===== *)
theory Vcs_MergeSession
  imports Vcs_Linear
begin

text \<open>
  Merge sessions, \<open>crates/lex-vcs/src/merge_session.rs\<close>: \<open>start\<close> partitions the outcomes of a merge
  into decided ones and conflicts, \<open>resolve\<close>, \<open>resolve_checked\<close> and \<open>resolve_files\<close> accumulate
  resolutions, \<open>commit\<close> finalises once nothing is pending. The \<open>ResolutionChecker\<close> of the caller is
  an argument of the definitions that use it. Record fields carry a prefix for their struct.
\<close>

section \<open>Types\<close>

type_synonym MergeSessionId = string
type_synonym ConflictId = SigId
type_synonym FilePath = string

record ConflictRecord =
  cr_conflict_id :: ConflictId
  cr_sig_id :: SigId
  cr_kind :: ConflictKind
  cr_base :: "StageId option"
  cr_ours :: "StageId option"
  cr_theirs :: "StageId option"

record FileEntry =
  fe_blob :: BlobId
  fe_mode :: string
  fe_size :: u64

record FileConflict =
  fc_path :: FilePath
  fc_base :: "FileEntry option"
  fc_ours :: "FileEntry option"
  fc_theirs :: "FileEntry option"

datatype FileResolution = FileTakeOurs | FileTakeTheirs | FileDefer

datatype FileResolutionRejection = UnknownFileConflict FilePath

record FileResolveVerdict =
  fv_path :: FilePath
  fv_accepted :: bool
  fv_rejection :: "FileResolutionRejection option"

datatype Resolution = TakeOurs | TakeTheirs | Custom Operation | Defer

datatype ResolutionRejection =
    UnknownConflict ConflictId
  | CustomOpMissingParents ConflictId "OpId list" "OpId list"   \<comment> \<open>conflict_id, expected, got\<close>
  | ResolutionTypeError ConflictId "string list"                \<comment> \<open>conflict_id, errors\<close>

record ResolveVerdict =
  rv_conflict_id :: ConflictId
  rv_accepted :: bool
  rv_rejection :: "ResolutionRejection option"

datatype CommitError =
    ConflictsRemaining "ConflictId list"
  | FileConflictsRemaining "FilePath list"

record MergeCommitOutput =
  co_resolved :: "(ConflictId \<times> Resolution) list"
  co_resolved_files :: "(FilePath \<times> FileResolution) list"
  co_needs_setfiles :: bool

record MergeSession =
  ms_merge_id :: MergeSessionId
  ms_src_head :: "OpId option"
  ms_dst_head :: "OpId option"
  ms_lca :: "OpId option"
  ms_auto_resolved :: "MergeOutcome list"
  ms_conflicts :: "(ConflictId, ConflictRecord) btree_map"
  ms_resolutions :: "(ConflictId, Resolution) btree_map"
  ms_file_conflicts :: "(FilePath, FileConflict) btree_map"
  ms_file_resolutions :: "(FilePath, FileResolution) btree_map"
  ms_needs_setfiles :: bool

type_synonym head_delta = "(SigId, StageId option) btree_map"

section \<open>Operations\<close>

fun partition_outcome ::
  "MergeOutcome \<Rightarrow> MergeOutcome list \<times> (ConflictId, ConflictRecord) btree_map \<Rightarrow>
   MergeOutcome list \<times> (ConflictId, ConflictRecord) btree_map" where
  "partition_outcome (Conflict sig_id ck base src dst) (auto', conflicts) =
     (auto', bt_insert sig_id \<lparr>cr_conflict_id = sig_id, cr_sig_id = sig_id, cr_kind = ck,
        cr_base = base, cr_ours = dst, cr_theirs = src\<rparr> conflicts)"
| "partition_outcome other (auto', conflicts) = (auto' @ [other], conflicts)"

definition session_start ::
  "MergeSessionId \<Rightarrow> ext \<Rightarrow> OpLog \<Rightarrow> OpId option \<Rightarrow> OpId option \<Rightarrow> MergeSession io_result" where
  "session_start merge_id x log src_head dst_head =
     rbind (merge x log src_head dst_head) (\<lambda>out.
       let (auto', conflicts) = fold partition_outcome (mo_outcomes out) ([], [])
       in Inr \<lparr>ms_merge_id = merge_id, ms_src_head = src_head, ms_dst_head = dst_head,
               ms_lca = mo_lca out, ms_auto_resolved = auto', ms_conflicts = conflicts,
               ms_resolutions = [], ms_file_conflicts = [], ms_file_resolutions = [],
               ms_needs_setfiles = False\<rparr>)"

definition attach_file_conflicts :: "MergeSession \<Rightarrow> FileConflict list \<Rightarrow> bool \<Rightarrow> MergeSession" where
  "attach_file_conflicts s cs flag =
     s\<lparr>ms_file_conflicts := bt_of_list (map (\<lambda>c. (fc_path c, c)) cs), ms_needs_setfiles := flag\<rparr>"

definition needs_setfiles :: "MergeSession \<Rightarrow> bool" where
  "needs_setfiles s = ms_needs_setfiles s"

definition file_settled :: "FileResolution option \<Rightarrow> bool" where
  "file_settled r = (case r of Some FileTakeOurs \<Rightarrow> True | Some FileTakeTheirs \<Rightarrow> True | _ \<Rightarrow> False)"

definition remaining_file_conflicts :: "MergeSession \<Rightarrow> FileConflict list" where
  "remaining_file_conflicts s =
     filter (\<lambda>c. \<not> file_settled (bt_get (ms_file_resolutions s) (fc_path c)))
       (map snd (ms_file_conflicts s))"

fun resolve_files ::
  "MergeSession \<Rightarrow> (FilePath \<times> FileResolution) list \<Rightarrow> MergeSession \<times> FileResolveVerdict list" where
  "resolve_files s [] = (s, [])"
| "resolve_files s ((path, r) # rs) =
     (if bt_get (ms_file_conflicts s) path = None then
        let (s', vs) = resolve_files s rs
        in (s', \<lparr>fv_path = path, fv_accepted = False,
                 fv_rejection = Some (UnknownFileConflict path)\<rparr> # vs)
      else
        let (s', vs) = resolve_files
              (s\<lparr>ms_file_resolutions := bt_insert path r (ms_file_resolutions s)\<rparr>) rs
        in (s', \<lparr>fv_path = path, fv_accepted = True, fv_rejection = None\<rparr> # vs))"

definition settled :: "Resolution option \<Rightarrow> bool" where
  "settled r =
     (case r of Some TakeOurs \<Rightarrow> True | Some TakeTheirs \<Rightarrow> True | Some (Custom _) \<Rightarrow> True | _ \<Rightarrow> False)"

definition remaining_conflicts :: "MergeSession \<Rightarrow> ConflictRecord list" where
  "remaining_conflicts s =
     filter (\<lambda>c. \<not> settled (bt_get (ms_resolutions s) (cr_conflict_id c))) (map snd (ms_conflicts s))"

definition validate_resolution ::
  "MergeSession \<Rightarrow> ConflictId \<Rightarrow> Resolution \<Rightarrow> ResolutionRejection + unit" where
  "validate_resolution s cid r =
     (if bt_get (ms_conflicts s) cid = None then Inl (UnknownConflict cid)
      else case r of
        Custom o' \<Rightarrow>
          if length (parents o') < 2
          then Inl (CustomOpMissingParents cid [''ours-op-id'', ''theirs-op-id''] (parents o'))
          else Inr ()
      | _ \<Rightarrow> Inr ())"

definition accept :: "MergeSession \<Rightarrow> ConflictId \<Rightarrow> Resolution \<Rightarrow> MergeSession" where
  "accept s cid r = s\<lparr>ms_resolutions := bt_insert cid r (ms_resolutions s)\<rparr>"

definition accepted_verdict :: "ConflictId \<Rightarrow> ResolveVerdict" where
  "accepted_verdict cid = \<lparr>rv_conflict_id = cid, rv_accepted = True, rv_rejection = None\<rparr>"

definition rejected_verdict :: "ConflictId \<Rightarrow> ResolutionRejection \<Rightarrow> ResolveVerdict" where
  "rejected_verdict cid rej = \<lparr>rv_conflict_id = cid, rv_accepted = False, rv_rejection = Some rej\<rparr>"

fun resolve ::
  "MergeSession \<Rightarrow> (ConflictId \<times> Resolution) list \<Rightarrow> MergeSession \<times> ResolveVerdict list" where
  "resolve s [] = (s, [])"
| "resolve s ((cid, r) # rs) =
     (case validate_resolution s cid r of
        Inr _ \<Rightarrow>
          let (s', vs) = resolve (accept s cid r) rs
          in (s', accepted_verdict cid # vs)
      | Inl rej \<Rightarrow>
          let (s', vs) = resolve s rs
          in (s', rejected_verdict cid rej # vs))"

definition auto_delta :: "MergeOutcome list \<Rightarrow> head_delta" where
  "auto_delta outcomes =
     fold (\<lambda>outcome delta. case outcome of Src sig stage \<Rightarrow> bt_insert sig stage delta | _ \<Rightarrow> delta)
       outcomes []"

definition conflict_delta ::
  "(ConflictId, Resolution) btree_map \<Rightarrow> ConflictId \<times> ConflictRecord \<Rightarrow> head_delta \<Rightarrow> head_delta" where
  "conflict_delta rs = (\<lambda>(cid, record) delta.
     case bt_get rs cid of
       Some TakeTheirs \<Rightarrow> bt_insert (cr_sig_id record) (cr_theirs record) delta
     | Some (Custom o') \<Rightarrow>
         (case merge_target (kind o') of Some (sig, stage) \<Rightarrow> bt_insert sig stage delta | None \<Rightarrow> delta)
     | _ \<Rightarrow> delta)"

definition projected_delta :: "MergeSession \<Rightarrow> (ConflictId, Resolution) btree_map \<Rightarrow> head_delta" where
  "projected_delta s rs = fold (conflict_delta rs) (ms_conflicts s) (auto_delta (ms_auto_resolved s))"

text \<open>\<open>checker\<close> is the caller's \<open>typecheck_projection\<close>.\<close>

fun resolve_checked ::
  "(head_delta \<Rightarrow> string list) \<Rightarrow> MergeSession \<Rightarrow> (ConflictId \<times> Resolution) list \<Rightarrow>
   MergeSession \<times> ResolveVerdict list" where
  "resolve_checked checker s [] = (s, [])"
| "resolve_checked checker s ((cid, r) # rs) =
     (case validate_resolution s cid r of
        Inl rej \<Rightarrow>
          let (s', vs) = resolve_checked checker s rs
          in (s', rejected_verdict cid rej # vs)
      | Inr _ \<Rightarrow>
          let trial = bt_insert cid r (ms_resolutions s);
              errors = checker (projected_delta s trial)
          in if errors \<noteq> [] then
               let (s', vs) = resolve_checked checker s rs
               in (s', rejected_verdict cid (ResolutionTypeError cid errors) # vs)
             else
               let (s', vs) = resolve_checked checker (accept s cid r) rs
               in (s', accepted_verdict cid # vs))"

definition commit :: "MergeSession \<Rightarrow> CommitError + MergeCommitOutput" where
  "commit s =
     (let unresolved = filter (\<lambda>cid. \<not> settled (bt_get (ms_resolutions s) cid)) (bt_keys (ms_conflicts s))
      in if unresolved \<noteq> [] then Inl (ConflictsRemaining unresolved)
      else
        let unresolved_files =
          filter (\<lambda>path. \<not> file_settled (bt_get (ms_file_resolutions s) path))
            (bt_keys (ms_file_conflicts s))
        in if unresolved_files \<noteq> [] then Inl (FileConflictsRemaining unresolved_files)
        else Inr \<lparr>co_resolved = sort_key fst (ms_resolutions s),
                  co_resolved_files = sort_key fst (ms_file_resolutions s),
                  co_needs_setfiles = ms_needs_setfiles s\<rparr>)"

section \<open>Sessions that can occur\<close>

text \<open>The life of a session: started, given its files dimension, then resolved in batches.\<close>

inductive session_reachable ::
  "(head_delta \<Rightarrow> string list) \<Rightarrow> ext \<Rightarrow> OpLog \<Rightarrow> MergeSession \<Rightarrow> bool"
  for checker x log where
  started: "session_start mid x log sh dh = Inr s \<Longrightarrow>
    session_reachable checker x log (attach_file_conflicts s cs flag)"
| resolved: "session_reachable checker x log s \<Longrightarrow> session_reachable checker x log (fst (resolve s rs))"
| checked: "session_reachable checker x log s \<Longrightarrow>
    session_reachable checker x log (fst (resolve_checked checker s rs))"
| files: "session_reachable checker x log s \<Longrightarrow>
    session_reachable checker x log (fst (resolve_files s frs))"

definition session_ok :: "MergeSession \<Rightarrow> bool" where
  "session_ok s \<longleftrightarrow>
     bt_inv (ms_conflicts s) \<and> bt_inv (ms_resolutions s) \<and>
     bt_inv (ms_file_conflicts s) \<and> bt_inv (ms_file_resolutions s) \<and>
     (\<forall>(cid, c) \<in> set (ms_conflicts s). cr_conflict_id c = cid \<and> cr_sig_id c = cid) \<and>
     (\<forall>(path, c) \<in> set (ms_file_conflicts s). fc_path c = path) \<and>
     set (bt_keys (ms_resolutions s)) \<subseteq> set (bt_keys (ms_conflicts s)) \<and>
     set (bt_keys (ms_file_resolutions s)) \<subseteq> set (bt_keys (ms_file_conflicts s)) \<and>
     (\<forall>cid o'. bt_get (ms_resolutions s) cid = Some (Custom o') \<longrightarrow> 2 \<le> length (parents o'))"

section \<open>Batches\<close>

text \<open>
  The contract the three batch operations share: inputs are processed in order, one verdict each, a
  rejected input leaves the session as it was and an accepted one keeps the invariant.
\<close>

locale batch_processor =
  fixes one :: "'s \<Rightarrow> 'a \<Rightarrow> 's \<times> 'v"
    and batch :: "'s \<Rightarrow> 'a list \<Rightarrow> 's \<times> 'v list"
    and accepted :: "'v \<Rightarrow> bool"
    and inv :: "'s \<Rightarrow> bool"
  assumes batch_Nil: "batch s [] = (s, [])"
    and batch_Cons: "batch s (a # as) =
      (fst (batch (fst (one s a)) as), snd (one s a) # snd (batch (fst (one s a)) as))"
    and rejected_unchanged: "\<not> accepted (snd (one s a)) \<Longrightarrow> fst (one s a) = s"
    and one_inv: "inv s \<Longrightarrow> inv (fst (one s a))"
begin

lemma batch_inv: "inv s \<Longrightarrow> inv (fst (batch s as))"
  by (induction as arbitrary: s) (simp_all add: batch_Nil batch_Cons one_inv)

lemma length_batch: "length (snd (batch s as)) = length as"
  by (induction as arbitrary: s) (simp_all add: batch_Nil batch_Cons)

lemma batch_all_rejected: "\<not> list_ex accepted (snd (batch s as)) \<Longrightarrow> fst (batch s as) = s"
proof (induction as arbitrary: s)
  case (Cons a as)
  then have "fst (one s a) = s"
    by (intro rejected_unchanged) (simp add: batch_Cons)
  then show ?case
    using Cons by (simp add: batch_Cons)
qed (simp add: batch_Nil)

lemma batch_rel:
  assumes "\<And>s a. R s (fst (one s a))" and "\<And>s. R s s" and "\<And>s t u. R s t \<Longrightarrow> R t u \<Longrightarrow> R s u"
  shows "R s (fst (batch s as))"
proof (induction as arbitrary: s)
  case (Cons a as)
  show ?case
    unfolding batch_Cons fst_conv by (rule assms(3) [OF assms(1) Cons.IH])
qed (simp add: batch_Nil assms(2))

text \<open>A property of the session that every acceptance establishes holds once anything was accepted.\<close>

lemma batch_establishes:
  assumes "\<And>s a. accepted (snd (one s a)) \<Longrightarrow> Q (fst (one s a))"
  shows "Q s \<or> list_ex accepted (snd (batch s as)) \<Longrightarrow> Q (fst (batch s as))"
proof (induction as arbitrary: s)
  case (Cons a as)
  then show ?case
    using assms [of s a] rejected_unchanged [of s a]
    by (cases "accepted (snd (one s a))") (auto simp: batch_Cons)
qed (simp add: batch_Nil)

end

definition resolve_one :: "MergeSession \<Rightarrow> ConflictId \<times> Resolution \<Rightarrow> MergeSession \<times> ResolveVerdict" where
  "resolve_one s = (\<lambda>(cid, r).
     case validate_resolution s cid r of
       Inr _ \<Rightarrow> (accept s cid r, accepted_verdict cid)
     | Inl rej \<Rightarrow> (s, rejected_verdict cid rej))"

definition resolve_checked_one ::
  "(head_delta \<Rightarrow> string list) \<Rightarrow> MergeSession \<Rightarrow> ConflictId \<times> Resolution \<Rightarrow>
   MergeSession \<times> ResolveVerdict" where
  "resolve_checked_one checker s = (\<lambda>(cid, r).
     case validate_resolution s cid r of
       Inl rej \<Rightarrow> (s, rejected_verdict cid rej)
     | Inr _ \<Rightarrow>
         let errors = checker (projected_delta s (bt_insert cid r (ms_resolutions s)))
         in if errors \<noteq> [] then (s, rejected_verdict cid (ResolutionTypeError cid errors))
            else (accept s cid r, accepted_verdict cid))"

definition resolve_file_one ::
  "MergeSession \<Rightarrow> FilePath \<times> FileResolution \<Rightarrow> MergeSession \<times> FileResolveVerdict" where
  "resolve_file_one s = (\<lambda>(path, r).
     if bt_get (ms_file_conflicts s) path = None
     then (s, \<lparr>fv_path = path, fv_accepted = False, fv_rejection = Some (UnknownFileConflict path)\<rparr>)
     else (s\<lparr>ms_file_resolutions := bt_insert path r (ms_file_resolutions s)\<rparr>,
           \<lparr>fv_path = path, fv_accepted = True, fv_rejection = None\<rparr>))"

section \<open>The invariant\<close>

lemma validate_resolution_iff:
  "validate_resolution s cid r = Inr u \<longleftrightarrow>
     cid \<in> set (bt_keys (ms_conflicts s)) \<and> (\<forall>o'. r = Custom o' \<longrightarrow> 2 \<le> length (parents o'))"
  by (cases r) (auto simp: validate_resolution_def bt_get_None_iff)

lemma accept_ok:
  assumes "session_ok s" and "validate_resolution s cid r = Inr u"
  shows "session_ok (accept s cid r)"
  using assms unfolding validate_resolution_iff
  by (auto simp: session_ok_def accept_def bt_simps bt_intros split: if_splits)

lemma resolve_one_ok: "session_ok s \<Longrightarrow> session_ok (fst (resolve_one s a))"
  by (auto simp: resolve_one_def accept_ok split: prod.splits sum.splits)

lemma resolve_checked_one_ok: "session_ok s \<Longrightarrow> session_ok (fst (resolve_checked_one checker s a))"
  by (auto simp: resolve_checked_one_def Let_def accept_ok split: prod.splits sum.splits)

lemma resolve_file_one_ok: "session_ok s \<Longrightarrow> session_ok (fst (resolve_file_one s a))"
  by (auto simp: resolve_file_one_def session_ok_def bt_get_None_iff bt_intros split: prod.splits)

interpretation res: batch_processor resolve_one resolve rv_accepted session_ok
proof
  show "session_ok (fst (resolve_one s a))" if "session_ok s" for s a
    by (rule resolve_one_ok [OF that])
qed (auto simp: resolve_one_def accepted_verdict_def rejected_verdict_def split: prod.splits sum.splits)

interpretation chk: batch_processor "resolve_checked_one checker" "resolve_checked checker"
  rv_accepted session_ok
proof
  show "session_ok (fst (resolve_checked_one checker s a))" if "session_ok s" for s a
    by (rule resolve_checked_one_ok [OF that])
qed (auto simp: resolve_checked_one_def accepted_verdict_def rejected_verdict_def Let_def
    split: prod.splits sum.splits if_splits)

interpretation fil: batch_processor resolve_file_one resolve_files fv_accepted session_ok
proof
  show "session_ok (fst (resolve_file_one s a))" if "session_ok s" for s a
    by (rule resolve_file_one_ok [OF that])
qed (auto simp: resolve_file_one_def split: prod.splits if_splits)

text \<open>Starting a session.\<close>

definition conflict_record :: "MergeOutcome \<Rightarrow> (ConflictId \<times> ConflictRecord) list" where
  "conflict_record outcome =
     (case outcome of
        Conflict sig ck b s d \<Rightarrow>
          [(sig, \<lparr>cr_conflict_id = sig, cr_sig_id = sig, cr_kind = ck, cr_base = b, cr_ours = d,
             cr_theirs = s\<rparr>)]
      | _ \<Rightarrow> [])"

lemma partition_outcomes:
  "fold partition_outcome os (auto', cs) =
     (auto' @ filter (\<lambda>outcome. conflict_record outcome = []) os,
      fold (\<lambda>(k, v). bt_insert k v) (concat (map conflict_record os)) cs)"
proof (induction os arbitrary: auto' cs)
  case (Cons outcome os)
  then show ?case by (cases outcome) (simp_all add: conflict_record_def)
qed simp

lemma session_start_eq:
  assumes "merge x log sh dh = Inr out"
  shows "session_start mid x log sh dh =
    Inr \<lparr>ms_merge_id = mid, ms_src_head = sh, ms_dst_head = dh, ms_lca = mo_lca out,
       ms_auto_resolved = filter (\<lambda>outcome. conflict_record outcome = []) (mo_outcomes out),
       ms_conflicts = bt_of_list (concat (map conflict_record (mo_outcomes out))),
       ms_resolutions = [], ms_file_conflicts = [], ms_file_resolutions = [], ms_needs_setfiles = False\<rparr>"
  using assms by (simp add: session_start_def partition_outcomes bt_of_list_def)

lemma set_bt_of_list: "set (bt_of_list kvs) \<subseteq> set kvs"
proof -
  have ins: "set (bt_insert k v m) \<subseteq> insert (k, v) (set m)" for k :: "'a::linorder" and v :: 'b and m
    by (induction k v m rule: bt_insert.induct) auto
  have "set (fold (\<lambda>(k, v). bt_insert k v) kvs m) \<subseteq> set kvs \<union> set m" for m
  proof (induction kvs arbitrary: m)
    case (Cons kv kvs)
    then show ?case
      using ins [of "fst kv" "snd kv" m] by (fastforce simp: case_prod_beta)
  qed simp
  from this [of "[]"] show ?thesis
    by (simp add: bt_of_list_def)
qed

lemma session_start_ok:
  assumes "session_start mid x log sh dh = Inr s"
  shows "session_ok s"
proof -
  obtain out where out: "merge x log sh dh = Inr out"
    using assms by (auto simp: session_start_def)
  have "cr_conflict_id c = cid \<and> cr_sig_id c = cid"
    if "(cid, c) \<in> set (concat (map conflict_record os))" for cid c os
    using that by (auto simp: conflict_record_def split: MergeOutcome.splits)
  then have "\<forall>(cid, c) \<in> set (ms_conflicts s). cr_conflict_id c = cid \<and> cr_sig_id c = cid"
    using assms session_start_eq [OF out]
      set_bt_of_list [of "concat (map conflict_record (mo_outcomes out))"] by fastforce
  then show ?thesis
    using assms session_start_eq [OF out] by (auto simp: session_ok_def bt_keys_def bt_intros)
qed

lemma attach_ok:
  assumes "session_ok s" and "ms_file_resolutions s = []"
  shows "session_ok (attach_file_conflicts s cs flag)"
  using assms set_bt_of_list [of "map (\<lambda>c. (fc_path c, c)) cs"]
  by (auto simp: session_ok_def attach_file_conflicts_def bt_keys_def bt_inv_of_list)

lemma session_reachable_ok: "session_reachable checker x log s \<Longrightarrow> session_ok s"
proof (induction rule: session_reachable.induct)
  case (started mid sh dh s cs flag)
  then have "ms_file_resolutions s = []"
    by (auto simp: session_start_def partition_outcomes)
  then show ?case
    using attach_ok session_start_ok started by blast
qed (auto intro: res.batch_inv chk.batch_inv fil.batch_inv)

section \<open>What commit sees\<close>

lemma remaining_ids:
  "session_ok s \<Longrightarrow> map cr_conflict_id (remaining_conflicts s) =
     filter (\<lambda>cid. \<not> settled (bt_get (ms_resolutions s) cid)) (bt_keys (ms_conflicts s))"
proof -
  have "(\<forall>(cid, c) \<in> set cs. cr_conflict_id c = cid) \<Longrightarrow>
      map cr_conflict_id (filter (\<lambda>c. P (cr_conflict_id c)) (map snd cs)) = filter P (map fst cs)" for P cs
    by (induction cs) auto
  moreover assume "session_ok s"
  ultimately show ?thesis
    by (fastforce simp: remaining_conflicts_def session_ok_def bt_keys_def)
qed

lemma remaining_paths:
  "session_ok s \<Longrightarrow> map fc_path (remaining_file_conflicts s) =
     filter (\<lambda>p. \<not> file_settled (bt_get (ms_file_resolutions s) p)) (bt_keys (ms_file_conflicts s))"
proof -
  have "(\<forall>(p, c) \<in> set cs. fc_path c = p) \<Longrightarrow>
      map fc_path (filter (\<lambda>c. P (fc_path c)) (map snd cs)) = filter P (map fst cs)" for P cs
    by (induction cs) auto
  moreover assume "session_ok s"
  ultimately show ?thesis
    by (fastforce simp: remaining_file_conflicts_def session_ok_def bt_keys_def)
qed

lemma sort_key_bt: "bt_inv m \<Longrightarrow> sort_key fst m = m"
  by (simp add: bt_inv_def strict_sorted_iff sort_key_id_if_sorted)

lemma commit_eq:
  assumes "session_ok s"
  shows "commit s =
    (if remaining_conflicts s \<noteq> []
     then Inl (ConflictsRemaining (map cr_conflict_id (remaining_conflicts s)))
     else if remaining_file_conflicts s \<noteq> []
     then Inl (FileConflictsRemaining (map fc_path (remaining_file_conflicts s)))
     else Inr \<lparr>co_resolved = ms_resolutions s, co_resolved_files = ms_file_resolutions s,
               co_needs_setfiles = ms_needs_setfiles s\<rparr>)"
proof -
  have "sort_key fst (ms_resolutions s) = ms_resolutions s"
    "sort_key fst (ms_file_resolutions s) = ms_file_resolutions s"
    using assms by (simp_all add: session_ok_def sort_key_bt)
  then show ?thesis
    using remaining_ids [OF assms, symmetric] remaining_paths [OF assms, symmetric]
    by (simp add: commit_def)
qed

lemma commit_ok:
  assumes ok: "session_ok s" and c: "commit s = Inr out"
  shows "bt_keys (co_resolved out) = bt_keys (ms_conflicts s)"
    and "co_resolved out = ms_resolutions s"
    and "(cid, r) \<in> set (co_resolved out) \<Longrightarrow> r \<noteq> Defer"
proof -
  show out: "co_resolved out = ms_resolutions s"
    using c commit_eq [OF ok] by (auto split: if_splits)
  have "remaining_conflicts s = []"
    using c commit_eq [OF ok] by (auto split: if_splits)
  then have "filter (\<lambda>cid. \<not> settled (bt_get (ms_resolutions s) cid)) (bt_keys (ms_conflicts s)) = []"
    by (simp add: remaining_ids [OF ok, symmetric])
  then have all: "settled (bt_get (ms_resolutions s) cid)" if "cid \<in> set (bt_keys (ms_conflicts s))" for cid
    using that by (simp add: filter_empty_conv)
  have "cid \<in> set (bt_keys (ms_resolutions s))" if "cid \<in> set (bt_keys (ms_conflicts s))" for cid
    using all [OF that] bt_get_None_iff [of "ms_resolutions s" cid]
    by (auto simp: settled_def split: option.splits)
  then have keys: "set (bt_keys (ms_resolutions s)) = set (bt_keys (ms_conflicts s))"
    using ok by (auto simp: session_ok_def)
  then show "bt_keys (co_resolved out) = bt_keys (ms_conflicts s)"
    using ok by (simp add: out session_ok_def bt_inv_def bt_keys_def strict_sorted_equal)
  show "r \<noteq> Defer" if "(cid, r) \<in> set (co_resolved out)"
  proof -
    have r: "bt_get (ms_resolutions s) cid = Some r"
      using that ok by (simp add: out session_ok_def bt_get_Some_iff)
    then have "cid \<in> set (bt_keys (ms_conflicts s))"
      unfolding keys [symmetric] using bt_get_None_iff [of "ms_resolutions s" cid] by simp
    from all [OF this] show ?thesis
      by (auto simp: r settled_def)
  qed
qed

section \<open>Batches of resolutions\<close>

definition valid_resolution :: "MergeSession \<Rightarrow> ConflictId \<times> Resolution \<Rightarrow> bool" where
  "valid_resolution s = (\<lambda>(cid, r). cid \<in> set (bt_keys (ms_conflicts s)) \<and>
     (case r of Custom o' \<Rightarrow> 2 \<le> length (parents o') | _ \<Rightarrow> True))"

lemma validate_valid: "validate_resolution s cid r = Inr u \<longleftrightarrow> valid_resolution s (cid, r)"
  by (cases r) (simp_all add: validate_resolution_iff valid_resolution_def)

lemma valid_accept [simp]: "valid_resolution (accept s cid r) = valid_resolution s"
  by (simp add: valid_resolution_def accept_def fun_eq_iff)

lemma resolve_spec:
  assumes "session_ok s"
  shows "map rv_accepted (snd (resolve s rs)) = map (valid_resolution s) rs \<and>
    bt_get (ms_resolutions (fst (resolve s rs))) =
      bt_get (ms_resolutions s) ++ map_of (rev (filter (valid_resolution s) rs))"
  using assms
proof (induction rs arbitrary: s)
  case (Cons a rs)
  obtain cid r where a: "a = (cid, r)" by (cases a)
  show ?case
  proof (cases "validate_resolution s cid r")
    case (Inl rej)
    then have "\<not> valid_resolution s (cid, r)"
      using validate_valid [of s cid r "()"] by simp
    then show ?thesis
      using Inl Cons.IH [OF Cons.prems] by (auto simp: a rejected_verdict_def split: prod.splits)
  next
    case (Inr u)
    then have v: "valid_resolution s (cid, r)" and ok: "session_ok (accept s cid r)"
      using validate_valid [of s cid r "()"] accept_ok [OF Cons.prems, of cid r u] by simp_all
    have "bt_get (ms_resolutions (accept s cid r)) = (bt_get (ms_resolutions s))(cid \<mapsto> r)"
      using Cons.prems by (simp add: accept_def session_ok_def bt_simps)
    then have "bt_get (ms_resolutions s) ++ map_of (rev (filter (valid_resolution s) rs) @ [(cid, r)]) =
        bt_get (ms_resolutions (accept s cid r)) ++ map_of (rev (filter (valid_resolution s) rs))"
      by (simp add: map_add_assoc)
    then show ?thesis
      using Inr v Cons.IH [OF ok] by (auto simp: a accepted_verdict_def split: prod.splits)
  qed
qed simp

section \<open>Properties\<close>

text \<open>
  C17. \<open>commit\<close> on every branch, for every session that can occur: pending signature conflicts are
  reported first, by id and in order, then pending file conflicts; otherwise the session is
  finalised and the resolutions come in id order, exactly one for every conflict and none of
  them \<open>Defer\<close>.
\<close>

theorem commit_outcome:
  assumes "session_reachable checker x log s"
  shows "case commit s of
      Inl (ConflictsRemaining ids) \<Rightarrow>
        ids = map cr_conflict_id (remaining_conflicts s) \<and> ids \<noteq> []
    | Inl (FileConflictsRemaining paths) \<Rightarrow>
        remaining_conflicts s = [] \<and> paths = map fc_path (remaining_file_conflicts s) \<and> paths \<noteq> []
    | Inr out \<Rightarrow> remaining_conflicts s = [] \<and> remaining_file_conflicts s = [] \<and>
        map fst (co_resolved out) = bt_keys (ms_conflicts s) \<and>
        (\<forall>(cid, r) \<in> set (co_resolved out). r \<noteq> Defer \<and> bt_get (ms_resolutions s) cid = Some r)"
proof -
  have ok: "session_ok s"
    by (rule session_reachable_ok [OF assms])
  then have inv: "bt_inv (ms_resolutions s)"
    by (simp add: session_ok_def)
  show ?thesis
  proof (cases "commit s")
    case (Inl e)
    then show ?thesis
      using commit_eq [OF ok] by (auto split: if_splits)
  next
    case (Inr out)
    note c = commit_ok [OF ok Inr]
    show ?thesis
      using Inr commit_eq [OF ok] c(1,3) c(2) inv
      by (auto simp: bt_keys_def bt_get_Some_iff split: if_splits)
  qed
qed

definition sample_session :: MergeSession where
  "sample_session = (case session_start ''m'' (table_ext pinned_records) (table_log pinned_records)
     (Some ''02'') (Some ''01'') of Inr s \<Rightarrow> attach_file_conflicts s [] False)"

lemma sample_session_reachable:
  "session_reachable checker (table_ext pinned_records) (table_log pinned_records) sample_session"
proof -
  have "\<not> isl (session_start ''m'' (table_ext pinned_records) (table_log pinned_records)
     (Some ''02'') (Some ''01''))"
    by code_simp
  then show ?thesis
    unfolding sample_session_def by (auto split: sum.split intro: session_reachable.started)
qed

theorem commit_outcome_witness:
  "\<exists>ids. commit sample_session = Inl (ConflictsRemaining ids) \<and>
     ids = map cr_conflict_id (remaining_conflicts sample_session)"
proof -
  have "commit sample_session = Inl (ConflictsRemaining [''f''])"
    by code_simp
  then show ?thesis
    using commit_outcome [OF sample_session_reachable] by simp
qed

text \<open>
  A batch of resolutions: every input gets a verdict, accepted exactly when it names a conflict
  of the session and, for a custom operation, has at least two parents; the session then holds, for
  every conflict, the last accepted input, or what it held before if there was none. Rejected
  inputs never clobber earlier resolutions.
\<close>

theorem resolve_batch:
  assumes "session_reachable checker x log s"
  shows "map rv_accepted (snd (resolve s rs)) = map (valid_resolution s) rs \<and>
    bt_get (ms_resolutions (fst (resolve s rs))) =
      bt_get (ms_resolutions s) ++ map_of (rev (filter (valid_resolution s) rs))"
  by (rule resolve_spec [OF session_reachable_ok [OF assms]])

theorem resolve_batch_witness:
  "map rv_accepted (snd (resolve sample_session [(''f'', TakeOurs), (''g'', TakeTheirs)])) = [True, False]"
proof -
  have "valid_resolution sample_session (''f'', TakeOurs)" "\<not> valid_resolution sample_session (''g'', TakeTheirs)"
    by code_simp+
  then show ?thesis
    using resolve_batch [OF sample_session_reachable, of "[(''f'', TakeOurs), (''g'', TakeTheirs)]"] by simp
qed

text \<open>
  C18. The accepted set stays type-correct: after a checked batch that accepted anything, the
  projection of the session's resolutions onto the destination head passes the checker; a batch
  that accepted nothing leaves the session as it was.
\<close>

theorem resolve_checked_type_correct:
  "(let (s', verdicts) = resolve_checked checker s rs in
    if list_ex rv_accepted verdicts then checker (projected_delta s' (ms_resolutions s')) = [] else s' = s)"
proof -
  let ?Q = "\<lambda>s. checker (projected_delta s (ms_resolutions s)) = []"
  have "projected_delta (accept s cid r) = projected_delta s" for s cid r
    by (simp add: accept_def projected_delta_def fun_eq_iff)
  then have "?Q (fst (resolve_checked_one checker s a))"
    if "rv_accepted (snd (resolve_checked_one checker s a))" for s a
    using that by (auto simp: resolve_checked_one_def accept_def rejected_verdict_def Let_def
        split: prod.splits sum.splits if_splits)
  then show ?thesis
    using chk.batch_establishes [of checker ?Q s rs] chk.batch_all_rejected [of checker s rs]
    by (auto split: prod.splits)
qed

end
