(* ===== verification/Vcs_MergeCommit.thy ===== *)
theory Vcs_MergeCommit
  imports Vcs_MergeSession
begin

text \<open>
  Landing a committed session: \<open>merge_pins\<close> of \<open>crates/lex-store/src/branches.rs\<close> and the
  translation of the committed resolutions into the entries of the merge transition, as the commit
  command in \<open>crates/lex-cli/src/merge.rs\<close> (and the HTTP handler, which mirrors it) does it. The
  theorem is that what lands is what \<open>resolve_checked\<close> had type-checked.
\<close>

section \<open>The entries of a merge\<close>

definition map_at :: "ext \<Rightarrow> OpLog \<Rightarrow> OpId option \<Rightarrow> sig_map io_result" where
  "map_at x log h = (case h of Some h' \<Rightarrow> sig_map_at_op x log h' | None \<Rightarrow> Inr [])"

definition pin_outcome :: "sig_map \<Rightarrow> MergeOutcome \<Rightarrow> head_delta \<Rightarrow> head_delta" where
  "pin_outcome dst outcome entries =
     (case outcome of
        Src sig_id stage_id \<Rightarrow> bt_insert sig_id stage_id entries
      | Dst sig_id _ \<Rightarrow> bt_insert sig_id (bt_get dst sig_id) entries
      | Both sig_id _ \<Rightarrow> bt_insert sig_id (bt_get dst sig_id) entries
      | Conflict _ _ _ _ _ \<Rightarrow> entries)"

definition pin_resolution ::
  "sig_map \<Rightarrow> sig_map \<Rightarrow> ConflictId \<times> Resolution \<Rightarrow> head_delta \<Rightarrow> head_delta" where
  "pin_resolution dst src = (\<lambda>(sig, resolution) entries.
     case resolution of
       TakeOurs \<Rightarrow> bt_insert sig (bt_get dst sig) entries
     | TakeTheirs \<Rightarrow> bt_insert sig (bt_get src sig) entries
     | Custom _ \<Rightarrow> entries
     | Defer \<Rightarrow> entries)"

definition merge_pins ::
  "ext \<Rightarrow> OpLog \<Rightarrow> OpId option \<Rightarrow> OpId option \<Rightarrow> MergeOutcome list \<Rightarrow>
   (ConflictId \<times> Resolution) list \<Rightarrow> head_delta io_result" where
  "merge_pins x log dst_head src_head auto' resolved =
     rbind (map_at x log dst_head) (\<lambda>dst.
     rbind (if list_ex (\<lambda>(_, r). r = TakeTheirs) resolved then map_at x log src_head else Inr []) (\<lambda>src.
       Inr (fold (pin_resolution dst src) resolved (fold (pin_outcome dst) auto' []))))"

datatype LandError =
    LandIo io_error
  | NoTarget OperationKind               \<comment> \<open>the kind yields no single sig to stage delta\<close>
  | WrongSig SigId ConflictId            \<comment> \<open>the op targets one sig, the conflict is on the other\<close>
  | DeferSlipped                         \<comment> \<open>internal: past the commit gate\<close>

fun add_customs ::
  "(ConflictId \<times> Resolution) list \<Rightarrow> head_delta \<Rightarrow> LandError + head_delta" where
  "add_customs [] entries = Inr entries"
| "add_customs ((cid, resolution) # rest) entries =
     (case resolution of
        TakeOurs \<Rightarrow> add_customs rest entries
      | TakeTheirs \<Rightarrow> add_customs rest entries
      | Custom o' \<Rightarrow>
          (case merge_target (kind o') of
             None \<Rightarrow> Inl (NoTarget (kind o'))
           | Some (sig, stage) \<Rightarrow>
               if sig \<noteq> cid then Inl (WrongSig sig cid)
               else add_customs rest (bt_insert cid stage entries))
      | Defer \<Rightarrow> Inl DeferSlipped)"

definition merge_entries ::
  "ext \<Rightarrow> OpLog \<Rightarrow> MergeSession \<Rightarrow> MergeCommitOutput \<Rightarrow> LandError + head_delta" where
  "merge_entries x log s out =
     (case merge_pins x log (ms_dst_head s) (ms_src_head s) (ms_auto_resolved s) (co_resolved out) of
        Inl e \<Rightarrow> Inl (LandIo e)
      | Inr entries \<Rightarrow> add_customs (co_resolved out) entries)"

text \<open>The operation and the transition that land.\<close>

definition merge_op :: "MergeSession \<Rightarrow> head_delta \<Rightarrow> Operation \<times> StageTransition" where
  "merge_op s entries =
     (op_new (Merge (length entries))
        ((case ms_dst_head s of Some d \<Rightarrow> [d] | None \<Rightarrow> []) @
         (case ms_src_head s of Some h \<Rightarrow> [h] | None \<Rightarrow> [])),
      MergeEntries entries)"

section \<open>Folds of keyed updates\<close>

text \<open>Every loop above visits a key once and inserts at most that key.\<close>

lemma fold_keyed:
  assumes "distinct (map fst xs)" and "bt_inv m"
    and "\<And>k v m. (k, v) \<in> set xs \<Longrightarrow> bt_inv m \<Longrightarrow>
      step (k, v) m = (case g k v of None \<Rightarrow> m | Some w \<Rightarrow> bt_insert k w m)"
  shows "bt_inv (fold step xs m) \<and> bt_get (fold step xs m) k =
    (case Option.bind (map_of xs k) (g k) of None \<Rightarrow> bt_get m k | Some w \<Rightarrow> Some w)"
  using assms
proof (induction xs arbitrary: m)
  case (Cons kv xs)
  obtain k' v where kv: "kv = (k', v)" by (cases kv)
  let ?m = "case g k' v of None \<Rightarrow> m | Some w \<Rightarrow> bt_insert k' w m"
  have st: "step (k', v) m = ?m"
    using Cons.prems(2,3) by (simp add: kv)
  have inv: "bt_inv ?m"
    using Cons.prems(2) by (auto simp: bt_intros split: option.splits)
  have "map_of xs k' = None"
    using Cons.prems(1) by (auto simp: kv map_of_eq_None_iff)
  then show ?case
    using Cons.IH [OF _ inv] Cons.prems st
    by (cases "k = k'") (auto simp: kv bt_simps split: option.splits)
qed simp

definition auto_value :: "MergeOutcome \<Rightarrow> StageId option option" where
  "auto_value outcome = (case outcome of Src _ stage \<Rightarrow> Some stage | _ \<Rightarrow> None)"

definition pin_value :: "sig_map \<Rightarrow> MergeOutcome \<Rightarrow> StageId option option" where
  "pin_value dst outcome =
     (case outcome of Src _ stage \<Rightarrow> Some stage | Dst sig _ \<Rightarrow> Some (bt_get dst sig)
      | Both sig _ \<Rightarrow> Some (bt_get dst sig) | Conflict _ _ _ _ _ \<Rightarrow> None)"

abbreviation keyed :: "MergeOutcome list \<Rightarrow> (SigId \<times> MergeOutcome) list" where
  "keyed os \<equiv> map (\<lambda>outcome. (outcome_sig outcome, outcome)) os"

lemma auto_delta_get:
  assumes "distinct (map outcome_sig os)"
  shows "bt_inv (auto_delta os) \<and> bt_get (auto_delta os) k = Option.bind (map_of (keyed os) k) auto_value"
proof -
  have "auto_delta os = fold (\<lambda>(k, outcome) m. case auto_value outcome of None \<Rightarrow> m | Some w \<Rightarrow> bt_insert k w m)
      (keyed os) []"
    unfolding auto_delta_def fold_map o_def
    by (intro fold_cong refl) (auto simp: auto_value_def fun_eq_iff split: MergeOutcome.splits)
  then show ?thesis
    using fold_keyed [of "keyed os" "[]"
      "\<lambda>(k, outcome) m. case auto_value outcome of None \<Rightarrow> m | Some w \<Rightarrow> bt_insert k w m"
      "\<lambda>_. auto_value" k] assms by (auto simp: o_def split: option.splits)
qed

lemma pins_get:
  assumes "distinct (map outcome_sig os)"
  shows "bt_inv (fold (pin_outcome dst) os []) \<and>
    bt_get (fold (pin_outcome dst) os []) k = Option.bind (map_of (keyed os) k) (pin_value dst)"
proof -
  have "fold (pin_outcome dst) os [] =
      fold (\<lambda>(k, outcome) m. case pin_value dst outcome of None \<Rightarrow> m | Some w \<Rightarrow> bt_insert k w m) (keyed os) []"
    unfolding fold_map o_def
    by (intro fold_cong refl)
      (auto simp: pin_value_def pin_outcome_def fun_eq_iff split: MergeOutcome.splits)
  then show ?thesis
    using fold_keyed [of "keyed os" "[]"
      "\<lambda>(k, outcome) m. case pin_value dst outcome of None \<Rightarrow> m | Some w \<Rightarrow> bt_insert k w m"
      "\<lambda>_. pin_value dst" k] assms by (auto simp: o_def split: option.splits)
qed

lemma bt_get_of_list: "distinct (map fst kvs) \<Longrightarrow> bt_get (bt_of_list kvs) k = map_of kvs k"
  using fold_keyed [of kvs "[]" "\<lambda>(k, v). bt_insert k v" "\<lambda>_. Some" k]
  by (auto simp: bt_of_list_def split: option.splits)

definition resolution_value :: "sig_map \<Rightarrow> sig_map \<Rightarrow> SigId \<Rightarrow> Resolution \<Rightarrow> StageId option option" where
  "resolution_value dst src k r =
     (case r of TakeOurs \<Rightarrow> Some (bt_get dst k) | TakeTheirs \<Rightarrow> Some (bt_get src k) | _ \<Rightarrow> None)"

definition custom_value :: "Resolution \<Rightarrow> StageId option option" where
  "custom_value r = (case r of Custom o' \<Rightarrow> map_option snd (merge_target (kind o')) | _ \<Rightarrow> None)"

lemma resolution_pins_get:
  assumes "distinct (map fst rs)" and "bt_inv m"
  shows "bt_inv (fold (pin_resolution dst src) rs m) \<and> bt_get (fold (pin_resolution dst src) rs m) k =
    (case Option.bind (map_of rs k) (resolution_value dst src k) of None \<Rightarrow> bt_get m k | Some w \<Rightarrow> Some w)"
  by (rule fold_keyed [OF assms])
    (auto simp: pin_resolution_def resolution_value_def split: Resolution.splits)

lemma add_customs_fold:
  "add_customs rs m = Inr m' \<Longrightarrow>
   m' = fold (\<lambda>(cid, r) m. case custom_value r of None \<Rightarrow> m | Some w \<Rightarrow> bt_insert cid w m) rs m \<and>
   (\<forall>(cid, r) \<in> set rs. r \<noteq> Defer \<and>
      (\<forall>o'. r = Custom o' \<longrightarrow> (\<exists>stage. merge_target (kind o') = Some (cid, stage))))"
proof (induction rs m rule: add_customs.induct)
  case (2 cid r rest entries)
  show ?case
  proof (cases r)
    case (Custom o')
    obtain stage where t: "merge_target (kind o') = Some (cid, stage)"
      "add_customs rest (bt_insert cid stage entries) = Inr m'"
      using "2.prems" Custom by (auto split: option.splits if_splits)
    then show ?thesis
      using "2.IH"(3) [OF Custom t(1) refl] Custom by (simp add: custom_value_def)
  qed (use "2" in \<open>simp_all add: custom_value_def\<close>)
qed simp

lemma customs_get:
  assumes "distinct (map fst rs)" and "bt_inv m" and "add_customs rs m = Inr m'"
  shows "bt_inv m' \<and> bt_get m' k =
    (case Option.bind (map_of rs k) custom_value of None \<Rightarrow> bt_get m k | Some w \<Rightarrow> Some w)"
  using add_customs_fold [OF assms(3)]
    fold_keyed [OF assms(1,2), of "\<lambda>(cid, r) m. case custom_value r of None \<Rightarrow> m | Some w \<Rightarrow> bt_insert cid w m"
      "\<lambda>_. custom_value" k]
  by auto

section \<open>The two deltas, key by key\<close>

definition conflict_value ::
  "(ConflictId, Resolution) btree_map \<Rightarrow> ConflictId \<Rightarrow> ConflictRecord \<Rightarrow> StageId option option" where
  "conflict_value rs cid record =
     (case bt_get rs cid of
        Some TakeTheirs \<Rightarrow> Some (cr_theirs record)
      | Some (Custom o') \<Rightarrow> map_option snd (merge_target (kind o'))
      | _ \<Rightarrow> None)"

lemma projected_delta_get:
  assumes "session_ok s" and "distinct (map outcome_sig (ms_auto_resolved s))"
    and "\<forall>cid o' sig stage. bt_get (ms_resolutions s) cid = Some (Custom o') \<longrightarrow>
      merge_target (kind o') = Some (sig, stage) \<longrightarrow> sig = cid"
  defines "delta \<equiv> projected_delta s (ms_resolutions s)"
  shows "bt_inv delta \<and> bt_get delta k =
    (case Option.bind (bt_get (ms_conflicts s) k) (conflict_value (ms_resolutions s) k) of
       None \<Rightarrow> Option.bind (map_of (keyed (ms_auto_resolved s)) k) auto_value
     | Some w \<Rightarrow> Some w)"
proof -
  have auto': "bt_inv (auto_delta (ms_auto_resolved s))"
    "bt_get (auto_delta (ms_auto_resolved s)) k =
      Option.bind (map_of (keyed (ms_auto_resolved s)) k) auto_value"
    using auto_delta_get [OF assms(2)] by blast+
  have "distinct (map fst (ms_conflicts s))"
    using assms(1) by (simp add: session_ok_def bt_inv_distinct)
  then have "bt_inv delta \<and> bt_get delta k =
    (case Option.bind (map_of (ms_conflicts s) k) (conflict_value (ms_resolutions s) k) of
       None \<Rightarrow> bt_get (auto_delta (ms_auto_resolved s)) k | Some w \<Rightarrow> Some w)"
    unfolding delta_def projected_delta_def
  proof (rule fold_keyed [OF _ auto'(1)])
    fix cid c m
    assume c: "(cid, c) \<in> set (ms_conflicts s)"
    then have "cr_sig_id c = cid"
      using assms(1) by (auto simp: session_ok_def)
    then show "conflict_delta (ms_resolutions s) (cid, c) m =
        (case conflict_value (ms_resolutions s) cid c of None \<Rightarrow> m | Some w \<Rightarrow> bt_insert cid w m)"
      using assms(3) by (auto simp: conflict_delta_def conflict_value_def
          split: option.splits Resolution.splits)
  qed
  then show ?thesis
    unfolding auto'(2) by (simp add: bt_get_def [of "ms_conflicts s"])
qed

lemma merge_entries_get:
  assumes "merge_entries x log s out = Inr entries" and "co_resolved out = ms_resolutions s"
    and "session_ok s" and "distinct (map outcome_sig (ms_auto_resolved s))"
    and "map_at x log (ms_dst_head s) = Inr md" and "map_at x log (ms_src_head s) = Inr ms"
  shows "bt_inv entries \<and> bt_get entries k =
    (case bt_get (ms_resolutions s) k of
       Some TakeOurs \<Rightarrow> Some (bt_get md k)
     | Some TakeTheirs \<Rightarrow> Some (bt_get ms k)
     | Some (Custom o') \<Rightarrow> map_option snd (merge_target (kind o'))
     | _ \<Rightarrow> Option.bind (map_of (keyed (ms_auto_resolved s)) k) (pin_value md))"
    and "(cid, r) \<in> set (ms_resolutions s) \<Longrightarrow> r \<noteq> Defer \<and>
      (\<forall>o'. r = Custom o' \<longrightarrow> (\<exists>stage. merge_target (kind o') = Some (cid, stage)))"
proof -
  let ?rs = "ms_resolutions s"
  have dist: "distinct (map fst ?rs)"
    using assms(3) by (simp add: session_ok_def bt_inv_distinct)
  obtain src where src: "src = (if list_ex (\<lambda>(_, r). r = TakeTheirs) ?rs then ms else [])"
    and add: "add_customs ?rs (fold (pin_resolution md src) ?rs
      (fold (pin_outcome md) (ms_auto_resolved s) [])) = Inr entries"
    using assms(1,5,6) by (auto simp: merge_entries_def merge_pins_def assms(2) split: if_splits)
  note a = add_customs_fold [OF add]
  then show "r \<noteq> Defer \<and> (\<forall>o'. r = Custom o' \<longrightarrow> (\<exists>stage. merge_target (kind o') = Some (cid, stage)))"
    if "(cid, r) \<in> set ?rs"
    using that by fast
  have theirs: "src = ms" if "map_of ?rs k = Some TakeTheirs"
    using map_of_SomeD [OF that] by (auto simp: src list_ex_iff)
  have custom: "\<exists>stage. merge_target (kind o') = Some (k, stage)" if "map_of ?rs k = Some (Custom o')" for o'
    using map_of_SomeD [OF that] a by fast
  have no_defer: "map_of ?rs k \<noteq> Some Defer"
    using a map_of_SomeD [of ?rs k Defer] by fast
  note pins = pins_get [OF assms(4), of md]
  note res = resolution_pins_get [OF dist, of "fold (pin_outcome md) (ms_auto_resolved s) []" md src]
  show "bt_inv entries \<and> bt_get entries k =
    (case bt_get ?rs k of
       Some TakeOurs \<Rightarrow> Some (bt_get md k)
     | Some TakeTheirs \<Rightarrow> Some (bt_get ms k)
     | Some (Custom o') \<Rightarrow> map_option snd (merge_target (kind o'))
     | _ \<Rightarrow> Option.bind (map_of (keyed (ms_auto_resolved s)) k) (pin_value md))"
    using customs_get [OF dist _ add, of k] res [of k] pins [of k] theirs custom no_defer
    by (auto simp: bt_get_def [of ?rs] custom_value_def resolution_value_def
        split: option.splits Resolution.splits)
qed

section \<open>Where the session comes from\<close>

definition session_core :: "MergeSession \<Rightarrow> _" where
  "session_core s = (ms_src_head s, ms_dst_head s, ms_lca s, ms_auto_resolved s, ms_conflicts s)"

lemma session_core_accept [simp]: "session_core (accept s cid r) = session_core s"
  by (simp add: session_core_def accept_def)

lemma session_core_batches:
  "session_core (fst (resolve s rs)) = session_core s"
  "session_core (fst (resolve_checked checker s rs)) = session_core s"
  "session_core (fst (resolve_files s frs)) = session_core s"
proof -
  let ?R = "\<lambda>s t. session_core t = session_core s"
  have "?R s (fst (resolve_one s a))" "?R s (fst (resolve_checked_one checker s a))" for s a
    by (auto simp: resolve_one_def resolve_checked_one_def Let_def split: prod.splits sum.splits)
  then show "session_core (fst (resolve s rs)) = session_core s"
    "session_core (fst (resolve_checked checker s rs)) = session_core s"
    using res.batch_rel [of ?R s rs] chk.batch_rel [of ?R checker s rs] by simp_all
  have "?R s (fst (resolve_file_one s a))" for s a
    by (auto simp: resolve_file_one_def session_core_def split: prod.splits)
  then show "session_core (fst (resolve_files s frs)) = session_core s"
    using fil.batch_rel [of ?R s frs] by simp
qed

lemma session_from_merge:
  assumes "session_reachable checker x log s"
  shows "\<exists>out. merge x log (ms_src_head s) (ms_dst_head s) = Inr out \<and> ms_lca s = mo_lca out \<and>
    ms_auto_resolved s = filter (\<lambda>outcome. conflict_record outcome = []) (mo_outcomes out) \<and>
    ms_conflicts s = bt_of_list (concat (map conflict_record (mo_outcomes out)))"
  using assms
proof (induction rule: session_reachable.induct)
  case (started mid sh dh s cs flag)
  then obtain out where out: "merge x log sh dh = Inr out"
    by (auto simp: session_start_def)
  show ?case
    using started session_start_eq [OF out, of mid] out by (auto simp: attach_file_conflicts_def)
qed (use session_core_batches in \<open>simp_all add: session_core_def\<close>)

lemma keys_conflicts:
  "distinct (map outcome_sig os) \<Longrightarrow> distinct (map fst (concat (map conflict_record os)))"
  "fst ` set (concat (map conflict_record os)) = outcome_sig ` {o' \<in> set os. conflict_record o' \<noteq> []}"
proof -
  have "map fst (conflict_record outcome) = (if conflict_record outcome = [] then [] else [outcome_sig outcome])"
    for outcome by (auto simp: conflict_record_def split: MergeOutcome.splits)
  then have eq: "map fst (concat (map conflict_record os)) =
      map outcome_sig (filter (\<lambda>o'. conflict_record o' \<noteq> []) os)" for os
    by (induction os) (simp_all add: map_concat)
  show "distinct (map fst (concat (map conflict_record os)))" if "distinct (map outcome_sig os)"
    unfolding eq using that by (rule distinct_map_filter)
  show "fst ` set (concat (map conflict_record os)) = outcome_sig ` {o' \<in> set os. conflict_record o' \<noteq> []}"
    using arg_cong [OF eq [of os], of set] by auto
qed

text \<open>The three places a signature can stand in a session.\<close>

lemma session_lookup:
  assumes dist: "distinct (map outcome_sig os)"
    and auto': "au = filter (\<lambda>outcome. conflict_record outcome = []) os"
    and conf: "cs = bt_of_list (concat (map conflict_record os))"
  obtains
    (absent) "map_of (keyed au) k = None" "bt_get cs k = None"
  | (decided) outcome where "outcome \<in> set os" "map_of (keyed au) k = Some outcome"
      "outcome_sig outcome = k" "conflict_record outcome = []" "bt_get cs k = None"
  | (conflict) ck b sv dv where "Conflict k ck b sv dv \<in> set os" "map_of (keyed au) k = None"
      "\<exists>record. bt_get cs k = Some record \<and> cr_theirs record = sv"
proof (cases "\<exists>outcome \<in> set os. outcome_sig outcome = k")
  case False
  then have "map_of (keyed au) k = None" "map_of (concat (map conflict_record os)) k = None"
    using keys_conflicts(2) [of os] by (auto simp: auto' map_of_eq_None_iff)
  then show ?thesis
    using absent by (simp add: conf bt_get_of_list keys_conflicts(1) [OF dist])
next
  case True
  then obtain outcome where o': "outcome \<in> set os" "outcome_sig outcome = k" by blast
  have uniq: "q = outcome" if "q \<in> set os" "outcome_sig q = k" for q
    using dist o' that by (auto simp: distinct_map inj_on_def)
  have da: "distinct (map fst (keyed au))"
    using dist by (simp add: auto' o_def distinct_map_filter)
  show ?thesis
  proof (cases "conflict_record outcome = []")
    case True
    have "map_of (keyed au) k = Some outcome"
      using True o' by (intro map_of_is_SomeI [OF da]) (auto simp: auto')
    moreover have "k \<notin> fst ` set (concat (map conflict_record os))"
      unfolding keys_conflicts(2) using uniq True by blast
    then have "bt_get cs k = None"
      by (simp add: conf bt_get_of_list [OF keys_conflicts(1) [OF dist]] map_of_eq_None_iff)
    ultimately show ?thesis
      using decided o' True by blast
  next
    case False
    then obtain ck b sv dv where q: "outcome = Conflict k ck b sv dv"
      using o'(2) by (cases outcome) (auto simp: conflict_record_def)
    have "map_of (keyed au) k = None"
      using uniq False by (fastforce simp: auto' map_of_eq_None_iff)
    moreover have "map_of (concat (map conflict_record os)) k =
        Some \<lparr>cr_conflict_id = k, cr_sig_id = k, cr_kind = ck, cr_base = b, cr_ours = dv, cr_theirs = sv\<rparr>"
      by (rule map_of_is_SomeI [OF keys_conflicts(1) [OF dist]])
        (use o'(1) q in \<open>force simp: conflict_record_def\<close>)
    ultimately show ?thesis
      using conflict o'(1) q by (simp add: conf bt_get_of_list [OF keys_conflicts(1) [OF dist]])
  qed
qed

section \<open>What lands is what was checked\<close>

lemma linear_map_at: "linear_log x V log \<Longrightarrow> \<exists>m. sig_map_at_op x log h = Inr m \<and> bt_inv m"
proof -
  assume lin: "linear_log x V log"
  then have ok: "store_ok x V log" by (simp add: linear_log_def)
  obtain bs where "walk_back x log h None = Inr bs"
    by (rule walk_back_ok [OF ok, of h]) blast
  from linear_walk(2,3) [OF lin this] show ?thesis by blast
qed

lemma linear_outcomes:
  assumes lin: "linear_log x V log" and m: "merge x log (Some sh) (Some dh) = Inr out"
    and "sig_map_at_op x log sh = Inr ms" and "sig_map_at_op x log dh = Inr md"
  shows "distinct (map outcome_sig (mo_outcomes out))"
    and "\<exists>mb. \<forall>outcome \<in> set (mo_outcomes out). outcome_correct mb ms md outcome"
proof -
  have ok: "store_ok x V log"
    using lin by (simp add: linear_log_def)
  obtain mb where mb: "base_map x log (mo_lca out) = Inr mb"
    using linear_map_at [OF lin] by (cases "mo_lca out") (auto simp: base_map_def)
  from merge_heads_correct [OF lin m mb assms(3,4)]
  show "\<exists>mb. \<forall>outcome \<in> set (mo_outcomes out). outcome_correct mb ms md outcome" by blast
  obtain src where src: "side_ops x log (Some sh) (mo_lca out) = Inr src"
    by (rule side_replay [OF lin mb lca_base(1) [OF ok m]])
  obtain dst where dst: "side_ops x log (Some dh) (mo_lca out) = Inr dst"
    by (rule side_replay [OF lin mb lca_base(2) [OF ok m]])
  show "distinct (map outcome_sig (mo_outcomes out))"
    unfolding outcomes_sigs [OF m src dst]
    using strict_sorted_bs_of_list strict_sorted_iff by blast
qed

lemma landed_values:
  assumes lin: "linear_log x V log" and reach: "session_reachable checker x log s"
    and heads: "ms_src_head s = Some sh" "ms_dst_head s = Some dh"
    and co: "commit s = Inr out" and en: "merge_entries x log s out = Inr entries"
    and md: "sig_map_at_op x log dh = Inr md"
  defines "delta \<equiv> projected_delta s (ms_resolutions s)"
  shows "bt_inv entries \<and> bt_inv delta \<and>
    (case bt_get entries k of Some v \<Rightarrow> v | None \<Rightarrow> bt_get md k) =
    (case bt_get delta k of Some v \<Rightarrow> v | None \<Rightarrow> bt_get md k)"
proof -
  have ok: "session_ok s"
    by (rule session_reachable_ok [OF reach])
  obtain ms where ms: "sig_map_at_op x log sh = Inr ms"
    using linear_map_at [OF lin] by blast
  obtain mo where mo: "merge x log (Some sh) (Some dh) = Inr mo"
    and au: "ms_auto_resolved s = filter (\<lambda>outcome. conflict_record outcome = []) (mo_outcomes mo)"
    and cs: "ms_conflicts s = bt_of_list (concat (map conflict_record (mo_outcomes mo)))"
    using session_from_merge [OF reach] heads by auto
  note lo = linear_outcomes [OF lin mo ms md]
  have da: "distinct (map outcome_sig (ms_auto_resolved s))"
    using lo(1) by (simp add: au distinct_map_filter)
  note c = commit_ok [OF ok co]
  have at: "map_at x log (ms_dst_head s) = Inr md" "map_at x log (ms_src_head s) = Inr ms"
    by (simp_all add: map_at_def heads md ms)
  note e = merge_entries_get [OF en c(2) ok da at]
  have target: "\<exists>stage. merge_target (kind o') = Some (cid, stage)"
    if "bt_get (ms_resolutions s) cid = Some (Custom o')" for cid o'
    using e(2) bt_get_SomeD [OF that] by blast
  have "\<forall>cid o' sig stage. bt_get (ms_resolutions s) cid = Some (Custom o') \<longrightarrow>
      merge_target (kind o') = Some (sig, stage) \<longrightarrow> sig = cid"
    using target by fastforce
  note d = projected_delta_get [OF ok da this, folded delta_def]
  have settled: "bt_get (ms_resolutions s) k = None \<longleftrightarrow> bt_get (ms_conflicts s) k = None"
    using c(1,2) by (simp add: bt_get_None_iff)
  have no_defer: "bt_get (ms_resolutions s) k \<noteq> Some Defer"
    using e(2) bt_get_SomeD [of "ms_resolutions s" k Defer] by blast
  have "(case bt_get entries k of Some v \<Rightarrow> v | None \<Rightarrow> bt_get md k) =
    (case bt_get delta k of Some v \<Rightarrow> v | None \<Rightarrow> bt_get md k)"
  proof (cases rule: session_lookup [OF lo(1) au cs, of k, case_names absent decided conflict])
    case absent
    then show ?thesis
      using d [of k] e(1) [of k] target settled by auto
  next
    case (decided outcome)
    then show ?thesis
      using d [of k] e(1) [of k] settled
      by (auto simp: auto_value_def pin_value_def conflict_record_def split: MergeOutcome.splits)
  next
    case (conflict ck b sv dv)
    then have theirs: "sv = bt_get ms k"
      using lo(2) by (auto simp: outcome_correct_def)
    obtain r where r: "bt_get (ms_resolutions s) k = Some r"
      using settled conflict(3) by auto
    show ?thesis
      using d [of k] e(1) [of k] target [of k] no_defer conflict(2,3) theirs
      by (auto simp: r conflict_value_def split: Resolution.splits)
  qed
  then show ?thesis
    using d [of k] e(1) [of k] target by auto
qed

section \<open>Properties\<close>


definition fork_records :: "OperationRecord list" where
  "fork_records = take 3 pinned_records"

definition settled_session :: MergeSession where
  "settled_session =
     (case session_start ''m'' (table_ext fork_records) (table_log fork_records)
        (Some ''02'') (Some ''01'') of
        Inr s \<Rightarrow> fst (resolve (attach_file_conflicts s [] False) [(''f'', TakeTheirs)]))"

lemma settled_session_reachable:
  "session_reachable checker (table_ext fork_records) (table_log fork_records) settled_session"
proof -
  have "\<not> isl (session_start ''m'' (table_ext fork_records) (table_log fork_records) (Some ''02'') (Some ''01''))"
    by code_simp
  then show ?thesis
    unfolding settled_session_def
    by (auto simp del: resolve.simps split: sum.split
        intro: session_reachable.started session_reachable.resolved)
qed

lemma linear_fork: "linear_log (table_ext fork_records) (table_view fork_records) (table_log fork_records)"
proof -
  let ?V = "table_view fork_records" and ?log = "table_log fork_records"
  have ids: "stored_ids ?log = {''00'', ''01'', ''02''}"
    by code_simp
  have ok: "store_ok (table_ext fork_records) ?V ?log"
    by code_simp
  have ps: "\<forall>i \<in> {''00'', ''01'', ''02''}. length (parents (op (?V i))) \<le> 1 \<and> regular (?V i) \<and>
      (\<forall>p \<in> set (parents (op (?V i))). p = ''00'' \<and> i \<noteq> ''00'')"
    by code_simp
  have "single_parent (log_view ?V ?log)"
    using ps by (auto simp: single_parent_def log_view_def ids split: if_splits)
  moreover have "acyclic_view (log_view ?V ?log)"
    unfolding acyclic_view_def
  proof (intro exI allI impI)
    fix i r p
    assume i: "log_view ?V ?log i = Some r" and p: "p \<in> set (parents (op r))"
    have "i \<in> {''00'', ''01'', ''02''}" "r = ?V i"
      using i by (auto simp: log_view_def ids simp del: insert_iff split: if_splits)
    then have "p = ''00'' \<and> i \<noteq> ''00''"
      using ps p by blast
    then show "(if p = ''00'' then 0 else 1) < (if i = ''00'' then 0 else 1 :: nat)"
      by simp
  qed
  ultimately show ?thesis
    using ok ps by (simp add: linear_log_def ids)
qed


end
