(* ===== verification/Vcs_Predicate.thy ===== *)
theory Vcs_Predicate
  imports Vcs_OpDag
begin

text \<open>
  Predicates over the operation log, \<open>crates/lex-vcs/src/predicate.rs\<close>: the saved queries, their
  hand-written JSON form and the evaluator, which precomputes every ancestry a query mentions and
  narrows the scan to one of them where it can. The intent resolver is an argument, as in the
  source; JSON values are those of \<open>serde_json\<close>, with objects as association lists.
\<close>

section \<open>Predicates and their JSON form\<close>

datatype Predicate =
    All
  | Intent IntentId
  | Session SessionId
  | AncestorOf OpId
  | And "Predicate list"
  | Or "Predicate list"
  | Not Predicate

datatype Value =
    Null
  | Bool bool
  | Number int
  | String string
  | Array "Value list"
  | Object "(string \<times> Value) list"

fun to_value :: "Predicate \<Rightarrow> Value" where
  "to_value All = Object [(''predicate'', String ''all'')]"
| "to_value (Intent i) =
     Object [(''predicate'', String ''intent''), (''intent_id'', String i)]"
| "to_value (Session i) =
     Object [(''predicate'', String ''session''), (''session_id'', String i)]"
| "to_value (AncestorOf oid) =
     Object [(''predicate'', String ''ancestor_of''), (''op_id'', String oid)]"
| "to_value (And ps) =
     Object [(''predicate'', String ''and''), (''clauses'', Array (map to_value ps))]"
| "to_value (Or ps) =
     Object [(''predicate'', String ''or''), (''clauses'', Array (map to_value ps))]"
| "to_value (Not p) =
     Object [(''predicate'', String ''not''), (''clause'', to_value p)]"

fun as_object :: "Value \<Rightarrow> (string \<times> Value) list option" where
  "as_object (Object obj) = Some obj"
| "as_object _ = None"

fun as_str :: "Value \<Rightarrow> string option" where
  "as_str (String s) = Some s"
| "as_str _ = None"

fun as_array :: "Value \<Rightarrow> Value list option" where
  "as_array (Array vs) = Some vs"
| "as_array _ = None"

definition ok_or :: "'e \<Rightarrow> 'a option \<Rightarrow> 'e + 'a" where
  "ok_or e o' = (case o' of Some v \<Rightarrow> Inr v | None \<Rightarrow> Inl e)"

lemma ok_or_simps [simp]: "ok_or e (Some v) = Inr v" "ok_or e None = Inl e"
  by (simp_all add: ok_or_def)

lemma ok_or_Inr: "ok_or e o' = Inr v \<longleftrightarrow> o' = Some v"
  by (cases o') simp_all

lemma as_object_iff: "as_object v = Some obj \<longleftrightarrow> v = Object obj"
  by (cases v) simp_all

definition str_field :: "(string \<times> Value) list \<Rightarrow> string \<Rightarrow> string option" where
  "str_field obj k = Option.bind (map_of obj k) as_str"

lemma size_map_of: "map_of obj k = Some v \<Longrightarrow> size v < size (Object obj)"
proof -
  assume "map_of obj k = Some v"
  then have "(k, v) \<in> set obj" by (rule map_of_SomeD)
  then have "size v < size_list (size_prod (\<lambda>_. 0) size) obj"
    by (induction obj) auto
  then show ?thesis by simp
qed

lemma size_as_array: "as_array w = Some vs \<Longrightarrow> v \<in> set vs \<Longrightarrow> size v < size w"
proof -
  have "v \<in> set vs \<Longrightarrow> size v < Suc (size_list size vs)"
    by (induction vs) auto
  then show "as_array w = Some vs \<Longrightarrow> v \<in> set vs \<Longrightarrow> size v < size w"
    by (cases w) auto
qed

function from_value :: "Value \<Rightarrow> string + Predicate" where
  "from_value v =
     rbind (ok_or ''predicate must be a JSON object'' (as_object v)) (\<lambda>obj.
     rbind (ok_or ''predicate object missing 'predicate' tag'' (str_field obj ''predicate'')) (\<lambda>tag.
       if tag = ''all'' then Inr All
       else if tag = ''intent'' then
         rbind (ok_or ''intent: missing intent_id'' (str_field obj ''intent_id'')) (\<lambda>i. Inr (Intent i))
       else if tag = ''session'' then
         rbind (ok_or ''session: missing session_id'' (str_field obj ''session_id'')) (\<lambda>i. Inr (Session i))
       else if tag = ''ancestor_of'' then
         rbind (ok_or ''ancestor_of: missing op_id'' (str_field obj ''op_id'')) (\<lambda>i. Inr (AncestorOf i))
       else if tag = ''and'' \<or> tag = ''or'' then
         rbind (ok_or (tag @ '': missing 'clauses' array'') (Option.bind (map_of obj ''clauses'') as_array))
           (\<lambda>arr. rbind (rmap from_value arr) (\<lambda>ps. Inr (if tag = ''and'' then And ps else Or ps)))
       else if tag = ''not'' then
         rbind (ok_or (''not: missing 'clause'' @ [CHR 0x27]) (map_of obj ''clause''))
           (\<lambda>inner. rbind (from_value inner) (\<lambda>p. Inr (Not p)))
       else Inl (''unknown predicate tag: '' @ tag)))"
  by pat_completeness auto

termination
proof (relation "measure size")
  show "(w, v) \<in> measure size"
    if obj: "ok_or ''predicate must be a JSON object'' (as_object v) = Inr obj"
      and arr: "ok_or (tag @ '': missing 'clauses' array'')
        (Option.bind (map_of obj ''clauses'') as_array) = Inr arr"
      and w: "w \<in> set arr" for v obj tag arr w
  proof -
    obtain u where "map_of obj ''clauses'' = Some u" "as_array u = Some arr"
      using arr by (auto simp: ok_or_Inr bind_eq_Some_conv)
    then have "size w < size u" "size u < size (Object obj)"
      using size_as_array [of u arr w] size_map_of [of obj "''clauses''" u] w by simp_all
    then show ?thesis
      using obj by (simp add: ok_or_Inr as_object_iff)
  qed
  show "(w, v) \<in> measure size"
    if "ok_or ''predicate must be a JSON object'' (as_object v) = Inr obj"
      "ok_or (''not: missing 'clause'' @ [CHR 0x27]) (map_of obj ''clause'') = Inr w" for v obj w
    using that size_map_of [of obj "''clause''" w] by (simp add: ok_or_Inr as_object_iff)
qed simp

declare from_value.simps [simp del]

section \<open>Evaluation\<close>

fun needs_intent_resolution :: "Predicate \<Rightarrow> bool" where
  "needs_intent_resolution (Session _) = True"
| "needs_intent_resolution (And ps) = list_ex needs_intent_resolution ps"
| "needs_intent_resolution (Or ps) = list_ex needs_intent_resolution ps"
| "needs_intent_resolution (Not p) = needs_intent_resolution p"
| "needs_intent_resolution _ = False"

datatype CandidateRoot = AllOps | Ancestry OpId

fun candidate_root :: "Predicate \<Rightarrow> CandidateRoot" where
  "candidate_root (AncestorOf oid) = Ancestry oid"
| "candidate_root (And ps) =
     (case find (\<lambda>r. r \<noteq> AllOps) (map candidate_root ps) of Some r \<Rightarrow> r | None \<Rightarrow> AllOps)"
| "candidate_root _ = AllOps"

type_synonym ancestries = "(OpId, OpId list) btree_map"

fun collect_ancestor_ops :: "ext \<Rightarrow> OpLog \<Rightarrow> Predicate \<Rightarrow> ancestries \<Rightarrow> ancestries io_result"
  and collect_all :: "ext \<Rightarrow> OpLog \<Rightarrow> Predicate list \<Rightarrow> ancestries \<Rightarrow> ancestries io_result" where
  "collect_ancestor_ops x log (AncestorOf oid) out =
     (if bt_get out oid = None then
        rbind (walk_back x log oid None) (\<lambda>rs. Inr (bt_insert oid (bs_of_list (map op_id rs)) out))
      else Inr out)"
| "collect_ancestor_ops x log (And ps) out = collect_all x log ps out"
| "collect_ancestor_ops x log (Or ps) out = collect_all x log ps out"
| "collect_ancestor_ops x log (Not p) out = collect_ancestor_ops x log p out"
| "collect_ancestor_ops x log All out = Inr out"
| "collect_ancestor_ops x log (Intent _) out = Inr out"
| "collect_ancestor_ops x log (Session _) out = Inr out"
| "collect_all x log [] out = Inr out"
| "collect_all x log (p # ps) out =
     rbind (collect_ancestor_ops x log p out) (\<lambda>out'. collect_all x log ps out')"

fun candidate_set :: "ext \<Rightarrow> OpLog \<Rightarrow> CandidateRoot \<Rightarrow> OperationRecord list io_result" where
  "candidate_set x log (Ancestry head) = walk_back x log head None"
| "candidate_set x log AllOps = list_all_ops x log"

text \<open>\<open>resolver\<close> is \<open>IntentResolver::session_of\<close>.\<close>

fun matches ::
  "(IntentId \<Rightarrow> SessionId option) \<Rightarrow> ancestries \<Rightarrow> OperationRecord \<Rightarrow> Predicate \<Rightarrow> bool" where
  "matches resolver anc_sets rec All = True"
| "matches resolver anc_sets rec (Intent i) = (intent_id (op rec) = Some i)"
| "matches resolver anc_sets rec (Session s) =
     (case intent_id (op rec) of
        Some i \<Rightarrow> (case resolver i of Some s' \<Rightarrow> s' = s | None \<Rightarrow> False)
      | None \<Rightarrow> False)"
| "matches resolver anc_sets rec (AncestorOf oid) =
     (case bt_get anc_sets oid of Some ids \<Rightarrow> op_id rec \<in> set ids | None \<Rightarrow> False)"
| "matches resolver anc_sets rec (And ps) = list_all (matches resolver anc_sets rec) ps"
| "matches resolver anc_sets rec (Or ps) = list_ex (matches resolver anc_sets rec) ps"
| "matches resolver anc_sets rec (Not p) = (\<not> matches resolver anc_sets rec p)"

definition evaluate_with_resolver ::
  "ext \<Rightarrow> OpLog \<Rightarrow> Predicate \<Rightarrow> (IntentId \<Rightarrow> SessionId option) \<Rightarrow> OperationRecord list io_result" where
  "evaluate_with_resolver x log p resolver =
     rbind (collect_ancestor_ops x log p []) (\<lambda>anc_sets.
     rbind (candidate_set x log (candidate_root p)) (\<lambda>candidates.
       Inr (filter (\<lambda>r. matches resolver anc_sets r p) candidates)))"

definition null_resolver :: "IntentId \<Rightarrow> SessionId option" where
  "null_resolver i = None"

definition evaluate :: "ext \<Rightarrow> OpLog \<Rightarrow> Predicate \<Rightarrow> OperationRecord list io_result" where
  "evaluate x log p =
     (if needs_intent_resolution p then evaluate_with_resolver x log p null_resolver
      else evaluate_with_resolver x log p null_resolver)"

section \<open>What a predicate means\<close>

fun holds_for ::
  "(OpId \<Rightarrow> OperationRecord option) \<Rightarrow> (IntentId \<Rightarrow> SessionId option) \<Rightarrow> OperationRecord \<Rightarrow>
   Predicate \<Rightarrow> bool" where
  "holds_for M resolver r All \<longleftrightarrow> True"
| "holds_for M resolver r (Intent i) \<longleftrightarrow> intent_id (op r) = Some i"
| "holds_for M resolver r (Session s) \<longleftrightarrow> (\<exists>i. intent_id (op r) = Some i \<and> resolver i = Some s)"
| "holds_for M resolver r (AncestorOf oid) \<longleftrightarrow> anc M oid (op_id r)"
| "holds_for M resolver r (And ps) \<longleftrightarrow> (\<forall>p \<in> set ps. holds_for M resolver r p)"
| "holds_for M resolver r (Or ps) \<longleftrightarrow> (\<exists>p \<in> set ps. holds_for M resolver r p)"
| "holds_for M resolver r (Not p) \<longleftrightarrow> \<not> holds_for M resolver r p"

fun ancestor_ids :: "Predicate \<Rightarrow> OpId set" where
  "ancestor_ids (AncestorOf oid) = {oid}"
| "ancestor_ids (And ps) = (\<Union>p \<in> set ps. ancestor_ids p)"
| "ancestor_ids (Or ps) = (\<Union>p \<in> set ps. ancestor_ids p)"
| "ancestor_ids (Not p) = ancestor_ids p"
| "ancestor_ids _ = {}"

definition ancestries_ok :: "(OpId \<Rightarrow> OperationRecord option) \<Rightarrow> ancestries \<Rightarrow> bool" where
  "ancestries_ok M out \<longleftrightarrow> bt_inv out \<and> (\<forall>i ids. bt_get out i = Some ids \<longrightarrow> set ids = {j. anc M i j})"

lemma collect_ancestor_of:
  assumes ok: "store_ok x V log" and out: "ancestries_ok (log_view V log) out"
  shows "\<exists>out'. collect_ancestor_ops x log (AncestorOf oid) out = Inr out' \<and>
    ancestries_ok (log_view V log) out' \<and> set (bt_keys out') = insert oid (set (bt_keys out))"
proof (cases "bt_get out oid")
  case None
  obtain rs where rs: "walk_back x log oid None = Inr rs"
    "set (map op_id rs) = {i. anc (log_view V log) oid i}"
    by (rule walk_back_ok [OF ok, of oid]) blast
  have "ancestries_ok (log_view V log) (bt_insert oid (bs_of_list (map op_id rs)) out)"
    using out rs(2) by (auto simp: ancestries_ok_def bt_simps bt_intros split: if_splits)
  then show ?thesis
    using None rs(1) by simp
next
  case (Some ids)
  then have "oid \<in> set (bt_keys out)"
    using bt_get_None_iff [of out oid] by simp
  then show ?thesis
    using Some out by (simp add: insert_absorb)
qed

lemma collect_ok:
  shows "store_ok x V log \<Longrightarrow> ancestries_ok (log_view V log) out \<Longrightarrow>
    \<exists>out'. collect_ancestor_ops x log p out = Inr out' \<and> ancestries_ok (log_view V log) out' \<and>
      set (bt_keys out') = set (bt_keys out) \<union> ancestor_ids p"
    and "store_ok x V log \<Longrightarrow> ancestries_ok (log_view V log) out \<Longrightarrow>
    \<exists>out'. collect_all x log ps out = Inr out' \<and> ancestries_ok (log_view V log) out' \<and>
      set (bt_keys out') = set (bt_keys out) \<union> (\<Union>p \<in> set ps. ancestor_ids p)"
proof (induction x log p out and x log ps out rule: collect_ancestor_ops_collect_all.induct)
  case (1 x log oid out)
  then show ?case
    using collect_ancestor_of by (metis Un_insert_right ancestor_ids.simps(1) sup_bot.right_neutral)
next
  case (9 x log p ps out)
  then obtain out' where out': "collect_ancestor_ops x log p out = Inr out'"
    "ancestries_ok (log_view V log) out'" "set (bt_keys out') = set (bt_keys out) \<union> ancestor_ids p"
    by blast
  show ?case
    using "9.IH"(2) [OF out'(1) "9.prems"(1) out'(2)] out' by auto
qed simp_all

text \<open>The precomputed sets decide ancestry for every id the predicate mentions.\<close>

lemma matches_holds:
  "ancestries_ok M out \<Longrightarrow> ancestor_ids p \<subseteq> set (bt_keys out) \<Longrightarrow>
   matches resolver out r p = holds_for M resolver r p"
proof (induction p)
  case (AncestorOf oid)
  then obtain ids where "bt_get out oid = Some ids"
    using bt_get_None_iff [of out oid] by auto
  then show ?case
    using AncestorOf by (auto simp: ancestries_ok_def)
next
  case (Session s)
  then show ?case by (auto split: option.splits)
next
  case (And ps)
  then have "matches resolver out r q = holds_for M resolver r q" if "q \<in> set ps" for q
    using that by auto
  then show ?case by (simp add: list_all_iff)
next
  case (Or ps)
  then have "matches resolver out r q = holds_for M resolver r q" if "q \<in> set ps" for q
    using that by auto
  then show ?case by (simp add: list_ex_iff)
qed simp_all

text \<open>Narrowing is sound: whatever satisfies the predicate lies in the ancestry it picks.\<close>

lemma candidate_root_sound:
  "candidate_root p = Ancestry h \<Longrightarrow> holds_for M resolver r p \<Longrightarrow> anc M h (op_id r)"
proof (induction p arbitrary: h)
  case (And ps)
  have "\<exists>i < length ps. candidate_root (ps ! i) = Ancestry h"
    using And.prems(1) by (auto simp: find_Some_iff split: option.splits)
  then obtain q where "q \<in> set ps" "candidate_root q = Ancestry h"
    using nth_mem by blast
  then show ?case
    using And.IH And.prems(2) by auto
qed simp_all

lemma candidates_ok:
  assumes ok: "store_ok x V log"
  shows "\<exists>cs. candidate_set x log root = Inr cs \<and> distinct (map op_id cs) \<and>
    set cs = {r. log_view V log (op_id r) = Some r \<and>
      (\<forall>h. root = Ancestry h \<longrightarrow> anc (log_view V log) h (op_id r))}"
proof (cases root)
  case AllOps
  obtain cs where cs: "list_all_ops x log = Inr cs" "set cs = V ` stored_ids log" "distinct (map op_id cs)"
    using list_all_ops_ok [OF ok] by blast
  have "op_id (V i) = i" if "i \<in> stored_ids log" for i
    using stored_id_ok [OF ok that] by (simp add: id_ok_def)
  then have "set cs = {r. log_view V log (op_id r) = Some r}"
    unfolding cs(2) by (auto simp: log_view_def image_iff split: if_splits) metis
  then show ?thesis
    using AllOps cs by simp
next
  case (Ancestry h)
  obtain rs where rs: "walk_back x log h None = Inr rs"
    "set (map op_id rs) = {i. anc (log_view V log) h i}" "distinct (map op_id rs)"
    "\<And>r. r \<in> set rs \<Longrightarrow> log_view V log (op_id r) = Some r"
    using walk_back_ok [OF ok, of h] by blast
  have "r \<in> set rs" if r: "log_view V log (op_id r) = Some r" and a: "anc (log_view V log) h (op_id r)" for r
  proof -
    have "op_id r \<in> set (map op_id rs)"
      unfolding rs(2) using a by simp
    then obtain q where "q \<in> set rs" "op_id q = op_id r"
      by auto
    then show ?thesis using rs(4) [of q] r by (metis option.inject)
  qed
  moreover have "anc (log_view V log) h (op_id r)" if "r \<in> set rs" for r
  proof -
    have "op_id r \<in> set (map op_id rs)"
      using that by simp
    then show ?thesis unfolding rs(2) by simp
  qed
  ultimately have "set rs = {r. log_view V log (op_id r) = Some r \<and> anc (log_view V log) h (op_id r)}"
    using rs(4) by blast
  then show ?thesis
    using Ancestry rs(1,3) by (intro exI [of _ rs]) simp
qed

section \<open>Properties\<close>

text \<open>C21. The hand-written JSON form of a predicate parses back to it.\<close>

theorem predicate_json_roundtrip: "from_value (to_value p) = Inr p"
proof (induction p)
  case (And ps)
  then have "rmap from_value (map to_value ps) = Inr ps"
    by (induction ps) simp_all
  then show ?case by (subst from_value.simps) (simp add: str_field_def)
next
  case (Or ps)
  then have "rmap from_value (map to_value ps) = Inr ps"
    by (induction ps) simp_all
  then show ?case by (subst from_value.simps) (simp add: str_field_def)
qed (subst from_value.simps, simp add: str_field_def)+

text \<open>
  C20. Evaluation is exact: the records returned are the stored ones that satisfy the predicate,
  each once, whichever candidate set the evaluator scanned.
\<close>

theorem evaluate_exact:
  assumes "store_ok x V log"
  shows "\<exists>recs. evaluate_with_resolver x log p resolver = Inr recs \<and> distinct (map op_id recs) \<and>
    (\<forall>i r. r \<in> set recs \<and> op_id r = i \<longleftrightarrow>
       get x log i = Inr (Some r) \<and> holds_for (log_view V log) resolver r p)"
proof -
  let ?M = "log_view V log"
  have "ancestries_ok ?M []"
    by (simp add: ancestries_ok_def)
  then obtain out where out: "collect_ancestor_ops x log p [] = Inr out" "ancestries_ok ?M out"
    "ancestor_ids p \<subseteq> set (bt_keys out)"
    using collect_ok(1) [OF assms] by blast
  obtain cs where cs: "candidate_set x log (candidate_root p) = Inr cs" "distinct (map op_id cs)"
    "set cs = {r. ?M (op_id r) = Some r \<and> (\<forall>h. candidate_root p = Ancestry h \<longrightarrow> anc ?M h (op_id r))}"
    using candidates_ok [OF assms] by blast
  let ?rs = "filter (\<lambda>r. matches resolver out r p) cs"
  have "evaluate_with_resolver x log p resolver = Inr ?rs"
    using out(1) cs(1) by (simp add: evaluate_with_resolver_def)
  moreover have "distinct (map op_id ?rs)"
    using cs(2) by (rule distinct_map_filter)
  moreover have "r \<in> set ?rs \<longleftrightarrow> ?M (op_id r) = Some r \<and> holds_for ?M resolver r p" for r
    using matches_holds [OF out(2,3)] candidate_root_sound [of p _ ?M resolver r] cs(3) by auto
  moreover have "get x log i = Inr (Some r) \<longleftrightarrow> ?M (op_id r) = Some r \<and> op_id r = i" for i r
    using get_log_view [OF assms, of i] stored_id_ok [OF assms, of i]
    by (auto simp: log_view_def id_ok_def split: if_splits)
  ultimately show ?thesis by auto
qed

theorem evaluate_exact_witness:
  "\<exists>recs. evaluate_with_resolver sample_ext sample_log (And [Not (AncestorOf ''01''), AncestorOf ''03''])
     null_resolver = Inr recs \<and> distinct (map op_id recs)"
  using evaluate_exact [OF sample_log_ok] by blast

end
