(* ===== verification/Ty_Effects.thy ===== *)
theory Ty_Effects
  imports Lex_Prelude "HOL-Library.Product_Lexorder"
begin

text \<open>
  Effect kinds and effect sets, \<open>crates/lex-types/src/types.rs\<close>, and the effect-row half of the
  unifier, \<open>crates/lex-types/src/unifier.rs\<close>. A \<open>BTreeSet<EffectKind>\<close> is its strictly sorted list,
  under the order the source derives; row variables are 32-bit words. Chasing a substitution chain
  is a loop the types do not bound, so it is a partial function, and its termination is a theorem.
\<close>

section \<open>Effect kinds\<close>

datatype EffectArg = ArgStr string | ArgInt int | ArgIdent string

datatype EffectKind = EffectKind (ek_name: string) (ek_arg: "EffectArg option")

text \<open>The derived order: by name, then bare before parameterised, then by constructor and payload.\<close>

fun arg_key :: "EffectArg option \<Rightarrow> nat \<times> string \<times> int" where
  "arg_key None = (0, [], 0)"
| "arg_key (Some (ArgStr s)) = (1, s, 0)"
| "arg_key (Some (ArgInt n)) = (2, [], n)"
| "arg_key (Some (ArgIdent s)) = (3, s, 0)"

definition kind_key :: "EffectKind \<Rightarrow> string \<times> nat \<times> string \<times> int" where
  "kind_key k = (ek_name k, arg_key (ek_arg k))"

lemma arg_key_inj: "arg_key a = arg_key b \<Longrightarrow> a = b"
  by (cases a rule: arg_key.cases; cases b rule: arg_key.cases) simp_all

lemma kind_key_inj: "kind_key a = kind_key b \<longleftrightarrow> a = b"
  by (cases a; cases b) (auto simp: kind_key_def dest: arg_key_inj)

instantiation EffectKind :: linorder
begin

definition less_eq_EffectKind :: "EffectKind \<Rightarrow> EffectKind \<Rightarrow> bool" where
  "a \<le> b \<longleftrightarrow> kind_key a \<le> kind_key b"

definition less_EffectKind :: "EffectKind \<Rightarrow> EffectKind \<Rightarrow> bool" where
  "a < b \<longleftrightarrow> kind_key a < kind_key b"

instance
  by intro_classes (auto simp: less_eq_EffectKind_def less_EffectKind_def less_le_not_le
      intro: order_trans kind_key_inj [THEN iffD1, OF antisym])

end

definition bare :: "string \<Rightarrow> EffectKind" where
  "bare name = EffectKind name None"

definition with_str :: "string \<Rightarrow> string \<Rightarrow> EffectKind" where
  "with_str name arg = EffectKind name (Some (ArgStr arg))"

definition subsumes :: "EffectKind \<Rightarrow> EffectKind \<Rightarrow> bool" where
  "subsumes k other =
     (if ek_name k \<noteq> ek_name other then False
      else case (ek_arg k, ek_arg other) of
        (None, _) \<Rightarrow> True
      | (Some _, None) \<Rightarrow> False
      | (Some a, Some b) \<Rightarrow> a = b)"

section \<open>Effect sets\<close>

type_synonym eff_var = "32 word"

record EffectSet =
  concrete :: "EffectKind list"     \<comment> \<open>a \<open>BTreeSet\<close>\<close>
  row_var :: "eff_var option"

definition empty_effects :: EffectSet where
  "empty_effects = \<lparr>concrete = [], row_var = None\<rparr>"

definition singleton :: "string \<Rightarrow> EffectSet" where
  "singleton s = \<lparr>concrete = [bare s], row_var = None\<rparr>"

definition singleton_arg :: "string \<Rightarrow> string \<Rightarrow> EffectSet" where
  "singleton_arg name arg = \<lparr>concrete = [with_str name arg], row_var = None\<rparr>"

definition open_var :: "eff_var \<Rightarrow> EffectSet" where
  "open_var v = \<lparr>concrete = [], row_var = Some v\<rparr>"

definition or_else :: "'a option \<Rightarrow> 'a option \<Rightarrow> 'a option" where
  "or_else a b = (case a of Some _ \<Rightarrow> a | None \<Rightarrow> b)"

definition union_effects :: "EffectSet \<Rightarrow> EffectSet \<Rightarrow> EffectSet" where
  "union_effects a b =
     \<lparr>concrete = bs_of_list (concrete a @ concrete b), row_var = or_else (row_var a) (row_var b)\<rparr>"

definition is_subset :: "EffectSet \<Rightarrow> EffectSet \<Rightarrow> bool" where
  "is_subset a b = list_all (\<lambda>need. list_ex (\<lambda>have'. subsumes have' need) (concrete b)) (concrete a)"

definition extend_effects :: "EffectSet \<Rightarrow> EffectSet \<Rightarrow> EffectSet" where
  "extend_effects a b =
     \<lparr>concrete = bs_of_list (concrete a @ concrete b),
      row_var = (if row_var a = None then row_var b else row_var a)\<rparr>"

definition is_open :: "EffectSet \<Rightarrow> bool" where
  "is_open e = (row_var e \<noteq> None)"

section \<open>Row unification\<close>

record Unifier =
  eff_subst :: "eff_var \<Rightarrow> EffectSet option"
  next_eff_var :: eff_var

datatype UnifyError = EffectMismatch EffectSet EffectSet

definition unifier_new :: Unifier where
  "unifier_new = \<lparr>eff_subst = (\<lambda>_. None), next_eff_var = 0\<rparr>"

definition fresh_eff_id :: "Unifier \<Rightarrow> eff_var \<times> Unifier" where
  "fresh_eff_id u = (next_eff_var u, u\<lparr>next_eff_var := next_eff_var u + 1\<rparr>)"

text \<open>The loop of \<open>resolve_effects\<close>: the set built so far and the variable to chase.\<close>

partial_function (option) chase ::
  "(eff_var \<Rightarrow> EffectSet option) \<Rightarrow> EffectKind list \<Rightarrow> eff_var option \<Rightarrow> EffectSet option" where
  "chase s out cur =
     (case cur of
        None \<Rightarrow> Some \<lparr>concrete = out, row_var = None\<rparr>
      | Some v \<Rightarrow>
          (case s v of
             Some bound \<Rightarrow> chase s (bs_of_list (out @ concrete bound)) (row_var bound)
           | None \<Rightarrow> Some \<lparr>concrete = out, row_var = Some v\<rparr>))"

declare chase.simps [code]

definition resolve_effects :: "Unifier \<Rightarrow> EffectSet \<Rightarrow> EffectSet option" where
  "resolve_effects u e = chase (eff_subst u) (concrete e) (row_var e)"

definition set_subset :: "'a list \<Rightarrow> 'a list \<Rightarrow> bool" where
  "set_subset a b = list_all (\<lambda>k. k \<in> set b) a"

definition difference :: "'a list \<Rightarrow> 'a list \<Rightarrow> 'a list" where
  "difference a b = filter (\<lambda>k. k \<notin> set b) a"

definition bind_var :: "Unifier \<Rightarrow> eff_var \<Rightarrow> EffectSet \<Rightarrow> Unifier" where
  "bind_var u v bound = u\<lparr>eff_subst := (eff_subst u)(v \<mapsto> bound)\<rparr>"

text \<open>\<open>unify_effects\<close> on resolved sets.\<close>

definition unify_resolved :: "Unifier \<Rightarrow> EffectSet \<Rightarrow> EffectSet \<Rightarrow> UnifyError + Unifier" where
  "unify_resolved u a b =
     (case (row_var a, row_var b) of
        (None, None) \<Rightarrow> if concrete a = concrete b then Inr u else Inl (EffectMismatch a b)
      | (Some va, vb') \<Rightarrow>
          if vb' = Some va then
            (if concrete a = concrete b then Inr u else Inl (EffectMismatch a b))
          else if \<not> set_subset (concrete a) (concrete b) \<and> vb' = None then Inl (EffectMismatch a b)
          else Inr (bind_var u va \<lparr>concrete = difference (concrete b) (concrete a), row_var = vb'\<rparr>)
      | (None, Some vb) \<Rightarrow>
          if \<not> set_subset (concrete b) (concrete a) then Inl (EffectMismatch a b)
          else Inr (bind_var u vb \<lparr>concrete = difference (concrete a) (concrete b), row_var = None\<rparr>))"

definition unify_effects :: "Unifier \<Rightarrow> EffectSet \<Rightarrow> EffectSet \<Rightarrow> (UnifyError + Unifier) option" where
  "unify_effects u a b =
     Option.bind (resolve_effects u a) (\<lambda>a'.
     Option.bind (resolve_effects u b) (\<lambda>b'. Some (unify_resolved u a' b')))"

section \<open>What an effect set grants\<close>

text \<open>A bare effect grants every argument and the bare form; a parameterised one grants itself.\<close>

definition grants :: "EffectKind \<Rightarrow> (string \<times> EffectArg option) set" where
  "grants k = (case ek_arg k of None \<Rightarrow> {ek_name k} \<times> UNIV | Some a \<Rightarrow> {(ek_name k, Some a)})"

definition granted :: "EffectSet \<Rightarrow> (string \<times> EffectArg option) set" where
  "granted e = (\<Union>k \<in> set (concrete e). grants k)"

lemma grants_self: "(ek_name k, ek_arg k) \<in> grants k"
  by (auto simp: grants_def split: option.splits)

lemma grants_single: "(ek_name k, ek_arg k) \<in> grants h \<longleftrightarrow> subsumes h k"
  by (auto simp: grants_def subsumes_def split: option.splits)

lemma subsumes_grants: "subsumes k other \<longleftrightarrow> grants other \<subseteq> grants k"
proof
  assume "subsumes k other"
  then show "grants other \<subseteq> grants k"
    by (auto simp: subsumes_def grants_def split: option.splits if_splits)
next
  assume "grants other \<subseteq> grants k"
  then show "subsumes k other"
    using grants_self [of other] grants_single [of other k] by blast
qed

lemma is_subset_granted: "is_subset a b \<longleftrightarrow> granted a \<subseteq> granted b"
proof
  assume "is_subset a b"
  then show "granted a \<subseteq> granted b"
    unfolding is_subset_def granted_def list_all_iff list_ex_iff subsumes_grants by blast
next
  assume sub: "granted a \<subseteq> granted b"
  have "\<exists>h \<in> set (concrete b). subsumes h k" if "k \<in> set (concrete a)" for k
  proof -
    have "(ek_name k, ek_arg k) \<in> granted b"
      using sub that grants_self [of k] by (auto simp: granted_def)
    then show ?thesis
      by (simp add: granted_def grants_single)
  qed
  then show "is_subset a b"
    by (simp add: is_subset_def list_all_iff list_ex_iff)
qed

section \<open>Substitution chains\<close>

definition chain_rel :: "(eff_var \<Rightarrow> EffectSet option) \<Rightarrow> (eff_var \<times> eff_var) set" where
  "chain_rel s = {(w, v). \<exists>b. s v = Some b \<and> row_var b = Some w}"

text \<open>
  The invariant of the unifier: chains are well founded, and bound sets are ordered sets.
\<close>

definition effects_ok :: "EffectSet \<Rightarrow> bool" where
  "effects_ok e \<longleftrightarrow> sorted_wrt (<) (concrete e)"

definition unifier_ok :: "Unifier \<Rightarrow> bool" where
  "unifier_ok u \<longleftrightarrow> wf (chain_rel (eff_subst u)) \<and> (\<forall>v b. eff_subst u v = Some b \<longrightarrow> effects_ok b)"

lemma unifier_ok_new: "unifier_ok unifier_new"
  by (simp add: unifier_ok_def unifier_new_def chain_rel_def)

lemma chase_total:
  assumes "wf (chain_rel s)" and "sorted_wrt (<) out"
  shows "\<exists>r. chase s out cur = Some r \<and> effects_ok r \<and> (\<forall>v. row_var r = Some v \<longrightarrow> s v = None)"
proof -
  have "\<exists>r. chase s out (Some v) = Some r \<and> effects_ok r \<and> (\<forall>v. row_var r = Some v \<longrightarrow> s v = None)"
    if "sorted_wrt (<) out" for v out
    using assms(1) that
  proof (induction v arbitrary: out rule: wf_induct_rule)
    case (less v)
    show ?case
    proof (cases "s v")
      case None
      then show ?thesis
        using less.prems by (subst chase.simps) (simp add: effects_ok_def)
    next
      case (Some b)
      show ?thesis
      proof (cases "row_var b")
        case None
        then show ?thesis
          using Some by (subst chase.simps, subst chase.simps) (simp add: effects_ok_def)
      next
        case w: (Some w)
        then have "(w, v) \<in> chain_rel s"
          using Some by (simp add: chain_rel_def)
        from less.IH [OF this, of "bs_of_list (out @ concrete b)"] show ?thesis
          using Some w by (subst chase.simps) simp
      qed
    qed
  qed
  then show ?thesis
    using assms(2) by (cases cur) (auto simp: chase.simps [of s out None] effects_ok_def)
qed

lemma resolve_total:
  assumes "unifier_ok u" and "effects_ok e"
  obtains r where "resolve_effects u e = Some r" and "effects_ok r"
    and "\<And>v. row_var r = Some v \<Longrightarrow> eff_subst u v = None"
  using chase_total [of "eff_subst u" "concrete e" "row_var e"] assms
  by (auto simp: resolve_effects_def unifier_ok_def effects_ok_def)

text \<open>Binding an unbound variable extends exactly the chains that ended in it.\<close>

lemma chase_update:
  assumes "wf (chain_rel s)" and "s va = None" and "chase s out cur = Some r"
    and s': "s' va = Some bound" "\<And>v. v \<noteq> va \<Longrightarrow> s' v = s v"
  shows "chase s' out cur =
    (if row_var r = Some va
     then chase s' (bs_of_list (concrete r @ concrete bound)) (row_var bound) else Some r)"
proof -
  have "chase s' out (Some v) =
    (if row_var r = Some va
     then chase s' (bs_of_list (concrete r @ concrete bound)) (row_var bound) else Some r)"
    if "chase s out (Some v) = Some r" for v out r
    using assms(1) that
  proof (induction v arbitrary: out r rule: wf_induct_rule)
    case (less v)
    show ?case
    proof (cases "s v")
      case None
      then have "r = \<lparr>concrete = out, row_var = Some v\<rparr>"
        using less.prems by (simp add: chase.simps [of s])
      then show ?thesis
        using None s' by (subst chase.simps) simp
    next
      case (Some b)
      then have "v \<noteq> va"
        using assms(2) by auto
      have r: "chase s (bs_of_list (out @ concrete b)) (row_var b) = Some r"
        using less.prems Some by (simp add: chase.simps [of s out "Some v"])
      show ?thesis
      proof (cases "row_var b")
        case None
        then have "r = \<lparr>concrete = bs_of_list (out @ concrete b), row_var = None\<rparr>"
          using r by (simp add: chase.simps)
        then show ?thesis
          using Some None s'(2) [OF \<open>v \<noteq> va\<close>] by (subst chase.simps, subst chase.simps) simp
      next
        case w: (Some w)
        then have "(w, v) \<in> chain_rel s"
          using Some by (simp add: chain_rel_def)
        from less.IH [OF this r [unfolded w]] show ?thesis
          using Some w s'(2) [OF \<open>v \<noteq> va\<close>] by (subst chase.simps) simp
      qed
    qed
  qed
  then show ?thesis
    using assms(3) by (cases cur) (auto simp: chase.simps [of _ _ None])
qed

lemma bind_var_ok:
  assumes ok: "unifier_ok u" and va: "eff_subst u va = None" and b: "effects_ok bound"
    and vb: "\<And>w. row_var bound = Some w \<Longrightarrow> eff_subst u w = None \<and> w \<noteq> va"
  shows "unifier_ok (bind_var u va bound)"
proof -
  let ?s = "eff_subst u"
  have "wf (chain_rel (?s(va \<mapsto> bound)))"
  proof (cases "row_var bound")
    case None
    then have "chain_rel (?s(va \<mapsto> bound)) = chain_rel ?s"
      using va by (auto simp: chain_rel_def)
    then show ?thesis
      using ok by (simp add: unifier_ok_def)
  next
    case (Some w)
    then have "chain_rel (?s(va \<mapsto> bound)) = insert (w, va) (chain_rel ?s)"
      using va by (auto simp: chain_rel_def)
    moreover have "(va, w) \<notin> (chain_rel ?s)\<^sup>*"
    proof
      assume "(va, w) \<in> (chain_rel ?s)\<^sup>*"
      then show False
      proof (cases rule: rtranclE)
        case base
        then show ?thesis using vb [OF Some] by simp
      next
        case (step z)
        then show ?thesis using vb [OF Some] by (simp add: chain_rel_def)
      qed
    qed
    ultimately show ?thesis
      using ok by (simp add: unifier_ok_def)
  qed
  then show ?thesis
    using ok b by (auto simp: unifier_ok_def bind_var_def)
qed

text \<open>Both sides after a binding: the bound side gains what was missing.\<close>

lemma resolve_bound:
  assumes ok: "unifier_ok u" and va: "eff_subst u va = None"
    and a: "resolve_effects u a = Some ra"
    and rv: "\<And>w. row_var bound = Some w \<Longrightarrow> eff_subst u w = None \<and> w \<noteq> va"
  shows "resolve_effects (bind_var u va bound) a =
    (if row_var ra = Some va
     then Some \<lparr>concrete = bs_of_list (concrete ra @ concrete bound), row_var = row_var bound\<rparr>
     else Some ra)"
proof -
  let ?s = "(eff_subst u)(va \<mapsto> bound)"
  have "chase ?s out (row_var bound) = Some \<lparr>concrete = out, row_var = row_var bound\<rparr>" for out
    using rv by (subst chase.simps) (auto split: option.splits)
  moreover have "wf (chain_rel (eff_subst u))"
    using ok by (simp add: unifier_ok_def)
  ultimately show ?thesis
    using chase_update [of "eff_subst u" va "concrete a" "row_var a" ra ?s bound] va a
    by (simp add: resolve_effects_def bind_var_def)
qed

lemma fill_missing:
  "sorted_wrt (<) bs \<Longrightarrow> set_subset as bs \<Longrightarrow> bs_of_list (as @ difference bs as) = bs"
  by (rule trans [OF _ bs_of_list_id])
    (auto simp: bs_of_list_cong set_subset_def difference_def list_all_iff)

lemma sorted_difference: "sorted_wrt (<) bs \<Longrightarrow> sorted_wrt (<) (difference bs as)"
  by (simp add: difference_def sorted_wrt_filter)

text \<open>
  The one case in which the sets are not made equal: both rows open under different variables and
  the first set has effects the second lacks.
\<close>

definition lossy :: "EffectSet \<Rightarrow> EffectSet \<Rightarrow> bool" where
  "lossy a b \<longleftrightarrow> row_var a \<noteq> None \<and> row_var b \<noteq> None \<and> row_var a \<noteq> row_var b \<and>
     \<not> set_subset (concrete a) (concrete b)"

lemma unify_resolved_sound:
  assumes ok: "unifier_ok u" and un: "unify_resolved u ra rb = Inr u'" and nl: "\<not> lossy ra rb"
    and a: "resolve_effects u a = Some ra" "effects_ok ra" "\<And>v. row_var ra = Some v \<Longrightarrow> eff_subst u v = None"
    and b: "resolve_effects u b = Some rb" "effects_ok rb" "\<And>v. row_var rb = Some v \<Longrightarrow> eff_subst u v = None"
  shows "unifier_ok u' \<and> resolve_effects u' a = resolve_effects u' b"
proof (cases "row_var ra")
  case None
  show ?thesis
  proof (cases "row_var rb")
    case (Some vb)
    let ?bound = "\<lparr>concrete = difference (concrete ra) (concrete rb), row_var = None\<rparr>"
    have u': "u' = bind_var u vb ?bound" and sub: "set_subset (concrete rb) (concrete ra)"
      using un None Some by (auto simp: unify_resolved_def split: if_splits)
    have eta: "\<lparr>concrete = concrete ra, row_var = None\<rparr> = ra"
      using None by (cases ra) simp
    show ?thesis
      using bind_var_ok [OF ok b(3) [OF Some], of ?bound] a(2) fill_missing [OF _ sub]
        resolve_bound [OF ok b(3) [OF Some] a(1), of ?bound]
        resolve_bound [OF ok b(3) [OF Some] b(1), of ?bound]
      by (simp add: u' None Some effects_ok_def sorted_difference eta)
  qed (use None ok un a(1) b(1) in \<open>cases ra; cases rb; auto simp: unify_resolved_def split: if_splits\<close>)
next
  case (Some va)
  show ?thesis
  proof (cases "row_var rb = Some va")
    case True
    then have "ra = rb" "u' = u"
      using Some un by (auto simp: unify_resolved_def split: if_splits)
    then show ?thesis
      using ok a(1) b(1) by simp
  next
    case False
    let ?bound = "\<lparr>concrete = difference (concrete rb) (concrete ra), row_var = row_var rb\<rparr>"
    have u': "u' = bind_var u va ?bound" and sub: "set_subset (concrete ra) (concrete rb)"
      using un nl Some False by (auto simp: unify_resolved_def lossy_def split: if_splits option.splits)
    have rv: "eff_subst u w = None \<and> w \<noteq> va" if "row_var ?bound = Some w" for w
      using that b(3) False by auto
    have eta: "\<lparr>concrete = concrete rb, row_var = row_var rb\<rparr> = rb"
      by (cases rb) simp
    show ?thesis
      using bind_var_ok [where bound = ?bound, OF ok a(3) [OF Some] _ rv] b(2) fill_missing [OF _ sub] False
        resolve_bound [where bound = ?bound, OF ok a(3) [OF Some] a(1) rv]
        resolve_bound [where bound = ?bound, OF ok a(3) [OF Some] b(1) rv]
      by (simp add: u' Some effects_ok_def sorted_difference eta)
  qed
qed

section \<open>Properties\<close>

text \<open>
  \<open>is_subset\<close> is exactly inclusion of what the two sets grant, with a bare effect standing for
  every argument; in particular it is reflexive and transitive.
\<close>

theorem is_subset_is_inclusion: "is_subset a b \<longleftrightarrow> granted a \<subseteq> granted b"
  by (rule is_subset_granted)



text \<open>
  Two open rows: unifying \<open>[net | e0]\<close> with \<open>[io | e1]\<close> succeeds, yet the two sides do not resolve
  to the same set afterwards; the effects only the first side has never reach the second.
\<close>

theorem unify_effects_open_rows_differ:
  "let a = \<lparr>concrete = [bare ''net''], row_var = Some 0\<rparr>; b = \<lparr>concrete = [bare ''io''], row_var = Some 1\<rparr>
   in \<exists>u'. unify_effects unifier_new a b = Some (Inr u') \<and>
     resolve_effects u' a = Some \<lparr>concrete = [bare ''io'', bare ''net''], row_var = Some 1\<rparr> \<and>
     resolve_effects u' b = Some b"
  by (simp add: unify_effects_def resolve_effects_def chase.simps unifier_new_def unify_resolved_def
      set_subset_def difference_def bare_def bind_var_def bs_of_list_def less_eq_EffectKind_def kind_key_def)

end
