(* ===== verification/Bc_Op.thy ===== *)
theory Bc_Op
  imports Lex_Prelude
begin

text \<open>
  The instruction set, \<open>crates/lex-bytecode/src/op.rs\<close>. Operands keep the source's order; \<open>u16\<close> and
  \<open>u32\<close> operands are natural numbers, jump offsets (\<open>i32\<close>) are integers.
\<close>

text \<open>
  The operand-free instructions and the fused superinstructions are grouped in datatypes of their
  own (\<open>Prim\<close> and \<open>Fused\<close> wrap them); the grouping has no counterpart in the source.
\<close>

datatype (plugins only: code) PrimOp =
    IntAdd | IntSub | IntMul | IntDiv | IntMod | IntNeg
  | IntEq | IntLt | IntLe
  | FloatAdd | FloatSub | FloatMul | FloatDiv | FloatNeg
  | FloatEq | FloatLt | FloatLe
  | NumAdd | NumSub | NumMul | NumDiv | NumMod | NumNeg
  | NumEq | NumLt | NumLe
  | BoolAnd | BoolOr | BoolNot
  | StrConcat | StrLen | StrEq
  | BytesLen | BytesEq

datatype (plugins only: code) FusedOp =
    LoadLocalAddIntConst nat nat                       \<comment> \<open>local_idx, imm_const_idx\<close>
  | LoadLocalAddIntConstStoreLocal nat nat nat         \<comment> \<open>src, imm_const_idx, dest\<close>
  | LoadLocalAddLocal nat nat                          \<comment> \<open>lhs_idx, rhs_idx\<close>
  | LoadLocalSubLocal nat nat                          \<comment> \<open>lhs_idx, rhs_idx\<close>
  | LoadLocalMulLocal nat nat                          \<comment> \<open>lhs_idx, rhs_idx\<close>
  | LoadLocalEqIntConstJumpIfNot nat nat int           \<comment> \<open>local_idx, imm_const_idx, jump_offset\<close>
  | LoadLocalStoreEqIntConstJumpIfNot nat nat nat int  \<comment> \<open>src, dst, imm_const_idx, jump_offset\<close>
  | LoadLocalGetFieldAdd nat nat nat                   \<comment> \<open>local_idx, name_idx, site_idx\<close>
  | LoadLocalGetFieldSub nat nat nat                   \<comment> \<open>local_idx, name_idx, site_idx\<close>
  | LoadLocalGetFieldMul nat nat nat                   \<comment> \<open>local_idx, name_idx, site_idx\<close>
  | LoadLocalGetField nat nat nat                      \<comment> \<open>local_idx, name_idx, site_idx\<close>

datatype (plugins only: code) Op =
    PushConst nat
  | Pop
  | Dup
  | LoadLocal nat
  | StoreLocal nat
  | TakeLocal nat
  | MakeRecord nat nat              \<comment> \<open>shape_idx, field_count\<close>
  | AllocStackRecord nat nat        \<comment> \<open>shape_idx, field_count\<close>
  | AllocArenaRecord nat nat        \<comment> \<open>shape_idx, field_count\<close>
  | MakeTuple nat
  | AllocStackTuple nat             \<comment> \<open>arity\<close>
  | AllocArenaTuple nat             \<comment> \<open>arity\<close>
  | MakeList nat
  | MakeVariant nat nat             \<comment> \<open>name_idx, arity\<close>
  | GetField nat nat                \<comment> \<open>name_idx, site_idx\<close>
  | GetElem nat
  | TestVariant nat
  | GetVariant nat
  | GetVariantArg nat
  | GetListLen
  | GetListElem nat
  | ListAppend
  | GetListElemDyn
  | Jump int
  | JumpIf int
  | JumpIfNot int
  | Call nat nat nat                \<comment> \<open>fn_id, arity, node_id_idx\<close>
  | TailCall nat nat nat            \<comment> \<open>fn_id, arity, node_id_idx\<close>
  | MakeClosure nat nat             \<comment> \<open>fn_id, capture_count\<close>
  | CallClosure nat nat             \<comment> \<open>arity, node_id_idx\<close>
  | SortByKey nat
  | ParallelMap nat
  | ListMap nat
  | ListFilter nat
  | ListFold nat
  | EffectCall nat nat nat nat      \<comment> \<open>kind_idx, op_idx, arity, node_id_idx\<close>
  | Return
  | Panic nat
  | Prim PrimOp
  | Fused FusedOp

end
