(* ===== verification/Ast_Canonical.thy ===== *)
theory Ast_Canonical
  imports Lex_Prelude "HOL-Library.Signed_Division"
begin

text \<open>
  The canonical syntax tree, \<open>crates/lex-ast/src/canonical.rs\<close>, and the scalars it shares with the
  rest of the tool chain: \<open>i64\<close> with the wrap-around of a release build, and \<open>f64\<close>. Floating-point
  numbers are their bit patterns; the IEEE operations are the hardware's and the standard
  library's, so they are the fields of a record \<open>fpu\<close> passed to whatever computes with them.
  Strings are lists of bytes (UTF-8), so their length is the byte length \<open>str::len\<close> returns.
\<close>

section \<open>Scalars\<close>

type_synonym i64 = "64 word"
type_synonym f64 = "64 word"

record fpu =
  f_add :: "f64 \<Rightarrow> f64 \<Rightarrow> f64"
  f_sub :: "f64 \<Rightarrow> f64 \<Rightarrow> f64"
  f_mul :: "f64 \<Rightarrow> f64 \<Rightarrow> f64"
  f_div :: "f64 \<Rightarrow> f64 \<Rightarrow> f64"
  f_rem :: "f64 \<Rightarrow> f64 \<Rightarrow> f64"
  f_neg :: "f64 \<Rightarrow> f64"
  f_eq :: "f64 \<Rightarrow> f64 \<Rightarrow> bool"
  f_lt :: "f64 \<Rightarrow> f64 \<Rightarrow> bool"
  f_le :: "f64 \<Rightarrow> f64 \<Rightarrow> bool"
  f_parse :: "string \<Rightarrow> f64 option"

text \<open>\<open>wrapping_div\<close> and \<open>wrapping_rem\<close> truncate towards zero; \<open>i64::MIN / -1\<close> wraps.\<close>

definition i64_min :: i64 where
  "i64_min = 0x8000000000000000"

definition wrapping_div :: "i64 \<Rightarrow> i64 \<Rightarrow> i64" where
  "wrapping_div a b = word_of_int (sint a sdiv sint b)"

definition wrapping_rem :: "i64 \<Rightarrow> i64 \<Rightarrow> i64" where
  "wrapping_rem a b = word_of_int (sint a smod sint b)"

text \<open>The plain \<open>/\<close> and \<open>%\<close> panic on overflow in every build; the divisor is known to be non-zero.\<close>

definition div_overflows :: "i64 \<Rightarrow> i64 \<Rightarrow> bool" where
  "div_overflows a b \<longleftrightarrow> a = i64_min \<and> b = - 1"

definition i64_lt :: "i64 \<Rightarrow> i64 \<Rightarrow> bool" where
  "i64_lt a b \<longleftrightarrow> sint a < sint b"

definition i64_le :: "i64 \<Rightarrow> i64 \<Rightarrow> bool" where
  "i64_le a b \<longleftrightarrow> sint a \<le> sint b"

section \<open>The tree\<close>

datatype CLit =
    LInt i64
  | LFloat string     \<comment> \<open>decimal text\<close>
  | LStr string
  | LBytes string     \<comment> \<open>hexadecimal text\<close>
  | LBool bool
  | LUnit

datatype AstEffectArg = AArgStr string | AArgInt i64 | AArgIdent string

datatype Effect = Effect (eff_name: string) (eff_arg: "AstEffectArg option")

datatype Pattern =
    PLiteral CLit
  | PVar string
  | PWild
  | PConstructor string "Pattern list"
  | PRecord "(string \<times> Pattern) list"
  | PTuple "Pattern list"

text \<open>
  \<open>TypeField\<close>, \<open>UnionVariant\<close>, \<open>Param\<close>, \<open>RecordField\<close> and \<open>Arm\<close> have two fields each and are pairs here.
  \<open>TypeExpr\<close> and \<open>CExpr\<close> refer to each other: the refinement predicate is the parameter of the
  first, and \<open>TypeExpr\<close> is its instance at \<open>CExpr\<close>.
\<close>

datatype 'e TypeExprOf =
    TNamed string "'e TypeExprOf list"
  | TRecord "(string \<times> 'e TypeExprOf) list"
  | TTuple "'e TypeExprOf list"
  | TFunction "'e TypeExprOf list" "Effect list" "string option" "'e TypeExprOf"
  | TUnion "(string \<times> 'e TypeExprOf option) list"
  | TRecordWithSpreads "string list" "(string \<times> 'e TypeExprOf) list"
  | TRefined "'e TypeExprOf" string 'e

datatype CExpr =
    Literal CLit
  | Var string
  | CCall CExpr "CExpr list"
  | CLet string "CExpr TypeExprOf option" CExpr CExpr
  | CMatch CExpr "(Pattern \<times> CExpr) list"
  | CBlock "CExpr list" CExpr
  | Constructor string "CExpr list"
  | RecordLit "(string \<times> CExpr) list"
  | TupleLit "CExpr list"
  | ListLit "CExpr list"
  | FieldAccess CExpr string
  | Lambda "(string \<times> CExpr TypeExprOf) list" "CExpr TypeExprOf" "Effect list" "string option" CExpr
  | BinOp string CExpr CExpr
  | UnaryOp string CExpr
  | CReturn CExpr

type_synonym TypeExpr = "CExpr TypeExprOf"

record FnDecl =
  fd_name :: string
  fd_type_params :: "string list"
  fd_params :: "(string \<times> TypeExpr) list"
  fd_effects :: "Effect list"
  fd_effect_row_var :: "string option"
  fd_return_type :: TypeExpr
  fd_body :: CExpr
  fd_examples :: "(CExpr list \<times> CExpr) list"
  fd_doc :: "string list"

record TypeDecl =
  td_name :: string
  td_params :: "string list"
  td_definition :: TypeExpr
  td_doc :: "string list"

record Import =
  im_reference :: string
  im_alias :: string

datatype Stage = StFnDecl FnDecl | StTypeDecl TypeDecl | StImport Import

end
