(* ===== verification/Bc_Value.thy ===== *)
theory Bc_Value
  imports Ast_Canonical
begin

text \<open>
  Runtime values, \<open>crates/lex-bytecode/src/value.rs\<close>, and the key of the cache of pure calls,
  \<open>crates/lex-bytecode/src/vm/memo.rs\<close>. Shared pointers to mutable cells (\<open>Actor\<close>, \<open>Ticker\<close>,
  \<open>AskHandle\<close>) are addresses, compared by identity as in the source. An \<open>IndexMap\<close> is the list of
  its entries in insertion order. \<open>None\<close> is a Rust panic.
\<close>

section \<open>Values\<close>

datatype MapKey = MKStr string | MKInt i64

text \<open>What the code observes of Arrow's \<open>RecordBatch\<close>: field names, number of rows, column contents.\<close>

datatype RecordBatch =
  RecordBatch (rb_fields: "string list") (rb_rows: nat) (rb_columns: "byte list list")

datatype Value =
    VInt i64
  | VFloat f64
  | VBool bool
  | VStr string
  | VBytes "byte list"
  | VUnit
  | VList "Value list"
  | VTuple "Value list"
  | VRecord nat "(string \<times> Value) list"     \<comment> \<open>shape_id, fields\<close>
  | VStackRecord nat nat nat                \<comment> \<open>shape_id, slab_start, field_count\<close>
  | VStackTuple nat nat                     \<comment> \<open>slab_start, arity\<close>
  | VArenaRecord nat nat nat                \<comment> \<open>shape_id, slab_start, field_count\<close>
  | VArenaTuple nat nat                     \<comment> \<open>slab_start, arity\<close>
  | VVariant string "Value list"
  | VClosure nat "byte list" "Value list"   \<comment> \<open>fn_id, body_hash, captures\<close>
  | VF64Array nat nat "f64 list"
  | VMap "(MapKey \<times> Value) list"
  | VSet "MapKey list"
  | VDeque "Value list"
  | VActor nat
  | VTicker nat
  | VAskHandle nat
  | VArrowTable RecordBatch

definition NO_SHAPE_ID :: nat where
  "NO_SHAPE_ID = 2 ^ 32 - 1"

definition as_int :: "Value \<Rightarrow> i64 option" where
  "as_int v = (case v of VInt n \<Rightarrow> Some n | _ \<Rightarrow> None)"

definition as_float :: "Value \<Rightarrow> f64 option" where
  "as_float v = (case v of VFloat n \<Rightarrow> Some n | _ \<Rightarrow> None)"

definition as_bool :: "Value \<Rightarrow> bool option" where
  "as_bool v = (case v of VBool b \<Rightarrow> Some b | _ \<Rightarrow> None)"

definition as_str :: "Value \<Rightarrow> string option" where
  "as_str v = (case v of VStr s \<Rightarrow> Some s | _ \<Rightarrow> None)"

primrec contains_arena_record :: "Value \<Rightarrow> bool" where
  "contains_arena_record (VInt _) = False"
| "contains_arena_record (VFloat _) = False"
| "contains_arena_record (VBool _) = False"
| "contains_arena_record (VStr _) = False"
| "contains_arena_record (VBytes _) = False"
| "contains_arena_record VUnit = False"
| "contains_arena_record (VList items) = list_ex id (map contains_arena_record items)"
| "contains_arena_record (VTuple items) = list_ex id (map contains_arena_record items)"
| "contains_arena_record (VRecord _ fs) =
     list_ex snd (map (map_prod id contains_arena_record) fs)"
| "contains_arena_record (VStackRecord _ _ _) = False"
| "contains_arena_record (VStackTuple _ _) = False"
| "contains_arena_record (VArenaRecord _ _ _) = True"
| "contains_arena_record (VArenaTuple _ _) = True"
| "contains_arena_record (VVariant _ args) = list_ex id (map contains_arena_record args)"
| "contains_arena_record (VClosure _ _ captures) = list_ex id (map contains_arena_record captures)"
| "contains_arena_record (VF64Array _ _ _) = False"
| "contains_arena_record (VMap m) = list_ex snd (map (map_prod id contains_arena_record) m)"
| "contains_arena_record (VSet _) = False"
| "contains_arena_record (VDeque items) = list_ex id (map contains_arena_record items)"
| "contains_arena_record (VActor _) = False"
| "contains_arena_record (VTicker _) = False"
| "contains_arena_record (VAskHandle _) = False"
| "contains_arena_record (VArrowTable _) = False"

section \<open>Equality\<close>

text \<open>
  \<open>PartialEq for Value\<close>. Comparing a frame-local or arena handle panics. The list functions take the
  comparisons of the left elements: vectors compare element by element once their lengths agree,
  index maps look every key of the left up on the right, ordered maps compare entry by entry. The
  shortcut for two lists that share one buffer is left out; it answers what the comparison answers
  except on a list that holds a NaN or a handle.
\<close>

definition is_handle :: "Value \<Rightarrow> bool" where
  "is_handle v =
     (case v of VStackRecord _ _ _ \<Rightarrow> True | VStackTuple _ _ \<Rightarrow> True
      | VArenaRecord _ _ _ \<Rightarrow> True | VArenaTuple _ _ \<Rightarrow> True | _ \<Rightarrow> False)"

fun all_in_order :: "bool option list \<Rightarrow> bool option" where
  "all_in_order [] = Some True"
| "all_in_order (r # rs) =
     (case r of None \<Rightarrow> None | Some False \<Rightarrow> Some False | Some True \<Rightarrow> all_in_order rs)"

definition eq_values :: "(Value \<Rightarrow> bool option) list \<Rightarrow> Value list \<Rightarrow> bool option" where
  "eq_values es ws =
     (if length es \<noteq> length ws then Some False else all_in_order (map2 (\<lambda>e w. e w) es ws))"

definition eq_fields ::
  "(string \<times> (Value \<Rightarrow> bool option)) list \<Rightarrow> (string \<times> Value) list \<Rightarrow> bool option" where
  "eq_fields es fs =
     (if length es \<noteq> length fs then Some False
      else all_in_order (map (\<lambda>(k, e). case map_of fs k of Some w \<Rightarrow> e w | None \<Rightarrow> Some False) es))"

definition eq_entries ::
  "(MapKey \<times> (Value \<Rightarrow> bool option)) list \<Rightarrow> (MapKey \<times> Value) list \<Rightarrow> bool option" where
  "eq_entries es fs =
     (if length es \<noteq> length fs then Some False
      else all_in_order (map2 (\<lambda>(k, e) (k', w). if k = k' then e w else Some False) es fs))"

primrec value_eq :: "fpu \<Rightarrow> Value \<Rightarrow> Value \<Rightarrow> bool option" where
  "value_eq F (VInt a) w =
     (if is_handle w then None else case w of VInt b \<Rightarrow> Some (a = b) | _ \<Rightarrow> Some False)"
| "value_eq F (VFloat a) w =
     (if is_handle w then None else case w of VFloat b \<Rightarrow> Some (f_eq F a b) | _ \<Rightarrow> Some False)"
| "value_eq F (VBool a) w =
     (if is_handle w then None else case w of VBool b \<Rightarrow> Some (a = b) | _ \<Rightarrow> Some False)"
| "value_eq F (VStr a) w =
     (if is_handle w then None else case w of VStr b \<Rightarrow> Some (a = b) | _ \<Rightarrow> Some False)"
| "value_eq F (VBytes a) w =
     (if is_handle w then None else case w of VBytes b \<Rightarrow> Some (a = b) | _ \<Rightarrow> Some False)"
| "value_eq F VUnit w =
     (if is_handle w then None else case w of VUnit \<Rightarrow> Some True | _ \<Rightarrow> Some False)"
| "value_eq F (VList a) w =
     (if is_handle w then None
      else case w of VList b \<Rightarrow> eq_values (map (value_eq F) a) b | _ \<Rightarrow> Some False)"
| "value_eq F (VTuple a) w =
     (if is_handle w then None
      else case w of VTuple b \<Rightarrow> eq_values (map (value_eq F) a) b | _ \<Rightarrow> Some False)"
| "value_eq F (VRecord _ a) w =
     (if is_handle w then None
      else case w of VRecord _ b \<Rightarrow> eq_fields (map (map_prod id (value_eq F)) a) b | _ \<Rightarrow> Some False)"
| "value_eq F (VStackRecord _ _ _) w = None"
| "value_eq F (VStackTuple _ _) w = None"
| "value_eq F (VArenaRecord _ _ _) w = None"
| "value_eq F (VArenaTuple _ _) w = None"
| "value_eq F (VVariant an aa) w =
     (if is_handle w then None
      else case w of
          VVariant bn ba \<Rightarrow> if an = bn then eq_values (map (value_eq F) aa) ba else Some False
        | _ \<Rightarrow> Some False)"
| "value_eq F (VClosure _ ah ac) w =
     (if is_handle w then None
      else case w of
          VClosure _ bh bc \<Rightarrow> if ah = bh then eq_values (map (value_eq F) ac) bc else Some False
        | _ \<Rightarrow> Some False)"
| "value_eq F (VF64Array ar ac ad) w =
     (if is_handle w then None
      else case w of
          VF64Array br bc bd \<Rightarrow>
            Some (ar = br \<and> ac = bc \<and> length ad = length bd \<and> list_all2 (f_eq F) ad bd)
        | _ \<Rightarrow> Some False)"
| "value_eq F (VMap a) w =
     (if is_handle w then None
      else case w of VMap b \<Rightarrow> eq_entries (map (map_prod id (value_eq F)) a) b | _ \<Rightarrow> Some False)"
| "value_eq F (VSet a) w =
     (if is_handle w then None else case w of VSet b \<Rightarrow> Some (a = b) | _ \<Rightarrow> Some False)"
| "value_eq F (VDeque a) w =
     (if is_handle w then None
      else case w of VDeque b \<Rightarrow> eq_values (map (value_eq F) a) b | _ \<Rightarrow> Some False)"
| "value_eq F (VActor a) w =
     (if is_handle w then None else case w of VActor b \<Rightarrow> Some (a = b) | _ \<Rightarrow> Some False)"
| "value_eq F (VTicker a) w =
     (if is_handle w then None else case w of VTicker b \<Rightarrow> Some (a = b) | _ \<Rightarrow> Some False)"
| "value_eq F (VAskHandle a) w =
     (if is_handle w then None else case w of VAskHandle b \<Rightarrow> Some (a = b) | _ \<Rightarrow> Some False)"
| "value_eq F (VArrowTable a) w =
     (if is_handle w then None else case w of VArrowTable b \<Rightarrow> Some (a = b) | _ \<Rightarrow> Some False)"

end
