(* ===== verification/Bc_Program.thy ===== *)
theory Bc_Program
  imports Bc_Op Bc_Value
begin

text \<open>
  Compiled programs, \<open>crates/lex-bytecode/src/program.rs\<close>, and the constant pool of \<open>op.rs\<close>. Index
  maps from names are association lists.
\<close>

datatype Const =
    ConstInt i64
  | ConstFloat f64
  | ConstBool bool
  | ConstStr string
  | ConstBytes "byte list"
  | ConstUnit
  | FieldName string
  | VariantName string
  | NodeId string

record DeclaredEffect =
  de_kind :: string
  de_arg :: "AstEffectArg option"

record Refinement =
  rf_binding :: string
  rf_predicate :: CExpr

record Function =
  fn_name :: string
  fn_arity :: nat
  fn_locals_count :: nat
  fn_code :: "Op list"
  fn_effects :: "DeclaredEffect list"
  fn_body_hash :: "byte list"
  fn_refinements :: "Refinement option list"
  fn_field_ic_sites :: nat

record Program =
  pg_constants :: "Const list"
  pg_functions :: "Function list"
  pg_function_names :: "(string \<times> nat) list"
  pg_module_aliases :: "(string \<times> string) list"
  pg_entry :: "nat option"
  pg_record_shapes :: "nat list list"

definition lookup_fn :: "Program \<Rightarrow> string \<Rightarrow> nat option" where
  "lookup_fn P name = map_of (pg_function_names P) name"

definition declared_effects :: "Program \<Rightarrow> DeclaredEffect list" where
  "declared_effects P =
     fold (\<lambda>f out. fold (\<lambda>e out. if e \<in> set out then out else out @ [e]) (fn_effects f) out)
       (pg_functions P) []"

text \<open>A function of the given code with nothing declared.\<close>

definition plain_function :: "string \<Rightarrow> nat \<Rightarrow> nat \<Rightarrow> Op list \<Rightarrow> Function" where
  "plain_function name arity locals code =
     \<lparr>fn_name = name, fn_arity = arity, fn_locals_count = locals, fn_code = code, fn_effects = [],
      fn_body_hash = replicate 16 0, fn_refinements = [], fn_field_ic_sites = 0\<rparr>"

end
