(* ===== verification/Bc_Memo.thy ===== *)
theory Bc_Memo
  imports Bc_Value
begin

text \<open>
  The key of the cache of pure calls and its admission test, \<open>crates/lex-bytecode/src/vm/memo.rs\<close>.
  The cache is looked up by a digest of the arguments with no comparison afterwards, so what
  matters is which argument lists share a digest. The hasher is the standard library's
  \<open>DefaultHasher\<close>: a parameter \<open>H\<close> from the bytes written to it to its \<open>finish\<close>. The functions
  below build the bytes; \<open>None\<close> is a panic.
\<close>

section \<open>The admission test\<close>

definition MEMO_WARMUP_CALLS :: nat where
  "MEMO_WARMUP_CALLS = 64"

definition MEMO_MAX_ARG_BYTES :: nat where
  "MEMO_MAX_ARG_BYTES = 4096"

record MemoFnState =
  mf_calls :: nat
  mf_hits :: nat
  mf_enabled :: bool

definition memo_fn_default :: MemoFnState where
  "memo_fn_default = \<lparr>mf_calls = 0, mf_hits = 0, mf_enabled = True\<rparr>"

text \<open>\<open>walk\<close> returns whether the budget is exceeded and what is left of it; \<open>any\<close> stops at the first.\<close>

fun any_walk :: "(nat \<Rightarrow> bool \<times> nat) list \<Rightarrow> nat \<Rightarrow> bool \<times> nat" where
  "any_walk [] remaining = (False, remaining)"
| "any_walk (w # ws) remaining =
     (case w remaining of (True, r) \<Rightarrow> (True, r) | (False, r) \<Rightarrow> any_walk ws r)"

definition spend :: "nat \<Rightarrow> (nat \<Rightarrow> bool \<times> nat) list \<Rightarrow> nat \<Rightarrow> bool \<times> nat" where
  "spend cost ws remaining =
     (if cost > remaining then (True, remaining) else any_walk ws (remaining - cost))"

primrec memo_walk :: "Value \<Rightarrow> nat \<Rightarrow> bool \<times> nat" where
  "memo_walk (VInt _) = spend 1 []"
| "memo_walk (VFloat _) = spend 1 []"
| "memo_walk (VBool _) = spend 1 []"
| "memo_walk (VStr s) = spend (length s + 1) []"
| "memo_walk (VBytes b) = spend (length b + 1) []"
| "memo_walk VUnit = spend 1 []"
| "memo_walk (VList items) = spend 1 (map memo_walk items)"
| "memo_walk (VTuple items) = spend 1 (map memo_walk items)"
| "memo_walk (VRecord _ fs) = spend 1 (map snd (map (map_prod id memo_walk) fs))"
| "memo_walk (VStackRecord _ _ _) = spend 1 []"
| "memo_walk (VStackTuple _ _) = spend 1 []"
| "memo_walk (VArenaRecord _ _ _) = spend 1 []"
| "memo_walk (VArenaTuple _ _) = spend 1 []"
| "memo_walk (VVariant _ args) = spend 1 (map memo_walk args)"
| "memo_walk (VClosure _ _ _) = spend 1 []"
| "memo_walk (VF64Array _ _ _) = spend 1 []"
| "memo_walk (VMap m) = spend 1 (map snd (map (map_prod id memo_walk) m))"
| "memo_walk (VSet _) = spend 1 []"
| "memo_walk (VDeque _) = spend 1 []"
| "memo_walk (VActor _) = spend 1 []"
| "memo_walk (VTicker _) = spend 1 []"
| "memo_walk (VAskHandle _) = spend 1 []"
| "memo_walk (VArrowTable _) = spend 1 []"

definition memo_args_exceed :: "Value list \<Rightarrow> nat \<Rightarrow> bool" where
  "memo_args_exceed args budget = fst (any_walk (map memo_walk args) budget)"

section \<open>The digest\<close>

definition write_u64 :: "u64 \<Rightarrow> byte list" where
  "write_u64 n = rev (to_be_bytes n)"

definition write_usize :: "nat \<Rightarrow> byte list" where
  "write_usize n = write_u64 (word_of_nat n)"

definition write_u32 :: "nat \<Rightarrow> byte list" where
  "write_u32 n = rev (be_bytes 4 (n mod 2 ^ 32))"

definition write_str :: "string \<Rightarrow> byte list" where
  "write_str s = map (\<lambda>c. word_of_nat (of_char c)) s"

fun hash_mapkey_into :: "MapKey \<Rightarrow> byte list" where
  "hash_mapkey_into (MKStr s) = 0x01 # write_usize (length s) @ write_str s"
| "hash_mapkey_into (MKInt n) = 0x02 # write_u64 n"

fun cat_all :: "byte list option list \<Rightarrow> byte list option" where
  "cat_all [] = Some []"
| "cat_all (r # rs) =
     (case r of None \<Rightarrow> None | Some b \<Rightarrow> (case cat_all rs of None \<Rightarrow> None | Some bs \<Rightarrow> Some (b @ bs)))"

text \<open>The digests of the fields of a record are summed, so their order does not matter.\<close>

fun combine_fields :: "(byte list \<Rightarrow> u64) \<Rightarrow> (string \<times> byte list option) list \<Rightarrow> u64 option" where
  "combine_fields H [] = Some 0"
| "combine_fields H ((k, r) # rs) =
     (case r of
        None \<Rightarrow> None
      | Some b \<Rightarrow>
          (case combine_fields H rs of
             None \<Rightarrow> None
           | Some c \<Rightarrow> Some (H (write_str k @ [0xff] @ b) + c)))"

definition tagged :: "byte \<Rightarrow> byte list \<Rightarrow> byte list option \<Rightarrow> byte list option" where
  "tagged tag prefix r = map_option (\<lambda>b. tag # prefix @ b) r"

primrec hash_value_into :: "(byte list \<Rightarrow> u64) \<Rightarrow> Value \<Rightarrow> byte list option" where
  "hash_value_into H (VInt n) = Some (0x01 # write_u64 n)"
| "hash_value_into H (VFloat f) = Some (0x02 # write_u64 f)"
| "hash_value_into H (VBool b) = Some [0x03, if b then 1 else 0]"
| "hash_value_into H (VStr s) = Some (0x04 # write_usize (length s) @ write_str s)"
| "hash_value_into H (VBytes b) = Some (0x05 # write_usize (length b) @ b)"
| "hash_value_into H VUnit = Some [0x06]"
| "hash_value_into H (VList items) =
     tagged 0x07 (write_usize (length items)) (cat_all (map (hash_value_into H) items))"
| "hash_value_into H (VTuple items) =
     tagged 0x08 (write_usize (length items)) (cat_all (map (hash_value_into H) items))"
| "hash_value_into H (VDeque items) =
     tagged 0x09 (write_usize (length items)) (cat_all (map (hash_value_into H) items))"
| "hash_value_into H (VRecord _ fs) =
     map_option (\<lambda>c. 0x0a # write_u64 c @ write_usize (length fs))
       (combine_fields H (map (map_prod id (hash_value_into H)) fs))"
| "hash_value_into H (VVariant name args) =
     tagged 0x0b (write_usize (length name) @ write_str name @ write_usize (length args))
       (cat_all (map (hash_value_into H) args))"
| "hash_value_into H (VClosure _ body_hash captures) =
     tagged 0x0c (body_hash @ write_usize (length captures))
       (cat_all (map (hash_value_into H) captures))"
| "hash_value_into H (VF64Array rows cols data) =
     Some (0x0d # write_u32 rows @ write_u32 cols @ concat (map write_u64 data))"
| "hash_value_into H (VMap m) =
     tagged 0x0e (write_usize (length m))
       (cat_all (map (\<lambda>(k, r). map_option (\<lambda>b. hash_mapkey_into k @ b) r)
          (map (map_prod id (hash_value_into H)) m)))"
| "hash_value_into H (VSet s) =
     Some (0x0f # write_usize (length s) @ concat (map hash_mapkey_into s))"
| "hash_value_into H (VActor a) = Some (0x10 # write_usize a)"
| "hash_value_into H (VTicker a) = Some (0x11 # write_usize a)"
| "hash_value_into H (VAskHandle a) = Some (0x13 # write_usize a)"
| "hash_value_into H (VArrowTable t) =
     Some (0x12 # write_usize (rb_rows t) @ write_usize (length (rb_columns t)) @
        concat (map (\<lambda>f. write_str f @ [0xfe]) (rb_fields t)))"
| "hash_value_into H (VStackRecord _ _ _) = None"
| "hash_value_into H (VStackTuple _ _) = None"
| "hash_value_into H (VArenaRecord _ _ _) = None"
| "hash_value_into H (VArenaTuple _ _) = None"

definition hash_call_args :: "(byte list \<Rightarrow> u64) \<Rightarrow> Value list \<Rightarrow> byte list option" where
  "hash_call_args H args =
     map_option (\<lambda>b.
         let fed = write_usize (length args) @ b
         in write_u64 (H fed) @ write_u64 (H (0x9e # fed)))
       (cat_all (map (hash_value_into H) args))"

section \<open>Equal arguments have equal keys\<close>

text \<open>
  The values the contract covers: no floating-point numbers (their bit patterns are hashed, so the
  two zeros differ), and records without a repeated field name, which index maps never have.
\<close>

primrec memo_comparable :: "Value \<Rightarrow> bool" where
  "memo_comparable (VInt _) = True"
| "memo_comparable (VFloat _) = False"
| "memo_comparable (VBool _) = True"
| "memo_comparable (VStr _) = True"
| "memo_comparable (VBytes _) = True"
| "memo_comparable VUnit = True"
| "memo_comparable (VList items) = list_all id (map memo_comparable items)"
| "memo_comparable (VTuple items) = list_all id (map memo_comparable items)"
| "memo_comparable (VRecord _ fs) =
     (distinct (map fst fs) \<and> list_all snd (map (map_prod id memo_comparable) fs))"
| "memo_comparable (VStackRecord _ _ _) = True"
| "memo_comparable (VStackTuple _ _) = True"
| "memo_comparable (VArenaRecord _ _ _) = True"
| "memo_comparable (VArenaTuple _ _) = True"
| "memo_comparable (VVariant _ args) = list_all id (map memo_comparable args)"
| "memo_comparable (VClosure _ _ captures) = list_all id (map memo_comparable captures)"
| "memo_comparable (VF64Array _ _ _) = False"
| "memo_comparable (VMap m) = list_all snd (map (map_prod id memo_comparable) m)"
| "memo_comparable (VSet _) = True"
| "memo_comparable (VDeque items) = list_all id (map memo_comparable items)"
| "memo_comparable (VActor _) = True"
| "memo_comparable (VTicker _) = True"
| "memo_comparable (VAskHandle _) = True"
| "memo_comparable (VArrowTable _) = True"

lemma all_in_order_True: "all_in_order rs = Some True \<longleftrightarrow> (\<forall>r \<in> set rs. r = Some True)"
  by (induction rs) (auto split: option.splits bool.splits)

lemma eq_values_True:
  "eq_values (map e vs) ws = Some True \<longleftrightarrow> list_all2 (\<lambda>v w. e v w = Some True) vs ws"
  by (simp add: eq_values_def all_in_order_True list_all2_iff zip_map1 split_def)

lemma eq_entries_True:
  "eq_entries (map (map_prod id e) vs) ws = Some True \<longleftrightarrow>
     list_all2 (\<lambda>(k, v) (k', w). k = k' \<and> e v w = Some True) vs ws"
  by (auto simp: eq_entries_def all_in_order_True list_all2_iff zip_map1 split_def
      simp del: if_image_distrib split: if_splits)

lemma eq_fields_True:
  "eq_fields (map (map_prod id e) vs) ws = Some True \<longleftrightarrow>
     length vs = length ws \<and>
     (\<forall>kv \<in> set vs. \<exists>w. map_of ws (fst kv) = Some w \<and> e (snd kv) w = Some True)"
  by (auto simp: eq_fields_def all_in_order_True split_def split: option.splits)

lemma combine_fields_sum:
  "combine_fields H es =
     (if \<exists>e \<in> set es. snd e = None then None
      else Some (\<Sum>e \<leftarrow> es. H (write_str (fst e) @ [0xff] @ the (snd e))))"
  by (induction H es rule: combine_fields.induct) (auto split: option.splits)

lemma combine_fields_mset:
  assumes "mset es = mset fs"
  shows "combine_fields H es = combine_fields H fs"
proof -
  have "set es = set fs"
    using assms by (rule mset_eq_setD)
  moreover have "sum_mset (mset (map (\<lambda>e. H (write_str (fst e) @ [0xff] @ the (snd e))) es)) =
      sum_mset (mset (map (\<lambda>e. H (write_str (fst e) @ [0xff] @ the (snd e))) fs))"
    using assms by simp
  ultimately show ?thesis
    unfolding combine_fields_sum sum_mset_sum_list by simp
qed

text \<open>Index maps with the same entries have the same entries with digests, up to order.\<close>

lemma hashed_fields_mset:
  assumes len: "length vs = length ws"
    and da: "distinct (map fst vs)" and db: "distinct (map fst ws)"
    and eq: "\<And>kv. kv \<in> set vs \<Longrightarrow> \<exists>w. map_of ws (fst kv) = Some w \<and> h (snd kv) = h w"
  shows "mset (map (map_prod id h) vs) = mset (map (map_prod id h) ws)"
proof -
  let ?a = "map (map_prod id h) vs" and ?b = "map (map_prod id h) ws"
  have keys: "map fst ?a = map fst vs" "map fst ?b = map fst ws"
    by auto
  have sub: "set ?a \<subseteq> set ?b"
  proof
    fix e assume "e \<in> set ?a"
    then obtain kv where "kv \<in> set vs" "e = map_prod id h kv" by auto
    then obtain w where "map_of ws (fst kv) = Some w" "h (snd kv) = h w"
      using eq by blast
    then show "e \<in> set ?b"
      using \<open>e = map_prod id h kv\<close> map_of_SomeD [of ws "fst kv" w]
      by (auto simp: image_iff prod_eq_iff intro!: bexI [of _ "(fst kv, w)"])
  qed
  have dist: "distinct ?a" "distinct ?b"
    using da db unfolding keys [symmetric] by (simp_all only: distinct_map)
  have "card (set ?b) = card (set ?a)"
    using dist len by (simp only: distinct_card length_map)
  then have "set ?a = set ?b"
    by (intro card_subset_eq [OF _ sub]) simp_all
  then show ?thesis
    using dist set_eq_iff_mset_eq_distinct by blast
qed

lemma hashed_list_cong:
  assumes "list_all2 R vs ws"
    and "\<And>v w. v \<in> set vs \<Longrightarrow> w \<in> set ws \<Longrightarrow> R v w \<Longrightarrow> h v = h w"
  shows "map h vs = map h ws \<and> length vs = length ws"
  using assms by (induction rule: list_all2_induct) auto

lemma hash_respects_eq:
  "memo_comparable a \<Longrightarrow> memo_comparable b \<Longrightarrow> value_eq F a b = Some True \<Longrightarrow>
   hash_value_into H a = hash_value_into H b"
proof (induction a arbitrary: b)
  case (VList vs)
  then show ?case
    using hashed_list_cong [of "\<lambda>v w. value_eq F v w = Some True" vs _ "hash_value_into H"]
    by (auto simp: eq_values_True list_all_iff split: Value.splits if_splits)
next
  case (VTuple vs)
  then show ?case
    using hashed_list_cong [of "\<lambda>v w. value_eq F v w = Some True" vs _ "hash_value_into H"]
    by (auto simp: eq_values_True list_all_iff split: Value.splits if_splits)
next
  case (VDeque vs)
  then show ?case
    using hashed_list_cong [of "\<lambda>v w. value_eq F v w = Some True" vs _ "hash_value_into H"]
    by (auto simp: eq_values_True list_all_iff split: Value.splits if_splits)
next
  case (VVariant n vs)
  then show ?case
    using hashed_list_cong [of "\<lambda>v w. value_eq F v w = Some True" vs _ "hash_value_into H"]
    by (auto simp: eq_values_True list_all_iff split: Value.splits if_splits)
next
  case (VClosure f bh vs)
  then show ?case
    using hashed_list_cong [of "\<lambda>v w. value_eq F v w = Some True" vs _ "hash_value_into H"]
    by (auto simp: eq_values_True list_all_iff split: Value.splits if_splits)
next
  case (VRecord sid fs)
  then obtain sid' gs where b: "b = VRecord sid' gs" and len: "length fs = length gs"
    and eq: "\<And>kv. kv \<in> set fs \<Longrightarrow>
      \<exists>w. map_of gs (fst kv) = Some w \<and> value_eq F (snd kv) w = Some True"
    by (auto simp: eq_fields_True split: Value.splits if_splits)
  have "mset (map (map_prod id (hash_value_into H)) fs) = mset (map (map_prod id (hash_value_into H)) gs)"
  proof (rule hashed_fields_mset [OF len])
    fix kv assume kv: "kv \<in> set fs"
    from eq [OF this] obtain w where w: "map_of gs (fst kv) = Some w" "value_eq F (snd kv) w = Some True"
      by blast
    moreover have "memo_comparable (snd kv)" "memo_comparable w"
      using VRecord.prems b kv w(1) by (force simp: list_all_iff dest!: map_of_SomeD)+
    moreover have "snd kv \<in> Basic_BNFs.snds kv"
      by (cases kv) auto
    ultimately show "\<exists>w. map_of gs (fst kv) = Some w \<and> hash_value_into H (snd kv) = hash_value_into H w"
      using VRecord.IH [OF kv] by blast
  qed (use VRecord.prems b in auto)
  then show ?case
    using b len combine_fields_mset by (metis hash_value_into.simps(10))
next
  case (VMap m)
  then obtain m' where b: "b = VMap m'"
    and eq: "list_all2 (\<lambda>(k, v) (k', w). k = k' \<and> value_eq F v w = Some True) m m'"
    by (auto simp: eq_entries_True split: Value.splits if_splits)
  have "map (map_prod id (hash_value_into H)) m = map (map_prod id (hash_value_into H)) m' \<and>
      length m = length m'"
  proof (rule hashed_list_cong [OF eq])
    fix e e' assume e: "e \<in> set m" "e' \<in> set m'"
      and R: "(case e of (k, v) \<Rightarrow> \<lambda>(k', w). k = k' \<and> value_eq F v w = Some True) e'"
    have "memo_comparable (snd e)" "memo_comparable (snd e')"
      using VMap.prems b e by (force simp: list_all_iff)+
    then show "map_prod id (hash_value_into H) e = map_prod id (hash_value_into H) e'"
      using VMap.IH [OF e(1)] R by (auto split: prod.splits)
  qed
  then show ?case
    using b by (metis hash_value_into.simps(14))
qed (auto split: Value.splits if_splits)

text \<open>Two tables with the same field names and dimensions are one key, whatever they hold.\<close>

lemma tables_share_key:
  "rb_fields t = rb_fields u \<Longrightarrow> rb_rows t = rb_rows u \<Longrightarrow>
   length (rb_columns t) = length (rb_columns u) \<Longrightarrow>
   hash_call_args H [VArrowTable t] = hash_call_args H [VArrowTable u]"
  by (simp add: hash_call_args_def)

text \<open>What the admission test charges.\<close>

primrec memo_weight :: "Value \<Rightarrow> nat" where
  "memo_weight (VInt _) = 1"
| "memo_weight (VFloat _) = 1"
| "memo_weight (VBool _) = 1"
| "memo_weight (VStr s) = length s + 1"
| "memo_weight (VBytes b) = length b + 1"
| "memo_weight VUnit = 1"
| "memo_weight (VList items) = 1 + sum_list (map memo_weight items)"
| "memo_weight (VTuple items) = 1 + sum_list (map memo_weight items)"
| "memo_weight (VRecord _ fs) = 1 + sum_list (map snd (map (map_prod id memo_weight) fs))"
| "memo_weight (VStackRecord _ _ _) = 1"
| "memo_weight (VStackTuple _ _) = 1"
| "memo_weight (VArenaRecord _ _ _) = 1"
| "memo_weight (VArenaTuple _ _) = 1"
| "memo_weight (VVariant _ args) = 1 + sum_list (map memo_weight args)"
| "memo_weight (VClosure _ _ _) = 1"
| "memo_weight (VF64Array _ _ _) = 1"
| "memo_weight (VMap m) = 1 + sum_list (map snd (map (map_prod id memo_weight) m))"
| "memo_weight (VSet _) = 1"
| "memo_weight (VDeque _) = 1"
| "memo_weight (VActor _) = 1"
| "memo_weight (VTicker _) = 1"
| "memo_weight (VAskHandle _) = 1"
| "memo_weight (VArrowTable _) = 1"

definition charges :: "(nat \<Rightarrow> bool \<times> nat) \<Rightarrow> nat \<Rightarrow> bool" where
  "charges w c \<longleftrightarrow> (\<forall>r. fst (w r) = (c > r) \<and> (c \<le> r \<longrightarrow> snd (w r) = r - c))"

lemma chargesD:
  assumes "charges w c"
  shows "c > r \<Longrightarrow> \<exists>r'. w r = (True, r')" and "c \<le> r \<Longrightarrow> w r = (False, r - c)"
  using assms unfolding charges_def by (metis linorder_not_le prod.collapse)+

lemma charges_any: "list_all2 charges ws cs \<Longrightarrow> charges (any_walk ws) (sum_list cs)"
proof (induction rule: list_all2_induct)
  case (Cons w ws c cs)
  show ?case unfolding charges_def
  proof (intro allI)
    fix r
    show "fst (any_walk (w # ws) r) = (sum_list (c # cs) > r) \<and>
        (sum_list (c # cs) \<le> r \<longrightarrow> snd (any_walk (w # ws) r) = r - sum_list (c # cs))"
    proof (cases "c > r")
      case True
      then obtain r' where "w r = (True, r')"
        using chargesD(1) [OF Cons(1)] by blast
      then show ?thesis using True by simp
    next
      case False
      then have "w r = (False, r - c)"
        using chargesD(2) [OF Cons(1)] by simp
      then show ?thesis using False Cons(3) by (simp add: charges_def) linarith
    qed
  qed
qed (simp add: charges_def)

lemma charges_spend: "list_all2 charges ws cs \<Longrightarrow> charges (spend c ws) (c + sum_list cs)"
  using charges_any [of ws cs] unfolding charges_def spend_def by (simp; linarith)

lemma charges_map: "(\<And>v. v \<in> set vs \<Longrightarrow> charges (f v) (g v)) \<Longrightarrow> list_all2 charges (map f vs) (map g vs)"
  by (simp add: list.rel_map list.rel_refl_strong)

lemmas charges_nested = charges_spend [where c = 1, OF charges_map, simplified]

lemma memo_walk_charges: "charges (memo_walk v) (memo_weight v)"
proof (induction v)
  case (VRecord sid fs)
  then show ?case
    using charges_nested [of fs "\<lambda>kv. memo_walk (snd kv)" "\<lambda>kv. memo_weight (snd kv)"]
    by (auto simp: comp_def prod_set_simps snds.simps)
next
  case (VMap m)
  then show ?case
    using charges_nested [of m "\<lambda>kv. memo_walk (snd kv)" "\<lambda>kv. memo_weight (snd kv)"]
    by (auto simp: comp_def snds.simps)
qed (use charges_spend [of "[]" "[]"] charges_nested [of _ memo_walk memo_weight] in simp_all)

lemma memo_args_exceed_weight:
  "memo_args_exceed args budget \<longleftrightarrow> sum_list (map memo_weight args) > budget"
  using charges_any [OF charges_map [of args memo_walk memo_weight]] memo_walk_charges
  by (auto simp: memo_args_exceed_def charges_def)

section \<open>Properties\<close>


definition memo_sample :: "nat \<Rightarrow> string list \<Rightarrow> Value" where
  "memo_sample sid ks = VRecord sid (map (\<lambda>k. (k, VList [VInt 1, VStr k])) ks)"


text \<open>
  Tables are hashed by field names and dimensions only, so two different tables of the same
  shape share a key that the admission test lets through: a cached result of one answers for the
  other.
\<close>

theorem memo_key_ignores_table_cells:
  "\<exists>t u. value_eq F (VArrowTable t) (VArrowTable u) = Some False \<and>
     hash_call_args H [VArrowTable t] = hash_call_args H [VArrowTable u] \<and>
     hash_call_args H [VArrowTable t] \<noteq> None \<and>
     \<not> memo_args_exceed [VArrowTable t] MEMO_MAX_ARG_BYTES \<and> \<not> contains_arena_record (VArrowTable t)"
proof (intro exI conjI)
  let ?t = "RecordBatch [''x''] 1 [[0]]" and ?u = "RecordBatch [''x''] 1 [[1]]"
  show "value_eq F (VArrowTable ?t) (VArrowTable ?u) = Some False"
    by (simp add: is_handle_def)
  show "hash_call_args H [VArrowTable ?t] = hash_call_args H [VArrowTable ?u]"
    by (rule tables_share_key) simp_all
  show "hash_call_args H [VArrowTable ?t] \<noteq> None"
    by (simp add: hash_call_args_def)
  show "\<not> memo_args_exceed [VArrowTable ?t] MEMO_MAX_ARG_BYTES"
    by (simp add: memo_args_exceed_weight MEMO_MAX_ARG_BYTES_def)
  show "\<not> contains_arena_record (VArrowTable ?t)"
    by simp
qed

end
