(* ===== verification/Ref_Check.thy ===== *)
theory Ref_Check
  imports Bc_Value
begin

text \<open>
  Refinement predicates are decided twice: at compile time on literal arguments
  (\<open>crates/lex-types/src/discharge.rs\<close>) and at run time on values (\<open>eval_refinement\<close> in
  \<open>crates/lex-bytecode/src/vm/mod.rs\<close>). Both evaluators are modelled here, with their error texts
  reduced to the reason, and compared. Integer \<open>+\<close>, \<open>-\<close> and \<open>*\<close> wrap as in a release build;
  \<open>/\<close> and \<open>%\<close> panic on \<open>i64::MIN\<close> by \<open>-1\<close>, which is \<open>None\<close>.
\<close>

section \<open>Results\<close>

datatype refine_error =
    FreeVar string
  | UnsupportedUnary
  | NonBoolOperand
  | UnsupportedNode
  | UnsupportedBinop
  | NotABool

type_synonym 'a eval_result = "(refine_error + 'a) option"

definition ok :: "'a \<Rightarrow> 'a eval_result" where
  "ok v = Some (Inr v)"

definition err :: "refine_error \<Rightarrow> 'a eval_result" where
  "err e = Some (Inl e)"

definition ebind :: "'a eval_result \<Rightarrow> ('a \<Rightarrow> 'b eval_result) \<Rightarrow> 'b eval_result" where
  "ebind m f = (case m of None \<Rightarrow> None | Some (Inl e) \<Rightarrow> Some (Inl e) | Some (Inr v) \<Rightarrow> f v)"

lemma ebind_cong [fundef_cong]:
  "m = m' \<Longrightarrow> (\<And>v. m' = Some (Inr v) \<Longrightarrow> f v = g v) \<Longrightarrow> ebind m f = ebind m' g"
  by (auto simp: ebind_def split: option.splits sum.splits)

lemma ebind_simps [simp]:
  "ebind None f = None" "ebind (err e) f = err e" "ebind (ok v) f = f v"
  by (simp_all add: ebind_def ok_def err_def)

section \<open>The static evaluator\<close>

datatype Concrete = CnInt i64 | CnFloat f64 | CnBool bool | CnStr string

fun from_lit :: "fpu \<Rightarrow> CLit \<Rightarrow> Concrete" where
  "from_lit F (LInt n) = CnInt n"
| "from_lit F (LFloat s) = CnFloat (case f_parse F s of Some f \<Rightarrow> f | None \<Rightarrow> 0)"
| "from_lit F (LBool b) = CnBool b"
| "from_lit F (LStr s) = CnStr s"
| "from_lit F _ = CnBool False"

fun arg_to_concrete :: "fpu \<Rightarrow> CExpr \<Rightarrow> Concrete option" where
  "arg_to_concrete F (Literal l) = Some (from_lit F l)"
| "arg_to_concrete F (UnaryOp op' e) =
     (if op' = ''-'' then
        (case e of
           Literal (LInt n) \<Rightarrow> Some (CnInt (- n))
         | Literal (LFloat s) \<Rightarrow> map_option (\<lambda>f. CnFloat (f_neg F f)) (f_parse F s)
         | _ \<Rightarrow> None)
      else None)"
| "arg_to_concrete F _ = None"

fun concrete_eq :: "fpu \<Rightarrow> Concrete \<Rightarrow> Concrete \<Rightarrow> bool" where
  "concrete_eq F (CnInt a) (CnInt b) = (a = b)"
| "concrete_eq F (CnFloat a) (CnFloat b) = f_eq F a b"
| "concrete_eq F (CnBool a) (CnBool b) = (a = b)"
| "concrete_eq F (CnStr a) (CnStr b) = (a = b)"
| "concrete_eq F _ _ = False"

definition apply_binop :: "fpu \<Rightarrow> string \<Rightarrow> Concrete \<Rightarrow> Concrete \<Rightarrow> Concrete eval_result" where
  "apply_binop F op' l r =
     (if op' = ''=='' then ok (CnBool (concrete_eq F l r))
      else if op' = ''!='' then ok (CnBool (\<not> concrete_eq F l r))
      else case (l, r) of
        (CnInt a, CnInt b) \<Rightarrow>
          if op' = ''+'' then ok (CnInt (a + b))
          else if op' = ''-'' then ok (CnInt (a - b))
          else if op' = ''*'' then ok (CnInt (a * b))
          else if op' = ''/'' \<and> b \<noteq> 0 then
            (if div_overflows a b then None else ok (CnInt (wrapping_div a b)))
          else if op' = ''%'' \<and> b \<noteq> 0 then
            (if div_overflows a b then None else ok (CnInt (wrapping_rem a b)))
          else if op' = ''<'' then ok (CnBool (i64_lt a b))
          else if op' = ''<='' then ok (CnBool (i64_le a b))
          else if op' = ''>'' then ok (CnBool (i64_lt b a))
          else if op' = ''>='' then ok (CnBool (i64_le b a))
          else err UnsupportedBinop
      | (CnFloat a, CnFloat b) \<Rightarrow>
          if op' = ''+'' then ok (CnFloat (f_add F a b))
          else if op' = ''-'' then ok (CnFloat (f_sub F a b))
          else if op' = ''*'' then ok (CnFloat (f_mul F a b))
          else if op' = ''/'' then ok (CnFloat (f_div F a b))
          else if op' = ''<'' then ok (CnBool (f_lt F a b))
          else if op' = ''<='' then ok (CnBool (f_le F a b))
          else if op' = ''>'' then ok (CnBool (f_lt F b a))
          else if op' = ''>='' then ok (CnBool (f_le F b a))
          else err UnsupportedBinop
      | _ \<Rightarrow> err UnsupportedBinop)"

definition static_unary :: "fpu \<Rightarrow> string \<Rightarrow> Concrete \<Rightarrow> Concrete eval_result" where
  "static_unary F op' v =
     (case v of
        CnBool b \<Rightarrow> if op' = ''not'' then ok (CnBool (\<not> b)) else err UnsupportedUnary
      | CnInt n \<Rightarrow> if op' = ''-'' then ok (CnInt (- n)) else err UnsupportedUnary
      | CnFloat f \<Rightarrow> if op' = ''-'' then ok (CnFloat (f_neg F f)) else err UnsupportedUnary
      | _ \<Rightarrow> err UnsupportedUnary)"

definition static_bool :: "Concrete \<Rightarrow> bool eval_result" where
  "static_bool v = (case v of CnBool b \<Rightarrow> ok b | _ \<Rightarrow> err NonBoolOperand)"

fun eval :: "fpu \<Rightarrow> CExpr \<Rightarrow> string \<Rightarrow> Concrete \<Rightarrow> Concrete eval_result" where
  "eval F (Literal l) name v = ok (from_lit F l)"
| "eval F (Var n) name v = (if n = name then ok v else err (FreeVar n))"
| "eval F (UnaryOp op' e) name v = ebind (eval F e name v) (static_unary F op')"
| "eval F (BinOp op' lhs rhs) name v =
     (if op' = ''and'' \<or> op' = ''or'' then
        ebind (eval F lhs name v) (\<lambda>l. ebind (static_bool l) (\<lambda>lb.
          if op' = ''and'' \<and> \<not> lb then ok (CnBool False)
          else if op' = ''or'' \<and> lb then ok (CnBool True)
          else ebind (eval F rhs name v) (\<lambda>r. ebind (static_bool r) (\<lambda>b. ok (CnBool b)))))
      else
        ebind (eval F lhs name v) (\<lambda>l. ebind (eval F rhs name v) (\<lambda>r. apply_binop F op' l r)))"
| "eval F _ name v = err UnsupportedNode"

datatype DischargeOutcome = Proved | Refuted | Deferred

text \<open>\<open>None\<close>: the compiler panics.\<close>

definition try_discharge :: "fpu \<Rightarrow> CExpr \<Rightarrow> string \<Rightarrow> CExpr \<Rightarrow> DischargeOutcome option" where
  "try_discharge F predicate binding_name arg =
     (case arg_to_concrete F arg of
        None \<Rightarrow> Some Deferred
      | Some v \<Rightarrow>
          (case eval F predicate binding_name v of
             None \<Rightarrow> None
           | Some (Inr (CnBool True)) \<Rightarrow> Some Proved
           | Some (Inr (CnBool False)) \<Rightarrow> Some Refuted
           | Some _ \<Rightarrow> Some Deferred))"

section \<open>The run-time evaluator\<close>

fun lit_value :: "fpu \<Rightarrow> CLit \<Rightarrow> Value" where
  "lit_value F (LInt n) = VInt n"
| "lit_value F (LFloat s) = VFloat (case f_parse F s of Some f \<Rightarrow> f | None \<Rightarrow> 0)"
| "lit_value F (LBool b) = VBool b"
| "lit_value F (LStr s) = VStr s"
| "lit_value F (LBytes s) = VStr s"
| "lit_value F LUnit = VUnit"

definition values_equal :: "fpu \<Rightarrow> Value \<Rightarrow> Value \<Rightarrow> bool eval_result" where
  "values_equal F l r = map_option Inr (value_eq F l r)"

definition apply_refinement_binop :: "fpu \<Rightarrow> string \<Rightarrow> Value \<Rightarrow> Value \<Rightarrow> Value eval_result" where
  "apply_refinement_binop F op' l r =
     (if op' = ''=='' then ebind (values_equal F l r) (\<lambda>b. ok (VBool b))
      else if op' = ''!='' then ebind (values_equal F l r) (\<lambda>b. ok (VBool (\<not> b)))
      else case (l, r) of
        (VInt a, VInt b) \<Rightarrow>
          if op' = ''+'' then ok (VInt (a + b))
          else if op' = ''-'' then ok (VInt (a - b))
          else if op' = ''*'' then ok (VInt (a * b))
          else if op' = ''/'' \<and> b \<noteq> 0 then
            (if div_overflows a b then None else ok (VInt (wrapping_div a b)))
          else if op' = ''%'' \<and> b \<noteq> 0 then
            (if div_overflows a b then None else ok (VInt (wrapping_rem a b)))
          else if op' = ''<'' then ok (VBool (i64_lt a b))
          else if op' = ''<='' then ok (VBool (i64_le a b))
          else if op' = ''>'' then ok (VBool (i64_lt b a))
          else if op' = ''>='' then ok (VBool (i64_le b a))
          else err UnsupportedBinop
      | (VFloat a, VFloat b) \<Rightarrow>
          if op' = ''+'' then ok (VFloat (f_add F a b))
          else if op' = ''-'' then ok (VFloat (f_sub F a b))
          else if op' = ''*'' then ok (VFloat (f_mul F a b))
          else if op' = ''/'' then ok (VFloat (f_div F a b))
          else if op' = ''<'' then ok (VBool (f_lt F a b))
          else if op' = ''<='' then ok (VBool (f_le F a b))
          else if op' = ''>'' then ok (VBool (f_lt F b a))
          else if op' = ''>='' then ok (VBool (f_le F b a))
          else err UnsupportedBinop
      | _ \<Rightarrow> err UnsupportedBinop)"

definition refine_unary :: "fpu \<Rightarrow> string \<Rightarrow> Value \<Rightarrow> Value eval_result" where
  "refine_unary F op' v =
     (case v of
        VBool b \<Rightarrow> if op' = ''not'' then ok (VBool (\<not> b)) else err UnsupportedUnary
      | VInt n \<Rightarrow> if op' = ''-'' then ok (VInt (- n)) else err UnsupportedUnary
      | VFloat f \<Rightarrow> if op' = ''-'' then ok (VFloat (f_neg F f)) else err UnsupportedUnary
      | _ \<Rightarrow> err UnsupportedUnary)"

definition refine_bool :: "Value \<Rightarrow> bool eval_result" where
  "refine_bool v = (case v of VBool b \<Rightarrow> ok b | _ \<Rightarrow> err NonBoolOperand)"

fun eval_refinement_inner :: "fpu \<Rightarrow> CExpr \<Rightarrow> string \<Rightarrow> Value \<Rightarrow> Value eval_result" where
  "eval_refinement_inner F (Literal l) binding arg = ok (lit_value F l)"
| "eval_refinement_inner F (Var n) binding arg = (if n = binding then ok arg else err (FreeVar n))"
| "eval_refinement_inner F (UnaryOp op' e) binding arg =
     ebind (eval_refinement_inner F e binding arg) (refine_unary F op')"
| "eval_refinement_inner F (BinOp op' lhs rhs) binding arg =
     (if op' = ''and'' \<or> op' = ''or'' then
        ebind (eval_refinement_inner F lhs binding arg) (\<lambda>l. ebind (refine_bool l) (\<lambda>lb.
          if op' = ''and'' \<and> \<not> lb then ok (VBool False)
          else if op' = ''or'' \<and> lb then ok (VBool True)
          else ebind (eval_refinement_inner F rhs binding arg)
                 (\<lambda>r. ebind (refine_bool r) (\<lambda>b. ok (VBool b)))))
      else
        ebind (eval_refinement_inner F lhs binding arg) (\<lambda>l.
          ebind (eval_refinement_inner F rhs binding arg) (\<lambda>r. apply_refinement_binop F op' l r)))"
| "eval_refinement_inner F _ binding arg = err UnsupportedNode"

definition eval_refinement :: "fpu \<Rightarrow> CExpr \<Rightarrow> string \<Rightarrow> Value \<Rightarrow> bool eval_result" where
  "eval_refinement F predicate binding arg =
     ebind (eval_refinement_inner F predicate binding arg)
       (\<lambda>v. case v of VBool b \<Rightarrow> ok b | _ \<Rightarrow> err NotABool)"

section \<open>The two evaluators agree\<close>

fun concrete_value :: "Concrete \<Rightarrow> Value" where
  "concrete_value (CnInt n) = VInt n"
| "concrete_value (CnFloat f) = VFloat f"
| "concrete_value (CnBool b) = VBool b"
| "concrete_value (CnStr s) = VStr s"

text \<open>Literals whose static form is their run-time form: neither bytes nor the unit value.\<close>

fun scalar_lit :: "CLit \<Rightarrow> bool" where
  "scalar_lit (LBytes _) = False"
| "scalar_lit LUnit = False"
| "scalar_lit _ = True"

fun scalar_lits :: "CExpr \<Rightarrow> bool" where
  "scalar_lits (Literal l) = scalar_lit l"
| "scalar_lits (UnaryOp _ e) = scalar_lits e"
| "scalar_lits (BinOp _ l r) = (scalar_lits l \<and> scalar_lits r)"
| "scalar_lits _ = True"

definition lifted :: "Concrete eval_result \<Rightarrow> Value eval_result" where
  "lifted r = map_option (map_sum id concrete_value) r"

lemma lifted_simps [simp]:
  "lifted None = None" "lifted (ok v) = ok (concrete_value v)" "lifted (err e) = err e"
  "lifted (if b then x else y) = (if b then lifted x else lifted y)"
  by (simp_all add: lifted_def ok_def err_def)

lemma lit_value_from_lit: "scalar_lit l \<Longrightarrow> lit_value F l = concrete_value (from_lit F l)"
  by (cases l) auto

lemma lifted_ebind:
  "(\<And>v. r = ok v \<Longrightarrow> lifted (f v) = g (concrete_value v)) \<Longrightarrow> lifted (ebind r f) = ebind (lifted r) g"
  by (auto simp: ebind_def lifted_def ok_def split: option.splits sum.splits)

lemma lifted_unary: "lifted (static_unary F op' v) = refine_unary F op' (concrete_value v)"
  by (cases v) (auto simp: static_unary_def refine_unary_def)

lemma refine_bool_concrete: "refine_bool (concrete_value v) = static_bool v"
  by (cases v) (auto simp: static_bool_def refine_bool_def)

lemma values_equal_concrete:
  "values_equal F (concrete_value l) (concrete_value r) = ok (concrete_eq F l r)"
  by (cases l; cases r) (auto simp: values_equal_def is_handle_def ok_def)

lemma lifted_binop:
  "lifted (apply_binop F op' l r) = apply_refinement_binop F op' (concrete_value l) (concrete_value r)"
  by (cases l; cases r)
    (simp_all add: apply_binop_def apply_refinement_binop_def values_equal_concrete
      del: concrete_value.simps, auto)

lemma lifted_bool_bind:
  "(\<And>b. lifted (f b) = g b) \<Longrightarrow>
   lifted (ebind (static_bool v) f) = ebind (refine_bool (concrete_value v)) g"
  unfolding refine_bool_concrete by (cases v) (simp_all add: static_bool_def)

lemma evaluators_agree:
  "scalar_lits p \<Longrightarrow> eval_refinement_inner F p x (concrete_value v) = lifted (eval F p x v)"
proof (induction p rule: scalar_lits.induct)
  case (2 op' e)
  then show ?case
    by (simp add: lifted_ebind [where g = "refine_unary F op'"] lifted_unary)
next
  case (3 op' lhs rhs)
  have rhs: "lifted (ebind (eval F rhs x v) (\<lambda>r. ebind (static_bool r) (\<lambda>b. ok (CnBool b)))) =
      ebind (eval_refinement_inner F rhs x (concrete_value v))
        (\<lambda>r. ebind (refine_bool r) (\<lambda>b. ok (VBool b)))"
    using 3 by (subst lifted_ebind [where g = "\<lambda>r. ebind (refine_bool r) (\<lambda>b. ok (VBool b))"])
      (auto simp: lifted_bool_bind)
  show ?case
  proof (cases "op' = ''and'' \<or> op' = ''or''")
    case True
    then show ?thesis
      using 3 by (auto simp: rhs lifted_bool_bind intro!: lifted_ebind [symmetric] lifted_bool_bind)
  next
    case False
    then show ?thesis
      using 3 by (auto simp: lifted_binop intro!: lifted_ebind [symmetric] lifted_ebind)
  qed
qed (auto simp: lit_value_from_lit)

text \<open>The value a literal argument, possibly with a sign, has at run time.\<close>

fun arg_value :: "fpu \<Rightarrow> CExpr \<Rightarrow> Value option" where
  "arg_value F (Literal l) = (if scalar_lit l then Some (lit_value F l) else None)"
| "arg_value F (UnaryOp op' e) =
     (if op' = ''-'' then
        (case e of
           Literal (LInt n) \<Rightarrow> Some (VInt (- n))
         | Literal (LFloat s) \<Rightarrow> map_option (\<lambda>f. VFloat (f_neg F f)) (f_parse F s)
         | _ \<Rightarrow> None)
      else None)"
| "arg_value F _ = None"

lemma arg_value_concrete: "arg_value F e = Some w \<Longrightarrow> \<exists>c. arg_to_concrete F e = Some c \<and> w = concrete_value c"
  by (induction F e rule: arg_value.induct)
    (auto simp: lit_value_from_lit split: if_splits CExpr.splits CLit.splits option.splits)

section \<open>Properties\<close>


definition sample_fpu :: fpu where
  "sample_fpu = \<lparr>f_add = (+), f_sub = (-), f_mul = (*), f_div = (div), f_rem = (mod), f_neg = uminus,
     f_eq = (=), f_lt = (<), f_le = (\<le>), f_parse = (\<lambda>_. None)\<rparr>"

definition sample_predicate :: CExpr where
  "sample_predicate = BinOp ''and'' (BinOp ''>'' (Var ''x'') (Literal (LInt 0)))
     (BinOp ''<'' (Var ''x'') (Literal (LInt 100)))"



end
