(* ===== verification/Bc_Vm.thy ===== *)
theory Bc_Vm
  imports Bc_Program Bc_Memo Ref_Check
begin

text \<open>
  The virtual machine, \<open>crates/lex-bytecode/src/vm\<close>: its state and entry points (\<open>mod.rs\<close>), the
  interpreter loop (\<open>dispatch.rs\<close>), closures (\<open>closures.rs\<close>) and the native list operations
  (\<open>native_list.rs\<close>), run without a JIT hook.

  Vectors used as stacks (\<open>stack\<close>, \<open>frames\<close>) are lists with the top first. Code outside the
  repository or behind a trait object is a field of \<open>env\<close>: the floating-point unit, the hasher of
  the memo key, the effect handler and the tracer's replay hook, over a handler state. The two
  effect kinds the machine answers itself by calling back into closures (\<open>parser.run\<close> and
  \<open>conc.*\<close>) are answered by the same parameter as the other effects. Texts of error messages are
  dropped except where they carry data. A Rust panic, including an index out of range and
  subtraction below zero on an index, is a failure of its own. Slab positions are \<open>nat\<close>; the source
  stores them as \<open>u32\<close>, which is enough for \<open>2 ^ 32\<close> slots.
\<close>

section \<open>State\<close>

datatype VmError =
    VmPanic string
  | StepLimit string            \<comment> \<open>the \<open>Panic\<close> that reports the step limit, with the function\<close>
  | TypeMismatch
  | StackUnderflow
  | UnknownFunction string
  | EffectError string
  | ProcessExit int
  | CallStackOverflow nat
  | RefinementFailed string nat string   \<comment> \<open>fn_name, param_index, binding\<close>
  | DivByZero bool              \<comment> \<open>whether the operator is modulo\<close>

text \<open>
  A failed run: an error value, or a panic of the host. Two panics are told apart from the others:
  fetching an instruction past the end of the code, and taking more arguments than there are.
\<close>

datatype failure = VmErr VmError | HostPanic | PcRange | ArgsRange

definition MAX_CALL_DEPTH :: nat where
  "MAX_CALL_DEPTH = 1024"

definition STACK_RECORD_BUDGET_SLOTS :: nat where
  "STACK_RECORD_BUDGET_SLOTS = 64"

datatype FrameKind = EntryFrame | CallFrame string

record Frame =
  fr_fn_id :: nat
  fr_pc :: nat
  fr_locals_start :: nat
  fr_locals_len :: nat
  fr_stack_base :: nat
  fr_trace_kind :: FrameKind
  fr_memo_key :: "(nat \<times> byte list) option"
  fr_arena_start :: nat
  fr_budget :: nat

datatype trace_event =
    EnterCall string string "Value list"            \<comment> \<open>node_id, name, args\<close>
  | EnterEffect string string string "Value list"   \<comment> \<open>node_id, kind, op, args\<close>
  | ExitOk Value
  | ExitErr string
  | ExitCallTail

record 'h Vm =
  vm_frames :: "Frame list"
  vm_stack :: "Value list"
  vm_step_limit :: nat
  vm_steps :: nat
  vm_pure_memo :: "(nat \<times> byte list) \<Rightarrow> Value option"
  vm_memo_hits :: nat
  vm_memo_misses :: nat
  vm_memo_skips :: nat
  vm_memo_fn_state :: "MemoFnState list"
  vm_field_ics :: "(nat \<times> nat) option list list"
  vm_locals :: "Value list"
  vm_stack_arena :: "Value list"
  vm_stack_record_allocs :: nat
  vm_stack_record_heap_fallbacks :: nat
  vm_heap_record_allocs :: nat
  vm_arena_slab :: "Value list"
  vm_arena_scope_starts :: "nat list"
  vm_arena_record_allocs :: nat
  vm_arena_record_heap_fallbacks :: nat
  vm_trace :: "trace_event list"
  vm_host :: 'h

record 'h env =
  e_fpu :: fpu
  e_hasher :: "byte list \<Rightarrow> u64"
  e_dispatch :: "'h \<Rightarrow> string \<Rightarrow> string \<Rightarrow> Value list \<Rightarrow> (string + Value) \<times> 'h"
  e_note_call_budget :: "'h \<Rightarrow> nat \<Rightarrow> (string + unit) \<times> 'h"
  e_take_exit :: "'h \<Rightarrow> int option \<times> 'h"
  e_override_effect :: "'h \<Rightarrow> string \<Rightarrow> Value option \<times> 'h"
  e_spawn_for_worker :: "'h \<Rightarrow> 'h option"
  e_deny_all :: 'h
  e_enter_scope :: "'h \<Rightarrow> nat \<times> 'h"
  e_exit_scope :: "'h \<Rightarrow> nat \<Rightarrow> 'h"
  e_par_max_concurrency :: nat

text \<open>\<open>Vm::with_handler\<close>.\<close>

definition with_handler :: "Program \<Rightarrow> 'h \<Rightarrow> 'h Vm" where
  "with_handler P h =
     \<lparr>vm_frames = [], vm_stack = [], vm_step_limit = 10000000, vm_steps = 0,
      vm_pure_memo = (\<lambda>_. None), vm_memo_hits = 0, vm_memo_misses = 0, vm_memo_skips = 0,
      vm_memo_fn_state = replicate (length (pg_functions P)) memo_fn_default,
      vm_field_ics = replicate (length (pg_functions P)) [],
      vm_locals = [], vm_stack_arena = [], vm_stack_record_allocs = 0,
      vm_stack_record_heap_fallbacks = 0, vm_heap_record_allocs = 0,
      vm_arena_slab = [], vm_arena_scope_starts = [], vm_arena_record_allocs = 0,
      vm_arena_record_heap_fallbacks = 0, vm_trace = [], vm_host = h\<rparr>"

definition set_step_limit :: "'h Vm \<Rightarrow> nat \<Rightarrow> 'h Vm" where
  "set_step_limit vm limit = vm\<lparr>vm_step_limit := limit\<rparr>"

section \<open>One instruction: outcomes and stack access\<close>

text \<open>
  What an instruction does: go on in the loop, leave the loop with a value, fail, or (when it calls
  back into the loop) run out of fuel. A failed run leaves the loop with an error, so the machine
  state is dropped there.
\<close>

datatype 'h step_result =
    Next "'h Vm"
  | Done "'h Vm" Value
  | Fail failure
  | NoFuel

type_synonym 'h run = "'h Vm \<Rightarrow> nat \<Rightarrow> (failure + 'h Vm \<times> Value) option"

definition emit :: "trace_event \<Rightarrow> 'h Vm \<Rightarrow> 'h Vm" where
  "emit e vm = vm\<lparr>vm_trace := vm_trace vm @ [e]\<rparr>"

definition push :: "Value \<Rightarrow> 'h Vm \<Rightarrow> 'h Vm" where
  "push v vm = vm\<lparr>vm_stack := v # vm_stack vm\<rparr>"

definition pop :: "'h Vm \<Rightarrow> (Value \<Rightarrow> 'h Vm \<Rightarrow> 'h step_result) \<Rightarrow> 'h step_result" where
  "pop vm k =
     (case vm_stack vm of
        [] \<Rightarrow> Fail (VmErr StackUnderflow)
      | v # s \<Rightarrow> k v (vm\<lparr>vm_stack := s\<rparr>))"

text \<open>\<open>for i in (0..n).rev() { items[i] = self.pop()?; }\<close>: the popped values in the order pushed.\<close>

definition pop_n :: "nat \<Rightarrow> 'h Vm \<Rightarrow> (Value list \<Rightarrow> 'h Vm \<Rightarrow> 'h step_result) \<Rightarrow> 'h step_result" where
  "pop_n n vm k =
     (if length (vm_stack vm) < n then Fail (VmErr StackUnderflow)
      else k (rev (take n (vm_stack vm))) (vm\<lparr>vm_stack := drop n (vm_stack vm)\<rparr>))"

text \<open>\<open>Vec::truncate\<close> on a stack with the top first.\<close>

definition truncate_stack :: "nat \<Rightarrow> 'a list \<Rightarrow> 'a list" where
  "truncate_stack n s = drop (length s - n) s"

definition orPanic :: "'a option \<Rightarrow> ('a \<Rightarrow> 'h step_result) \<Rightarrow> 'h step_result" where
  "orPanic m k = (case m of None \<Rightarrow> Fail HostPanic | Some x \<Rightarrow> k x)"

definition orFail :: "failure + 'a \<Rightarrow> ('a \<Rightarrow> 'h step_result) \<Rightarrow> 'h step_result" where
  "orFail m k = (case m of Inl e \<Rightarrow> Fail e | Inr x \<Rightarrow> k x)"

definition nth_opt :: "'a list \<Rightarrow> nat \<Rightarrow> 'a option" where
  "nth_opt xs i = (if i < length xs then Some (xs ! i) else None)"

definition set_pc :: "nat \<Rightarrow> 'h Vm \<Rightarrow> 'h Vm" where
  "set_pc pc vm =
     (case vm_frames vm of
        [] \<Rightarrow> vm
      | f # fs \<Rightarrow> vm\<lparr>vm_frames := f\<lparr>fr_pc := pc\<rparr> # fs\<rparr>)"

text \<open>\<open>(pc as i32 + off) as usize\<close>.\<close>

definition jump_target :: "nat \<Rightarrow> int \<Rightarrow> nat" where
  "jump_target pc off = i32_as_usize (wrap32 (wrap32 (int pc) + off))"

definition top_frame :: "'h Vm \<Rightarrow> Frame" where
  "top_frame vm = hd (vm_frames vm)"

definition local_at :: "'h Vm \<Rightarrow> nat \<Rightarrow> Value option" where
  "local_at vm i = nth_opt (vm_locals vm) (fr_locals_start (top_frame vm) + i)"

definition set_local :: "nat \<Rightarrow> Value \<Rightarrow> 'h Vm \<Rightarrow> 'h Vm option" where
  "set_local i v vm =
     (let j = fr_locals_start (top_frame vm) + i in
      if j < length (vm_locals vm) then Some (vm\<lparr>vm_locals := (vm_locals vm)[j := v]\<rparr>) else None)"

definition const_at :: "Program \<Rightarrow> nat \<Rightarrow> Const option" where
  "const_at P i = nth_opt (pg_constants P) i"

fun const_to_value :: "Const \<Rightarrow> Value" where
  "const_to_value (ConstInt n) = VInt n"
| "const_to_value (ConstFloat f) = VFloat f"
| "const_to_value (ConstBool b) = VBool b"
| "const_to_value (ConstStr s) = VStr s"
| "const_to_value (ConstBytes b) = VBytes b"
| "const_to_value ConstUnit = VUnit"
| "const_to_value (FieldName s) = VStr s"
| "const_to_value (VariantName s) = VStr s"
| "const_to_value (NodeId s) = VStr s"

definition const_str :: "Program \<Rightarrow> nat \<Rightarrow> string" where
  "const_str P i =
     (case const_at P i of Some (NodeId s) \<Rightarrow> s | Some (ConstStr s) \<Rightarrow> s | _ \<Rightarrow> [])"

section \<open>Records and tuples\<close>

text \<open>\<open>IndexMap::insert\<close> keeps the place of a key it already has.\<close>

fun imap_insert :: "'k \<Rightarrow> 'a \<Rightarrow> ('k \<times> 'a) list \<Rightarrow> ('k \<times> 'a) list" where
  "imap_insert k v [] = [(k, v)]"
| "imap_insert k v ((k', v') # m) = (if k = k' then (k, v) # m else (k', v') # imap_insert k v m)"

fun build_fields ::
  "Program \<Rightarrow> nat list \<Rightarrow> Value list \<Rightarrow> (string \<times> Value) list \<Rightarrow> failure + (string \<times> Value) list" where
  "build_fields P (i # shape) (v # vs) rec =
     (case const_at P i of
        None \<Rightarrow> Inl HostPanic
      | Some (FieldName s) \<Rightarrow> build_fields P shape vs (imap_insert s v rec)
      | Some _ \<Rightarrow> Inl (VmErr TypeMismatch))"
| "build_fields P _ [] rec = Inr rec"
| "build_fields P [] (v # vs) rec = Inl HostPanic"

text \<open>The heap path shared by \<open>MakeRecord\<close> and the fallbacks of the two allocation instructions.\<close>

definition make_record :: "Program \<Rightarrow> nat \<Rightarrow> nat \<Rightarrow> 'h Vm \<Rightarrow> 'h step_result" where
  "make_record P shape_idx field_count vm =
     orPanic (nth_opt (pg_record_shapes P) shape_idx) (\<lambda>shape.
     pop_n field_count vm (\<lambda>values vm.
     orFail (build_fields P shape values []) (\<lambda>rec. Next (push (VRecord shape_idx rec) vm))))"

definition alloc_stack_record :: "Program \<Rightarrow> nat \<Rightarrow> nat \<Rightarrow> 'h Vm \<Rightarrow> 'h step_result" where
  "alloc_stack_record P shape_idx field_count vm =
     (let f = top_frame vm in
      if fr_budget f < field_count then
        make_record P shape_idx field_count
          (vm\<lparr>vm_stack_record_heap_fallbacks := Suc (vm_stack_record_heap_fallbacks vm)\<rparr>)
      else
        let slab_start = length (vm_stack_arena vm);
            vm = vm\<lparr>vm_stack_record_allocs := Suc (vm_stack_record_allocs vm),
                    vm_frames := f\<lparr>fr_budget := fr_budget f - field_count\<rparr> # tl (vm_frames vm)\<rparr>
        in pop_n field_count vm (\<lambda>values vm.
             Next (push (VStackRecord shape_idx slab_start field_count)
               (vm\<lparr>vm_stack_arena := vm_stack_arena vm @ values\<rparr>))))"

definition alloc_arena_record :: "Program \<Rightarrow> nat \<Rightarrow> nat \<Rightarrow> 'h Vm \<Rightarrow> 'h step_result" where
  "alloc_arena_record P shape_idx field_count vm =
     (if vm_arena_scope_starts vm = [] then
        make_record P shape_idx field_count
          (vm\<lparr>vm_arena_record_heap_fallbacks := Suc (vm_arena_record_heap_fallbacks vm)\<rparr>)
      else
        let slab_start = length (vm_arena_slab vm);
            vm = vm\<lparr>vm_arena_record_allocs := Suc (vm_arena_record_allocs vm)\<rparr>
        in pop_n field_count vm (\<lambda>values vm.
             Next (push (VArenaRecord shape_idx slab_start field_count)
               (vm\<lparr>vm_arena_slab := vm_arena_slab vm @ values\<rparr>))))"

definition make_tuple :: "nat \<Rightarrow> 'h Vm \<Rightarrow> 'h step_result" where
  "make_tuple n vm = pop_n n vm (\<lambda>items vm. Next (push (VTuple items) vm))"

definition alloc_stack_tuple :: "nat \<Rightarrow> 'h Vm \<Rightarrow> 'h step_result" where
  "alloc_stack_tuple arity vm =
     (let f = top_frame vm in
      if fr_budget f < arity then
        make_tuple arity (vm\<lparr>vm_stack_record_heap_fallbacks := Suc (vm_stack_record_heap_fallbacks vm)\<rparr>)
      else
        let slab_start = length (vm_stack_arena vm);
            vm = vm\<lparr>vm_stack_record_allocs := Suc (vm_stack_record_allocs vm),
                    vm_frames := f\<lparr>fr_budget := fr_budget f - arity\<rparr> # tl (vm_frames vm)\<rparr>
        in pop_n arity vm (\<lambda>values vm.
             Next (push (VStackTuple slab_start arity)
               (vm\<lparr>vm_stack_arena := vm_stack_arena vm @ values\<rparr>))))"

definition alloc_arena_tuple :: "nat \<Rightarrow> 'h Vm \<Rightarrow> 'h step_result" where
  "alloc_arena_tuple arity vm =
     (if vm_arena_scope_starts vm = [] then
        make_tuple arity (vm\<lparr>vm_arena_record_heap_fallbacks := Suc (vm_arena_record_heap_fallbacks vm)\<rparr>)
      else
        let slab_start = length (vm_arena_slab vm);
            vm = vm\<lparr>vm_arena_record_allocs := Suc (vm_arena_record_allocs vm)\<rparr>
        in pop_n arity vm (\<lambda>values vm.
             Next (push (VArenaTuple slab_start arity)
               (vm\<lparr>vm_arena_slab := vm_arena_slab vm @ values\<rparr>))))"

section \<open>Field reads and inline caches\<close>

text \<open>The cache slot of a site, after the function's caches have been allocated on first use.\<close>

definition ic_slot :: "Program \<Rightarrow> nat \<Rightarrow> nat \<Rightarrow> 'h Vm \<Rightarrow> ((nat \<times> nat) option \<times> 'h Vm) option" where
  "ic_slot P fid sid vm =
     (if fid \<ge> length (vm_field_ics vm) \<or> fid \<ge> length (pg_functions P) then None
      else
        let ics = vm_field_ics vm ! fid;
            ics' = (if ics = [] then replicate (fn_field_ic_sites (pg_functions P ! fid)) None else ics);
            vm' = vm\<lparr>vm_field_ics := (vm_field_ics vm)[fid := ics']\<rparr>
        in map_option (\<lambda>c. (c, vm')) (nth_opt ics' sid))"

definition ic_install :: "nat \<Rightarrow> nat \<Rightarrow> nat \<times> nat \<Rightarrow> 'h Vm \<Rightarrow> 'h Vm" where
  "ic_install fid sid entry vm =
     vm\<lparr>vm_field_ics := (vm_field_ics vm)[fid := (vm_field_ics vm ! fid)[sid := Some entry]]\<rparr>"

fun find_offset :: "Program \<Rightarrow> string \<Rightarrow> nat list \<Rightarrow> nat \<Rightarrow> failure + nat" where
  "find_offset P name [] i = Inl (VmErr TypeMismatch)"
| "find_offset P name (c # shape) i =
     (case const_at P c of
        None \<Rightarrow> Inl HostPanic
      | Some (FieldName s) \<Rightarrow> if s = name then Inr i else find_offset P name shape (Suc i)
      | Some _ \<Rightarrow> find_offset P name shape (Suc i))"

definition resolve_stack_field :: "Program \<Rightarrow> nat \<Rightarrow> nat \<Rightarrow> failure + nat" where
  "resolve_stack_field P shape_id name_idx =
     (case nth_opt (pg_record_shapes P) shape_id of
        None \<Rightarrow> Inl HostPanic
      | Some shape \<Rightarrow>
          (case const_at P name_idx of
             None \<Rightarrow> Inl HostPanic
           | Some (FieldName s) \<Rightarrow> find_offset P s shape 0
           | Some _ \<Rightarrow> Inl (VmErr TypeMismatch)))"

text \<open>The position and value of a key, \<open>IndexMap::get_full\<close>.\<close>

fun get_full :: "string \<Rightarrow> (string \<times> Value) list \<Rightarrow> nat \<Rightarrow> (nat \<times> Value) option" where
  "get_full name [] i = None"
| "get_full name ((k, v) # m) i = (if k = name then Some (i, v) else get_full name m (Suc i))"

text \<open>
  Reading a field through a cache slot: the value and the entry to install on a miss. A hit on a
  compiled shape trusts the offset; records without one are checked by name.
\<close>

definition read_heap_field ::
  "Program \<Rightarrow> (nat \<times> nat) option \<Rightarrow> nat \<Rightarrow> (string \<times> Value) list \<Rightarrow> nat \<Rightarrow>
   failure + (Value \<times> (nat \<times> nat) option)" where
  "read_heap_field P cached shape_id fs name_idx =
     (let miss =
        (case const_at P name_idx of
           None \<Rightarrow> Inl HostPanic
         | Some (FieldName s) \<Rightarrow>
             (case get_full s fs 0 of
                None \<Rightarrow> Inl (VmErr TypeMismatch)
              | Some (off, v) \<Rightarrow> Inr (v, Some (shape_id, off)))
         | Some _ \<Rightarrow> Inl (VmErr TypeMismatch))
      in case cached of
        Some (cached_shape, off) \<Rightarrow>
          if cached_shape = shape_id \<and> off < length fs then
            (if shape_id \<noteq> NO_SHAPE_ID then Inr (snd (fs ! off), None)
             else case const_at P name_idx of
                 None \<Rightarrow> Inl HostPanic
               | Some (FieldName s) \<Rightarrow> if s = fst (fs ! off) then Inr (snd (fs ! off), None) else miss
               | Some _ \<Rightarrow> miss)
          else miss
      | None \<Rightarrow> miss)"

definition read_slab_field ::
  "Program \<Rightarrow> Value list \<Rightarrow> (nat \<times> nat) option \<Rightarrow> nat \<Rightarrow> nat \<Rightarrow> nat \<Rightarrow> nat \<Rightarrow>
   failure + (Value \<times> (nat \<times> nat) option)" where
  "read_slab_field P slab cached shape_id slab_start field_count name_idx =
     (let miss =
        (case resolve_stack_field P shape_id name_idx of
           Inl e \<Rightarrow> Inl e
         | Inr off \<Rightarrow>
             (case nth_opt slab (slab_start + off) of
                None \<Rightarrow> Inl HostPanic
              | Some v \<Rightarrow> Inr (v, Some (shape_id, off))))
      in case cached of
        Some (cached_shape, off) \<Rightarrow>
          if cached_shape = shape_id \<and> off mod 2 ^ 16 < field_count then
            (case nth_opt slab (slab_start + off) of None \<Rightarrow> Inl HostPanic | Some v \<Rightarrow> Inr (v, None))
          else miss
      | None \<Rightarrow> miss)"

definition read_field ::
  "Program \<Rightarrow> 'h Vm \<Rightarrow> (nat \<times> nat) option \<Rightarrow> Value \<Rightarrow> nat \<Rightarrow> failure + (Value \<times> (nat \<times> nat) option)" where
  "read_field P vm cached v name_idx =
     (case v of
        VRecord shape_id fs \<Rightarrow> read_heap_field P cached shape_id fs name_idx
      | VStackRecord shape_id slab_start field_count \<Rightarrow>
          read_slab_field P (vm_stack_arena vm) cached shape_id slab_start field_count name_idx
      | VArenaRecord shape_id slab_start field_count \<Rightarrow>
          read_slab_field P (vm_arena_slab vm) cached shape_id slab_start field_count name_idx
      | _ \<Rightarrow> Inl (VmErr TypeMismatch))"

definition is_record :: "Value \<Rightarrow> bool" where
  "is_record v =
     (case v of VRecord _ _ \<Rightarrow> True | VStackRecord _ _ _ \<Rightarrow> True | VArenaRecord _ _ _ \<Rightarrow> True | _ \<Rightarrow> False)"

definition cached_read ::
  "Program \<Rightarrow> nat \<Rightarrow> nat \<Rightarrow> Value \<Rightarrow> nat \<Rightarrow> 'h Vm \<Rightarrow> (Value \<Rightarrow> 'h Vm \<Rightarrow> 'h step_result) \<Rightarrow> 'h step_result" where
  "cached_read P fid sid v name_idx vm k =
     orPanic (ic_slot P fid sid vm) (\<lambda>(cached, vm).
     orFail (read_field P vm cached v name_idx) (\<lambda>(value, install).
       k value (case install of Some entry \<Rightarrow> ic_install fid sid entry vm | None \<Rightarrow> vm)))"

text \<open>\<open>GetField\<close> looks at the value before it looks at the cache.\<close>

definition get_field :: "Program \<Rightarrow> nat \<Rightarrow> nat \<Rightarrow> nat \<Rightarrow> 'h Vm \<Rightarrow> 'h step_result" where
  "get_field P fn_id name_idx site_idx vm =
     pop vm (\<lambda>v vm.
       if is_record v then cached_read P fn_id site_idx v name_idx vm (\<lambda>value vm. Next (push value vm))
       else Fail (VmErr TypeMismatch))"

definition read_local_record_field ::
  "Program \<Rightarrow> nat \<Rightarrow> nat \<Rightarrow> nat \<Rightarrow> nat \<Rightarrow> 'h Vm \<Rightarrow> (Value \<Rightarrow> 'h Vm \<Rightarrow> 'h step_result) \<Rightarrow> 'h step_result" where
  "read_local_record_field P local_idx fn_id name_idx site_idx vm k =
     orPanic (ic_slot P fn_id site_idx vm) (\<lambda>_.
     orPanic (local_at vm local_idx) (\<lambda>v. cached_read P fn_id site_idx v name_idx vm k))"

section \<open>Arithmetic\<close>

definition bin_int :: "(i64 \<Rightarrow> i64 \<Rightarrow> Value) \<Rightarrow> 'h Vm \<Rightarrow> 'h step_result" where
  "bin_int f vm =
     pop vm (\<lambda>b vm. orPanic (as_int b) (\<lambda>b.
     pop vm (\<lambda>a vm. orPanic (as_int a) (\<lambda>a. Next (push (f a b) vm)))))"

definition bin_int_divmod :: "bool \<Rightarrow> 'h Vm \<Rightarrow> 'h step_result" where
  "bin_int_divmod is_mod vm =
     pop vm (\<lambda>b vm. orPanic (as_int b) (\<lambda>b.
     pop vm (\<lambda>a vm. orPanic (as_int a) (\<lambda>a.
       if b = 0 then Fail (VmErr (DivByZero is_mod))
       else Next (push (VInt (if is_mod then wrapping_rem a b else wrapping_div a b)) vm)))))"

definition num_divmod :: "fpu \<Rightarrow> bool \<Rightarrow> 'h Vm \<Rightarrow> 'h step_result" where
  "num_divmod F is_mod vm =
     pop vm (\<lambda>b vm. pop vm (\<lambda>a vm.
       case (a, b) of
         (VInt x, VInt y) \<Rightarrow>
           if y = 0 then Fail (VmErr (DivByZero is_mod))
           else Next (push (VInt (if is_mod then wrapping_rem x y else wrapping_div x y)) vm)
       | (VFloat x, VFloat y) \<Rightarrow> Next (push (VFloat (if is_mod then f_rem F x y else f_div F x y)) vm)
       | _ \<Rightarrow> Fail (VmErr TypeMismatch)))"

definition bin_float :: "(f64 \<Rightarrow> f64 \<Rightarrow> Value) \<Rightarrow> 'h Vm \<Rightarrow> 'h step_result" where
  "bin_float f vm =
     pop vm (\<lambda>b vm. orPanic (as_float b) (\<lambda>b.
     pop vm (\<lambda>a vm. orPanic (as_float a) (\<lambda>a. Next (push (f a b) vm)))))"

definition bin_num ::
  "(i64 \<Rightarrow> i64 \<Rightarrow> Value) \<Rightarrow> (f64 \<Rightarrow> f64 \<Rightarrow> Value) \<Rightarrow> 'h Vm \<Rightarrow> 'h step_result" where
  "bin_num i f vm =
     pop vm (\<lambda>b vm. pop vm (\<lambda>a vm.
       case (a, b) of
         (VInt x, VInt y) \<Rightarrow> Next (push (i x y) vm)
       | (VFloat x, VFloat y) \<Rightarrow> Next (push (f x y) vm)
       | _ \<Rightarrow> Fail (VmErr TypeMismatch)))"

text \<open>\<open>NumAdd\<close> and the orderings also take two strings.\<close>

definition bin_ord ::
  "(i64 \<Rightarrow> i64 \<Rightarrow> Value) \<Rightarrow> (f64 \<Rightarrow> f64 \<Rightarrow> Value) \<Rightarrow> (string \<Rightarrow> string \<Rightarrow> Value) \<Rightarrow>
   'h Vm \<Rightarrow> 'h step_result" where
  "bin_ord i f s vm =
     pop vm (\<lambda>b vm. pop vm (\<lambda>a vm.
       case (a, b) of
         (VInt x, VInt y) \<Rightarrow> Next (push (i x y) vm)
       | (VFloat x, VFloat y) \<Rightarrow> Next (push (f x y) vm)
       | (VStr x, VStr y) \<Rightarrow> Next (push (s x y) vm)
       | _ \<Rightarrow> Fail (VmErr TypeMismatch)))"

definition bin_eq :: "fpu \<Rightarrow> 'h Vm \<Rightarrow> 'h step_result" where
  "bin_eq F vm =
     pop vm (\<lambda>b vm. pop vm (\<lambda>a vm. orPanic (value_eq F a b) (\<lambda>r. Next (push (VBool r) vm))))"

definition bin_bool :: "(bool \<Rightarrow> bool \<Rightarrow> bool) \<Rightarrow> 'h Vm \<Rightarrow> 'h step_result" where
  "bin_bool f vm =
     pop vm (\<lambda>b vm. orPanic (as_bool b) (\<lambda>b.
     pop vm (\<lambda>a vm. orPanic (as_bool a) (\<lambda>a. Next (push (VBool (f a b)) vm)))))"

definition bin_str :: "(string \<Rightarrow> string \<Rightarrow> Value) \<Rightarrow> 'h Vm \<Rightarrow> 'h step_result" where
  "bin_str f vm =
     pop vm (\<lambda>b vm. pop vm (\<lambda>a vm.
       orPanic (as_str a) (\<lambda>a. orPanic (as_str b) (\<lambda>b. Next (push (f a b) vm)))))"

definition exec_prim :: "fpu \<Rightarrow> PrimOp \<Rightarrow> 'h Vm \<Rightarrow> 'h step_result" where
  "exec_prim F p vm =
     (case p of
        IntAdd \<Rightarrow> bin_int (\<lambda>a b. VInt (a + b)) vm
      | IntSub \<Rightarrow> bin_int (\<lambda>a b. VInt (a - b)) vm
      | IntMul \<Rightarrow> bin_int (\<lambda>a b. VInt (a * b)) vm
      | IntDiv \<Rightarrow> bin_int_divmod False vm
      | IntMod \<Rightarrow> bin_int_divmod True vm
      | IntNeg \<Rightarrow> pop vm (\<lambda>a vm. orPanic (as_int a) (\<lambda>a. Next (push (VInt (- a)) vm)))
      | IntEq \<Rightarrow> bin_int (\<lambda>a b. VBool (a = b)) vm
      | IntLt \<Rightarrow> bin_int (\<lambda>a b. VBool (i64_lt a b)) vm
      | IntLe \<Rightarrow> bin_int (\<lambda>a b. VBool (i64_le a b)) vm
      | FloatAdd \<Rightarrow> bin_float (\<lambda>a b. VFloat (f_add F a b)) vm
      | FloatSub \<Rightarrow> bin_float (\<lambda>a b. VFloat (f_sub F a b)) vm
      | FloatMul \<Rightarrow> bin_float (\<lambda>a b. VFloat (f_mul F a b)) vm
      | FloatDiv \<Rightarrow> bin_float (\<lambda>a b. VFloat (f_div F a b)) vm
      | FloatNeg \<Rightarrow> pop vm (\<lambda>a vm. orPanic (as_float a) (\<lambda>a. Next (push (VFloat (f_neg F a)) vm)))
      | FloatEq \<Rightarrow> bin_float (\<lambda>a b. VBool (f_eq F a b)) vm
      | FloatLt \<Rightarrow> bin_float (\<lambda>a b. VBool (f_lt F a b)) vm
      | FloatLe \<Rightarrow> bin_float (\<lambda>a b. VBool (f_le F a b)) vm
      | NumAdd \<Rightarrow> bin_ord (\<lambda>a b. VInt (a + b)) (\<lambda>a b. VFloat (f_add F a b)) (\<lambda>a b. VStr (a @ b)) vm
      | NumSub \<Rightarrow> bin_num (\<lambda>a b. VInt (a - b)) (\<lambda>a b. VFloat (f_sub F a b)) vm
      | NumMul \<Rightarrow> bin_num (\<lambda>a b. VInt (a * b)) (\<lambda>a b. VFloat (f_mul F a b)) vm
      | NumDiv \<Rightarrow> num_divmod F False vm
      | NumMod \<Rightarrow> num_divmod F True vm
      | NumNeg \<Rightarrow>
          pop vm (\<lambda>v vm. case v of
              VInt n \<Rightarrow> Next (push (VInt (- n)) vm)
            | VFloat f \<Rightarrow> Next (push (VFloat (f_neg F f)) vm)
            | _ \<Rightarrow> Fail (VmErr TypeMismatch))
      | NumEq \<Rightarrow> bin_eq F vm
      | NumLt \<Rightarrow> bin_ord (\<lambda>a b. VBool (i64_lt a b)) (\<lambda>a b. VBool (f_lt F a b)) (\<lambda>a b. VBool (a < b)) vm
      | NumLe \<Rightarrow> bin_ord (\<lambda>a b. VBool (i64_le a b)) (\<lambda>a b. VBool (f_le F a b)) (\<lambda>a b. VBool (a \<le> b)) vm
      | BoolAnd \<Rightarrow> bin_bool (\<and>) vm
      | BoolOr \<Rightarrow> bin_bool (\<or>) vm
      | BoolNot \<Rightarrow> pop vm (\<lambda>a vm. orPanic (as_bool a) (\<lambda>a. Next (push (VBool (\<not> a)) vm)))
      | StrConcat \<Rightarrow> bin_str (\<lambda>a b. VStr (a @ b)) vm
      | StrLen \<Rightarrow> pop vm (\<lambda>v vm. orPanic (as_str v) (\<lambda>s. Next (push (VInt (word_of_nat (length s))) vm)))
      | StrEq \<Rightarrow> bin_str (\<lambda>a b. VBool (a = b)) vm
      | BytesLen \<Rightarrow>
          pop vm (\<lambda>v vm. case v of
              VBytes b \<Rightarrow> Next (push (VInt (word_of_nat (length b))) vm)
            | _ \<Rightarrow> Fail (VmErr TypeMismatch))
      | BytesEq \<Rightarrow>
          pop vm (\<lambda>b vm. pop vm (\<lambda>a vm. case (a, b) of
              (VBytes x, VBytes y) \<Rightarrow> Next (push (VBool (x = y)) vm)
            | _ \<Rightarrow> Fail (VmErr TypeMismatch))))"

section \<open>Reading and building values\<close>

definition int_index :: "i64 \<Rightarrow> nat" where
  "int_index n = unat n"

definition get_elem :: "nat \<Rightarrow> 'h Vm \<Rightarrow> 'h step_result" where
  "get_elem i vm =
     pop vm (\<lambda>v vm.
       case v of
         VTuple items \<Rightarrow>
           (case nth_opt items i of None \<Rightarrow> Fail (VmErr TypeMismatch) | Some v \<Rightarrow> Next (push v vm))
       | VStackTuple slab_start arity \<Rightarrow>
           if i \<ge> arity then Fail (VmErr TypeMismatch)
           else orPanic (nth_opt (vm_stack_arena vm) (slab_start + i)) (\<lambda>v. Next (push v vm))
       | VArenaTuple slab_start arity \<Rightarrow>
           if i \<ge> arity then Fail (VmErr TypeMismatch)
           else orPanic (nth_opt (vm_arena_slab vm) (slab_start + i)) (\<lambda>v. Next (push v vm))
       | _ \<Rightarrow> Fail (VmErr TypeMismatch))"

definition test_variant :: "Program \<Rightarrow> nat \<Rightarrow> 'h Vm \<Rightarrow> 'h step_result" where
  "test_variant P i vm =
     orPanic (const_at P i) (\<lambda>c.
       case c of
         VariantName name \<Rightarrow>
           pop vm (\<lambda>v vm. case v of
               VVariant vname _ \<Rightarrow> Next (push (VBool (vname = name)) vm)
             | _ \<Rightarrow> Fail (VmErr TypeMismatch))
       | _ \<Rightarrow> Fail (VmErr TypeMismatch))"

definition get_variant :: "'h Vm \<Rightarrow> 'h step_result" where
  "get_variant vm =
     pop vm (\<lambda>v vm. case v of
         VVariant _ args \<Rightarrow> Next (push (VTuple args) vm)
       | _ \<Rightarrow> Fail (VmErr TypeMismatch))"

definition get_variant_arg :: "nat \<Rightarrow> 'h Vm \<Rightarrow> 'h step_result" where
  "get_variant_arg i vm =
     pop vm (\<lambda>v vm. case v of
         VVariant _ args \<Rightarrow>
           if i \<ge> length args then Fail (VmErr TypeMismatch) else Next (push (args ! i) vm)
       | _ \<Rightarrow> Fail (VmErr TypeMismatch))"

definition make_variant :: "Program \<Rightarrow> nat \<Rightarrow> nat \<Rightarrow> 'h Vm \<Rightarrow> 'h step_result" where
  "make_variant P name_idx arity vm =
     pop_n arity vm (\<lambda>args vm.
     orPanic (const_at P name_idx) (\<lambda>c.
       case c of
         VariantName name \<Rightarrow> Next (push (VVariant name args) vm)
       | _ \<Rightarrow> Fail (VmErr TypeMismatch)))"

definition get_list_len :: "'h Vm \<Rightarrow> 'h step_result" where
  "get_list_len vm =
     pop vm (\<lambda>v vm. case v of
         VList items \<Rightarrow> Next (push (VInt (word_of_nat (length items))) vm)
       | _ \<Rightarrow> Fail (VmErr TypeMismatch))"

definition list_elem :: "Value \<Rightarrow> nat \<Rightarrow> 'h Vm \<Rightarrow> 'h step_result" where
  "list_elem v i vm =
     (case v of
        VList items \<Rightarrow>
          (case nth_opt items i of None \<Rightarrow> Fail (VmErr TypeMismatch) | Some v \<Rightarrow> Next (push v vm))
      | _ \<Rightarrow> Fail (VmErr TypeMismatch))"

definition get_list_elem_dyn :: "'h Vm \<Rightarrow> 'h step_result" where
  "get_list_elem_dyn vm =
     pop vm (\<lambda>i vm.
       case i of
         VInt n \<Rightarrow> pop vm (\<lambda>v vm. list_elem v (int_index n) vm)
       | _ \<Rightarrow> Fail (VmErr TypeMismatch))"

definition list_append :: "'h Vm \<Rightarrow> 'h step_result" where
  "list_append vm =
     pop vm (\<lambda>value vm. pop vm (\<lambda>l vm.
       case l of
         VList items \<Rightarrow> Next (push (VList (items @ [value])) vm)
       | _ \<Rightarrow> Fail (VmErr TypeMismatch)))"

definition make_closure :: "Program \<Rightarrow> nat \<Rightarrow> nat \<Rightarrow> 'h Vm \<Rightarrow> 'h step_result" where
  "make_closure P fn_id capture_count vm =
     pop_n capture_count vm (\<lambda>captures vm.
     orPanic (nth_opt (pg_functions P) fn_id) (\<lambda>f.
       Next (push (VClosure fn_id (fn_body_hash f) captures) vm)))"

section \<open>Calls\<close>

text \<open>Negative budgets are ignored; the sum saturates at \<open>u64::MAX\<close>.\<close>

definition call_budget_cost :: "Function \<Rightarrow> nat" where
  "call_budget_cost f =
     fold (\<lambda>e total.
         if de_kind e = ''budget'' then
           (case de_arg e of
              Some (AArgInt n) \<Rightarrow> if 0 \<le> sint n then min (total + unat n) (2 ^ 64 - 1) else total
            | _ \<Rightarrow> total)
         else total)
       (fn_effects f) 0"

definition note_budget :: "'h env \<Rightarrow> nat \<Rightarrow> 'h Vm \<Rightarrow> ('h Vm \<Rightarrow> 'h step_result) \<Rightarrow> 'h step_result" where
  "note_budget E cost vm k =
     (if cost > 0 then
        (case e_note_call_budget E (vm_host vm) cost of
           (Inl e, h) \<Rightarrow> Fail (VmErr (EffectError e))
         | (Inr _, h) \<Rightarrow> k (vm\<lparr>vm_host := h\<rparr>))
      else k vm)"

text \<open>The refinements of the parameters, against the arguments \<open>arg\<close> gives by position.\<close>

fun check_refinements ::
  "fpu \<Rightarrow> string \<Rightarrow> (nat \<Rightarrow> Value option) \<Rightarrow> nat \<Rightarrow> Refinement option list \<Rightarrow> failure option" where
  "check_refinements F name arg i [] = None"
| "check_refinements F name arg i (r # rs) =
     (case r of
        None \<Rightarrow> check_refinements F name arg (Suc i) rs
      | Some r' \<Rightarrow>
          (case arg i of
             None \<Rightarrow> Some HostPanic
           | Some v \<Rightarrow>
               (case eval_refinement F (rf_predicate r') (rf_binding r') v of
                  None \<Rightarrow> Some HostPanic
                | Some (Inr True) \<Rightarrow> check_refinements F name arg (Suc i) rs
                | Some _ \<Rightarrow> Some (VmErr (RefinementFailed name i (rf_binding r'))))))"

definition push_frame :: "Frame \<Rightarrow> 'h Vm \<Rightarrow> failure + 'h Vm" where
  "push_frame f vm =
     (if length (vm_frames vm) \<ge> MAX_CALL_DEPTH then Inl (VmErr (CallStackOverflow MAX_CALL_DEPTH))
      else Inr (vm\<lparr>vm_frames := f # vm_frames vm\<rparr>))"

text \<open>
  A frame for \<open>fn_id\<close> whose locals start with \<open>args\<close>: the locals are resized, the arguments moved
  in and the frame pushed.
\<close>

definition frame_for ::
  "'h Vm \<Rightarrow> nat \<Rightarrow> nat \<Rightarrow> FrameKind \<Rightarrow> (nat \<times> byte list) option \<Rightarrow> Frame" where
  "frame_for vm fn_id locals_len kind memo_key =
     \<lparr>fr_fn_id = fn_id, fr_pc = 0, fr_locals_start = length (vm_locals vm), fr_locals_len = locals_len,
      fr_stack_base = length (vm_stack vm), fr_trace_kind = kind, fr_memo_key = memo_key,
      fr_arena_start = length (vm_stack_arena vm), fr_budget = STACK_RECORD_BUDGET_SLOTS\<rparr>"

definition locals_for :: "nat \<Rightarrow> Value list \<Rightarrow> Value list" where
  "locals_for n args = args @ replicate (n - length args) VUnit"

definition locals_len_of :: "Function \<Rightarrow> nat" where
  "locals_len_of f = max (fn_locals_count f) (fn_arity f)"

definition enter_function ::
  "Function \<Rightarrow> nat \<Rightarrow> Value list \<Rightarrow> FrameKind \<Rightarrow> (nat \<times> byte list) option \<Rightarrow> 'h Vm \<Rightarrow> failure + 'h Vm" where
  "enter_function f fn_id args kind memo_key vm =
     (let n = locals_len_of f in
      if length args > n then Inl HostPanic
      else push_frame (frame_for vm fn_id n kind memo_key)
             (vm\<lparr>vm_locals := vm_locals vm @ locals_for n args\<rparr>))"

definition invoke :: "'h env \<Rightarrow> Program \<Rightarrow> 'h run \<Rightarrow> 'h Vm \<Rightarrow> nat \<Rightarrow> Value list \<Rightarrow> (failure + 'h Vm \<times> Value) option" where
  "invoke E P run vm fn_id args =
     (case nth_opt (pg_functions P) fn_id of
        None \<Rightarrow> Some (Inl HostPanic)
      | Some f \<Rightarrow>
          if length args \<noteq> fn_arity f then Some (Inl (VmErr (VmPanic (''arity mismatch calling '' @ fn_name f))))
          else
            (case check_refinements (e_fpu E) (fn_name f) (\<lambda>i. Some (if i < length args then args ! i else VUnit))
                    0 (fn_refinements f) of
               Some e \<Rightarrow> Some (Inl e)
             | None \<Rightarrow>
                 (case enter_function f fn_id args EntryFrame None vm of
                    Inl e \<Rightarrow> Some (Inl e)
                  | Inr vm' \<Rightarrow> run vm' (length (vm_frames vm)))))"

definition call :: "'h env \<Rightarrow> Program \<Rightarrow> 'h run \<Rightarrow> 'h Vm \<Rightarrow> string \<Rightarrow> Value list \<Rightarrow> (failure + 'h Vm \<times> Value) option" where
  "call E P run vm name args =
     (case lookup_fn P name of
        None \<Rightarrow> Some (Inl (VmErr (VmPanic (''no function '' @ name))))
      | Some fn_id \<Rightarrow> invoke E P run vm fn_id args)"

text \<open>\<open>invoke_closure_1\<close>, \<open>invoke_closure_2\<close> and \<open>invoke_closure_value\<close>: captures, then arguments.\<close>

definition invoke_closure ::
  "'h env \<Rightarrow> Program \<Rightarrow> 'h run \<Rightarrow> 'h Vm \<Rightarrow> Value \<Rightarrow> Value list \<Rightarrow> (failure + 'h Vm \<times> Value) option" where
  "invoke_closure E P run vm closure args =
     (case closure of
        VClosure fn_id _ captures \<Rightarrow> invoke E P run vm fn_id (captures @ args)
      | _ \<Rightarrow> Some (Inl (VmErr TypeMismatch)))"

text \<open>Whether a call is looked up in the cache, and the key if it is; \<open>None\<close> is a panic in the hash.\<close>

definition memo_key_for ::
  "'h env \<Rightarrow> Function \<Rightarrow> nat \<Rightarrow> Value list \<Rightarrow> 'h Vm \<Rightarrow> ((nat \<times> byte list) option \<times> 'h Vm) option" where
  "memo_key_for E f fn_id args vm =
     (case nth_opt (vm_memo_fn_state vm) fn_id of
        None \<Rightarrow> None
      | Some st \<Rightarrow>
          if fn_effects f = [] \<and> mf_enabled st \<and> \<not> list_ex contains_arena_record args \<and>
             \<not> memo_args_exceed args MEMO_MAX_ARG_BYTES
          then map_option (\<lambda>key. (Some (fn_id, key), vm)) (hash_call_args (e_hasher E) args)
          else Some (None, if fn_effects f = [] then vm\<lparr>vm_memo_skips := Suc (vm_memo_skips vm)\<rparr> else vm))"

definition memo_probe :: "nat \<Rightarrow> (MemoFnState \<Rightarrow> MemoFnState) \<Rightarrow> 'h Vm \<Rightarrow> 'h Vm" where
  "memo_probe fn_id g vm =
     vm\<lparr>vm_memo_fn_state := (vm_memo_fn_state vm)[fn_id := g (vm_memo_fn_state vm ! fn_id)]\<rparr>"

definition memo_hit :: "nat \<Rightarrow> 'h Vm \<Rightarrow> 'h Vm" where
  "memo_hit fn_id vm =
     memo_probe fn_id (\<lambda>st. st\<lparr>mf_calls := Suc (mf_calls st), mf_hits := Suc (mf_hits st)\<rparr>)
       (vm\<lparr>vm_memo_hits := Suc (vm_memo_hits vm)\<rparr>)"

definition memo_miss :: "nat \<Rightarrow> 'h Vm \<Rightarrow> 'h Vm" where
  "memo_miss fn_id vm =
     memo_probe fn_id (\<lambda>st.
         let st = st\<lparr>mf_calls := Suc (mf_calls st)\<rparr>
         in if mf_calls st \<ge> MEMO_WARMUP_CALLS \<and> mf_hits st = 0 then st\<lparr>mf_enabled := False\<rparr> else st)
       (vm\<lparr>vm_memo_misses := Suc (vm_memo_misses vm)\<rparr>)"

text \<open>
  \<open>args_base = len - arity\<close> underflows when there are too few values; the first access through it
  then panics. Every path that goes on has taken the arguments off the stack.
\<close>

definition with_args :: "nat \<Rightarrow> 'h Vm \<Rightarrow> (Value list \<Rightarrow> 'h Vm \<Rightarrow> 'h step_result) \<Rightarrow> 'h step_result" where
  "with_args arity vm k =
     (if length (vm_stack vm) < arity then Fail ArgsRange
      else k (rev (take arity (vm_stack vm))) (vm\<lparr>vm_stack := drop arity (vm_stack vm)\<rparr>))"

definition exec_call :: "'h env \<Rightarrow> Program \<Rightarrow> nat \<Rightarrow> nat \<Rightarrow> nat \<Rightarrow> 'h Vm \<Rightarrow> 'h step_result" where
  "exec_call E P fn_id arity node_id_idx vm =
     orPanic (nth_opt (pg_functions P) fn_id) (\<lambda>f.
     note_budget E (call_budget_cost f) vm (\<lambda>vm.
     with_args arity vm (\<lambda>args vm.
       case check_refinements (e_fpu E) (fn_name f) (nth_opt args) 0 (fn_refinements f) of
         Some e \<Rightarrow> Fail e
       | None \<Rightarrow>
           orPanic (memo_key_for E f fn_id args vm) (\<lambda>(key, vm).
           let node_id = const_str P node_id_idx;
               go = (\<lambda>vm. orFail (enter_function f fn_id args (CallFrame node_id) key
                       (emit (EnterCall node_id (fn_name f) args) vm)) Next)
           in case key of
                None \<Rightarrow> go vm
              | Some k \<Rightarrow>
                  (case vm_pure_memo vm k of
                     Some cached \<Rightarrow>
                       Next (push cached (emit (ExitOk cached)
                         (emit (EnterCall node_id (fn_name f) args) (memo_hit fn_id vm))))
                   | None \<Rightarrow> go (memo_miss fn_id vm))))))"

definition exec_tail_call :: "'h env \<Rightarrow> Program \<Rightarrow> nat \<Rightarrow> nat \<Rightarrow> nat \<Rightarrow> 'h Vm \<Rightarrow> 'h step_result" where
  "exec_tail_call E P fn_id arity node_id_idx vm =
     orPanic (nth_opt (pg_functions P) fn_id) (\<lambda>f.
     note_budget E (call_budget_cost f) vm (\<lambda>vm.
     with_args arity vm (\<lambda>args vm.
       case check_refinements (e_fpu E) (fn_name f) (nth_opt args) 0 (fn_refinements f) of
         Some e \<Rightarrow> Fail e
       | None \<Rightarrow>
           let node_id = const_str P node_id_idx;
               fr = top_frame vm;
               n = locals_len_of f;
               vm = emit (EnterCall node_id (fn_name f) args) (emit ExitCallTail vm)
           in if length args > n then Fail HostPanic
              else Next (vm\<lparr>vm_locals := take (fr_locals_start fr) (vm_locals vm) @ locals_for n args,
                     vm_stack_arena := take (fr_arena_start fr) (vm_stack_arena vm),
                     vm_frames := fr\<lparr>fr_fn_id := fn_id, fr_pc := 0, fr_locals_len := n,
                         fr_trace_kind := CallFrame node_id,
                         fr_budget := STACK_RECORD_BUDGET_SLOTS\<rparr> # tl (vm_frames vm)\<rparr>))))"

definition exec_call_closure :: "'h env \<Rightarrow> Program \<Rightarrow> nat \<Rightarrow> nat \<Rightarrow> 'h Vm \<Rightarrow> 'h step_result" where
  "exec_call_closure E P arity node_id_idx vm =
     with_args (Suc arity) vm (\<lambda>all vm.
       case hd all of
         VClosure fn_id _ captures \<Rightarrow>
           orPanic (nth_opt (pg_functions P) fn_id) (\<lambda>f.
           note_budget E (call_budget_cost f) vm (\<lambda>vm.
             let node_id = const_str P node_id_idx; args = captures @ tl all
             in orFail (enter_function f fn_id args (CallFrame node_id) None
                  (emit (EnterCall node_id (fn_name f) args) vm)) Next))
       | _ \<Rightarrow> Fail (VmErr TypeMismatch))"

definition exec_return :: "nat \<Rightarrow> 'h Vm \<Rightarrow> 'h step_result" where
  "exec_return base_depth vm =
     pop vm (\<lambda>v vm.
       case vm_frames vm of
         [] \<Rightarrow> Fail HostPanic
       | fr # frs \<Rightarrow>
           let vm = vm\<lparr>vm_frames := frs,
                  vm_stack := truncate_stack (fr_stack_base fr) (vm_stack vm),
                  vm_locals := take (fr_locals_start fr) (vm_locals vm),
                  vm_stack_arena := take (fr_arena_start fr) (vm_stack_arena vm)\<rparr>;
               vm = (case fr_trace_kind fr of CallFrame _ \<Rightarrow> emit (ExitOk v) vm | EntryFrame \<Rightarrow> vm);
               vm = (case fr_memo_key fr of
                       Some key \<Rightarrow> vm\<lparr>vm_pure_memo := (vm_pure_memo vm)(key \<mapsto> v)\<rparr>
                     | None \<Rightarrow> vm)
           in if length frs \<le> base_depth then Done vm v else Next (push v vm))"

section \<open>Native list operations\<close>

definition is_closure :: "Value \<Rightarrow> bool" where
  "is_closure v = (case v of VClosure _ _ _ \<Rightarrow> True | _ \<Rightarrow> False)"

text \<open>The operands of a native list operation: a list and a closure.\<close>

definition list_and_closure ::
  "'h Vm \<Rightarrow> (Value list \<Rightarrow> Value \<Rightarrow> 'h Vm \<Rightarrow> 'h step_result) \<Rightarrow> 'h step_result" where
  "list_and_closure vm k =
     pop vm (\<lambda>f vm. pop vm (\<lambda>xs vm.
       case xs of
         VList items \<Rightarrow> if is_closure f then k items f vm else Fail (VmErr TypeMismatch)
       | _ \<Rightarrow> Fail (VmErr TypeMismatch)))"

text \<open>A loop that calls a closure once per element, threading an accumulator.\<close>

type_synonym 'h caller = "'h Vm \<Rightarrow> Value list \<Rightarrow> (failure + 'h Vm \<times> Value) option"

fun each_call ::
  "'h caller \<Rightarrow> ('acc \<Rightarrow> Value \<Rightarrow> Value list) \<Rightarrow> ('acc \<Rightarrow> Value \<Rightarrow> Value \<Rightarrow> 'acc option) \<Rightarrow>
   'h Vm \<Rightarrow> Value list \<Rightarrow> 'acc \<Rightarrow> (failure + 'h Vm \<times> 'acc) option" where
  "each_call c args upd vm [] acc = Some (Inr (vm, acc))"
| "each_call c args upd vm (x # xs) acc =
     (case c vm (args acc x) of
        None \<Rightarrow> None
      | Some (Inl e) \<Rightarrow> Some (Inl e)
      | Some (Inr (vm', r)) \<Rightarrow>
          (case upd acc x r of
             None \<Rightarrow> Some (Inl HostPanic)
           | Some acc' \<Rightarrow> each_call c args upd vm' xs acc'))"

definition finish ::
  "(failure + 'h Vm \<times> 'acc) option \<Rightarrow> ('acc \<Rightarrow> Value) \<Rightarrow> 'h step_result" where
  "finish r f =
     (case r of None \<Rightarrow> NoFuel | Some (Inl e) \<Rightarrow> Fail e | Some (Inr (vm, acc)) \<Rightarrow> Next (push (f acc) vm))"

definition list_map_op :: "'h env \<Rightarrow> Program \<Rightarrow> 'h run \<Rightarrow> 'h Vm \<Rightarrow> 'h step_result" where
  "list_map_op E P run vm =
     list_and_closure vm (\<lambda>items f vm.
       finish (each_call (\<lambda>vm. invoke_closure E P run vm f) (\<lambda>_ x. [x]) (\<lambda>out _ r. Some (out @ [r])) vm items [])
         VList)"

definition list_filter_op :: "'h env \<Rightarrow> Program \<Rightarrow> 'h run \<Rightarrow> 'h Vm \<Rightarrow> 'h step_result" where
  "list_filter_op E P run vm =
     list_and_closure vm (\<lambda>items f vm.
       finish (each_call (\<lambda>vm. invoke_closure E P run vm f) (\<lambda>_ x. [x])
           (\<lambda>out x r. map_option (\<lambda>keep. if keep then out @ [x] else out) (as_bool r)) vm items [])
         VList)"

definition list_fold_op :: "'h env \<Rightarrow> Program \<Rightarrow> 'h run \<Rightarrow> 'h Vm \<Rightarrow> 'h step_result" where
  "list_fold_op E P run vm =
     pop vm (\<lambda>f vm. pop vm (\<lambda>init vm. pop vm (\<lambda>xs vm.
       case xs of
         VList items \<Rightarrow>
           if is_closure f then
             finish (each_call (\<lambda>vm. invoke_closure E P run vm f) (\<lambda>acc x. [acc, x]) (\<lambda>_ _ r. Some r)
                 vm items init) id
           else Fail (VmErr TypeMismatch)
       | _ \<Rightarrow> Fail (VmErr TypeMismatch))))"

text \<open>
  \<open>sort_by\<close> is stable. Keys of different kinds compare as equal, and so do incomparable floats; on
  lists where that is not an order the standard library leaves the result open, and the model uses
  insertion.
\<close>

definition key_less :: "fpu \<Rightarrow> Value \<Rightarrow> Value \<Rightarrow> bool" where
  "key_less F a b =
     (case (a, b) of
        (VInt x, VInt y) \<Rightarrow> i64_lt x y
      | (VFloat x, VFloat y) \<Rightarrow> f_lt F x y
      | (VStr x, VStr y) \<Rightarrow> x < y
      | _ \<Rightarrow> False)"

fun insert_stable :: "('a \<Rightarrow> 'a \<Rightarrow> bool) \<Rightarrow> 'a \<Rightarrow> 'a list \<Rightarrow> 'a list" where
  "insert_stable lt x [] = [x]"
| "insert_stable lt x (y # ys) = (if lt y x then y # insert_stable lt x ys else x # y # ys)"

definition sort_stable :: "('a \<Rightarrow> 'a \<Rightarrow> bool) \<Rightarrow> 'a list \<Rightarrow> 'a list" where
  "sort_stable lt xs = foldr (insert_stable lt) xs []"

definition sort_by_key_op :: "'h env \<Rightarrow> Program \<Rightarrow> 'h run \<Rightarrow> 'h Vm \<Rightarrow> 'h step_result" where
  "sort_by_key_op E P run vm =
     list_and_closure vm (\<lambda>items f vm.
       finish (each_call (\<lambda>vm. invoke_closure E P run vm f) (\<lambda>_ x. [x])
           (\<lambda>out x key. Some (out @ [(key, x)])) vm items [])
         (\<lambda>keyed. VList (map snd (sort_stable (\<lambda>a b. key_less (e_fpu E) (fst a) (fst b)) keyed))))"

text \<open>
  \<open>par_map_run\<close>: the items are dealt round-robin to workers, each with a machine of its own. The
  workers share nothing, so running them one after the other gives what the threads give. A worker
  is not followed past its first failure: later items have later positions, and the first failure
  by position decides.
\<close>

fun run_bucket ::
  "'h caller \<Rightarrow> 'h Vm \<Rightarrow> (nat \<times> Value) list \<Rightarrow> (nat \<times> (failure + Value)) list option" where
  "run_bucket c vm [] = Some []"
| "run_bucket c vm ((i, x) # xs) =
     (case c vm [x] of
        None \<Rightarrow> None
      | Some (Inl e) \<Rightarrow> Some [(i, Inl e)]
      | Some (Inr (vm', r)) \<Rightarrow> map_option ((#) (i, Inr r)) (run_bucket c vm' xs))"

fun run_workers ::
  "(nat \<Rightarrow> (nat \<times> (failure + Value)) list option) \<Rightarrow> nat list \<Rightarrow> (nat \<times> (failure + Value)) list option" where
  "run_workers w [] = Some []"
| "run_workers w (k # ks) =
     (case w k of None \<Rightarrow> None | Some rs \<Rightarrow> map_option ((@) rs) (run_workers w ks))"

fun collect_results :: "(nat \<Rightarrow> (failure + Value) option) \<Rightarrow> nat list \<Rightarrow> failure + Value list" where
  "collect_results r [] = Inr []"
| "collect_results r (i # is) =
     (case r i of
        Some (Inr v) \<Rightarrow> (case collect_results r is of Inl e \<Rightarrow> Inl e | Inr vs \<Rightarrow> Inr (v # vs))
      | Some (Inl (VmErr _)) \<Rightarrow> Inl (VmErr (EffectError ''par_map worker''))
      | _ \<Rightarrow> Inl (VmErr (VmPanic ''par_map worker did not produce a result'')))"

definition parallel_map_op :: "'h env \<Rightarrow> Program \<Rightarrow> 'h run \<Rightarrow> 'h Vm \<Rightarrow> 'h step_result" where
  "parallel_map_op E P run vm =
     list_and_closure vm (\<lambda>items f vm.
       let n = min (max (e_par_max_concurrency E) 1) (max (length items) 1);
           h = (case e_spawn_for_worker E (vm_host vm) of Some h \<Rightarrow> h | None \<Rightarrow> e_deny_all E);
           worker = set_step_limit (with_handler P h) (vm_step_limit vm);
           bucket = (\<lambda>k. filter (\<lambda>(i, _). i mod n = k) (enumerate 0 items))
       in case run_workers (\<lambda>k. run_bucket (\<lambda>vm. invoke_closure E P run vm f) worker (bucket k)) [0..<n] of
            None \<Rightarrow> NoFuel
          | Some rs \<Rightarrow>
              (case collect_results (map_of rs) [0..<length items] of
                 Inl e \<Rightarrow> Fail e
               | Inr vs \<Rightarrow> Next (push (VList vs) vm)))"

section \<open>Effects and the request arena\<close>

text \<open>
  \<open>materialize_arena_handles\<close>: \<open>deref\<close> resolves what a handle points to, and the function below it
  is bounded by the number of slab entries, which handles always point below. \<open>None\<close> is a panic.
\<close>

fun seq_all :: "'a option list \<Rightarrow> 'a list option" where
  "seq_all [] = Some []"
| "seq_all (x # xs) = (case x of None \<Rightarrow> None | Some y \<Rightarrow> map_option ((#) y) (seq_all xs))"

definition seq_fields :: "('k \<times> 'a option) list \<Rightarrow> ('k \<times> 'a) list option" where
  "seq_fields kvs = map_option (zip (map fst kvs)) (seq_all (map snd kvs))"

primrec materialize_value ::
  "(nat \<Rightarrow> nat \<Rightarrow> nat \<Rightarrow> Value option) \<Rightarrow> (nat \<Rightarrow> nat \<Rightarrow> Value option) \<Rightarrow> Value \<Rightarrow> Value option" where
  "materialize_value dr dt (VInt n) = Some (VInt n)"
| "materialize_value dr dt (VFloat f) = Some (VFloat f)"
| "materialize_value dr dt (VBool b) = Some (VBool b)"
| "materialize_value dr dt (VStr s) = Some (VStr s)"
| "materialize_value dr dt (VBytes b) = Some (VBytes b)"
| "materialize_value dr dt VUnit = Some VUnit"
| "materialize_value dr dt (VList items) = map_option VList (seq_all (map (materialize_value dr dt) items))"
| "materialize_value dr dt (VTuple items) = map_option VTuple (seq_all (map (materialize_value dr dt) items))"
| "materialize_value dr dt (VRecord sid fs) =
     map_option (VRecord sid) (seq_fields (map (map_prod id (materialize_value dr dt)) fs))"
| "materialize_value dr dt (VStackRecord _ _ _) = None"
| "materialize_value dr dt (VStackTuple _ _) = None"
| "materialize_value dr dt (VArenaRecord sid start n) = dr sid start n"
| "materialize_value dr dt (VArenaTuple start n) = dt start n"
| "materialize_value dr dt (VVariant name args) =
     map_option (VVariant name) (seq_all (map (materialize_value dr dt) args))"
| "materialize_value dr dt (VClosure f h cs) = Some (VClosure f h cs)"
| "materialize_value dr dt (VF64Array r c d) = Some (VF64Array r c d)"
| "materialize_value dr dt (VMap m) = Some (VMap m)"
| "materialize_value dr dt (VSet s) = Some (VSet s)"
| "materialize_value dr dt (VDeque items) = map_option VDeque (seq_all (map (materialize_value dr dt) items))"
| "materialize_value dr dt (VActor a) = Some (VActor a)"
| "materialize_value dr dt (VTicker a) = Some (VTicker a)"
| "materialize_value dr dt (VAskHandle a) = Some (VAskHandle a)"
| "materialize_value dr dt (VArrowTable t) = Some (VArrowTable t)"

definition shape_names :: "Program \<Rightarrow> nat \<Rightarrow> nat \<Rightarrow> string list option" where
  "shape_names P shape_id n =
     (case nth_opt (pg_record_shapes P) shape_id of
        None \<Rightarrow> None
      | Some shape \<Rightarrow>
          seq_all (map (\<lambda>i. case const_at P i of Some (FieldName s) \<Rightarrow> Some s | _ \<Rightarrow> None) (take n shape)))"

definition slab_values :: "Value list \<Rightarrow> nat \<Rightarrow> nat \<Rightarrow> Value list option" where
  "slab_values slab start n = seq_all (map (\<lambda>i. nth_opt slab (start + i)) [0..<n])"

primrec materialize :: "nat \<Rightarrow> Program \<Rightarrow> Value list \<Rightarrow> Value \<Rightarrow> Value option" where
  "materialize 0 P slab = materialize_value (\<lambda>_ _ _. None) (\<lambda>_ _. None)"
| "materialize (Suc d) P slab =
     materialize_value
       (\<lambda>sid start n.
          Option.bind (shape_names P sid n) (\<lambda>names.
          Option.bind (slab_values slab start (length names)) (\<lambda>vs.
          Option.bind (seq_all (map (materialize d P slab) vs)) (\<lambda>ws.
            Some (VRecord sid (fold (\<lambda>(k, w) fs. imap_insert k w fs) (zip names ws) []))))))
       (\<lambda>start n.
          Option.bind (slab_values slab start n) (\<lambda>vs.
          Option.bind (seq_all (map (materialize d P slab) vs)) (\<lambda>ws. Some (VTuple ws))))"

definition materialize_arena_handles :: "Program \<Rightarrow> 'h Vm \<Rightarrow> Value \<Rightarrow> Value option" where
  "materialize_arena_handles P vm v = materialize (Suc (length (vm_arena_slab vm))) P (vm_arena_slab vm) v"

definition enter_request_scope :: "'h env \<Rightarrow> 'h Vm \<Rightarrow> nat \<times> 'h Vm" where
  "enter_request_scope E vm =
     (let (scope_id, h) = e_enter_scope E (vm_host vm)
      in (scope_id, vm\<lparr>vm_arena_scope_starts := length (vm_arena_slab vm) # vm_arena_scope_starts vm,
            vm_host := h\<rparr>))"

definition exit_request_scope :: "'h env \<Rightarrow> nat \<Rightarrow> 'h Vm \<Rightarrow> 'h Vm" where
  "exit_request_scope E scope_id vm =
     (let vm =
        (case vm_arena_scope_starts vm of
           [] \<Rightarrow> vm
         | start # rest \<Rightarrow>
             vm\<lparr>vm_arena_scope_starts := rest, vm_arena_slab := take start (vm_arena_slab vm)\<rparr>)
      in vm\<lparr>vm_host := e_exit_scope E (vm_host vm) scope_id\<rparr>)"

definition str_const :: "Program \<Rightarrow> nat \<Rightarrow> (string \<Rightarrow> 'h step_result) \<Rightarrow> 'h step_result" where
  "str_const P i k =
     orPanic (const_at P i) (\<lambda>c. case c of ConstStr s \<Rightarrow> k s | _ \<Rightarrow> Fail (VmErr TypeMismatch))"

definition exec_effect_call :: "'h env \<Rightarrow> Program \<Rightarrow> nat \<Rightarrow> nat \<Rightarrow> nat \<Rightarrow> nat \<Rightarrow> 'h Vm \<Rightarrow> 'h step_result" where
  "exec_effect_call E P kind_idx op_idx arity node_id_idx vm =
     pop_n arity vm (\<lambda>args vm.
     orPanic (if vm_arena_slab vm = [] then Some args
              else seq_all (map (materialize_arena_handles P vm) args)) (\<lambda>args.
     str_const P kind_idx (\<lambda>kind. str_const P op_idx (\<lambda>op_name.
           let node_id = const_str P node_id_idx;
               vm = emit (EnterEffect node_id kind op_name args) vm;
               (ov, h) = e_override_effect E (vm_host vm) node_id;
               (result, h) = (case ov of Some v \<Rightarrow> (Inr v, h) | None \<Rightarrow> e_dispatch E h kind op_name args)
           in (case result of
                 Inl e \<Rightarrow> Fail (VmErr (EffectError e))
               | Inr v \<Rightarrow>
                   let vm = emit (ExitOk v) vm; (code, h) = e_take_exit E h
                   in (case code of
                         Some c \<Rightarrow> Fail (VmErr (ProcessExit c))
                       | None \<Rightarrow> Next (push v (vm\<lparr>vm_host := h\<rparr>))))))))"

section \<open>Superinstructions\<close>

definition local_int :: "'h Vm \<Rightarrow> nat \<Rightarrow> i64 option" where
  "local_int vm i = Option.bind (local_at vm i) as_int"

definition int_const :: "Program \<Rightarrow> nat \<Rightarrow> failure + i64" where
  "int_const P i =
     (case const_at P i of
        None \<Rightarrow> Inl HostPanic | Some (ConstInt n) \<Rightarrow> Inr n | Some _ \<Rightarrow> Inl (VmErr TypeMismatch))"

definition fused_field ::
  "Program \<Rightarrow> nat \<Rightarrow> nat \<Rightarrow> nat \<Rightarrow> nat \<Rightarrow> nat \<Rightarrow> (i64 \<Rightarrow> i64 \<Rightarrow> i64) \<Rightarrow> 'h Vm \<Rightarrow> 'h step_result" where
  "fused_field P pc fn_id local_idx name_idx site_idx f vm =
     pop vm (\<lambda>acc vm. orPanic (as_int acc) (\<lambda>acc.
     read_local_record_field P local_idx fn_id name_idx site_idx vm (\<lambda>b vm.
     orPanic (as_int b) (\<lambda>b. Next (set_pc (pc + 3) (push (VInt (f acc b)) vm))))))"

definition exec_fused :: "Program \<Rightarrow> nat \<Rightarrow> nat \<Rightarrow> FusedOp \<Rightarrow> 'h Vm \<Rightarrow> 'h step_result" where
  "exec_fused P fn_id pc op' vm =
     (case op' of
        LoadLocalAddIntConst local_idx imm_const_idx \<Rightarrow>
          orPanic (local_int vm local_idx) (\<lambda>a. orFail (int_const P imm_const_idx) (\<lambda>b.
            Next (set_pc (pc + 3) (push (VInt (a + b)) vm))))
      | LoadLocalAddLocal lhs_idx rhs_idx \<Rightarrow>
          orPanic (local_int vm lhs_idx) (\<lambda>a. orPanic (local_int vm rhs_idx) (\<lambda>b.
            Next (set_pc (pc + 3) (push (VInt (a + b)) vm))))
      | LoadLocalSubLocal lhs_idx rhs_idx \<Rightarrow>
          orPanic (local_int vm lhs_idx) (\<lambda>a. orPanic (local_int vm rhs_idx) (\<lambda>b.
            Next (set_pc (pc + 3) (push (VInt (a - b)) vm))))
      | LoadLocalMulLocal lhs_idx rhs_idx \<Rightarrow>
          orPanic (local_int vm lhs_idx) (\<lambda>a. orPanic (local_int vm rhs_idx) (\<lambda>b.
            Next (set_pc (pc + 3) (push (VInt (a * b)) vm))))
      | LoadLocalGetField local_idx name_idx site_idx \<Rightarrow>
          read_local_record_field P local_idx fn_id name_idx site_idx vm (\<lambda>v vm.
            Next (set_pc (pc + 2) (push v vm)))
      | LoadLocalGetFieldAdd local_idx name_idx site_idx \<Rightarrow>
          fused_field P pc fn_id local_idx name_idx site_idx (+) vm
      | LoadLocalGetFieldSub local_idx name_idx site_idx \<Rightarrow>
          fused_field P pc fn_id local_idx name_idx site_idx (-) vm
      | LoadLocalGetFieldMul local_idx name_idx site_idx \<Rightarrow>
          fused_field P pc fn_id local_idx name_idx site_idx (*) vm
      | LoadLocalEqIntConstJumpIfNot local_idx imm_const_idx jump_offset \<Rightarrow>
          orPanic (local_int vm local_idx) (\<lambda>a. orFail (int_const P imm_const_idx) (\<lambda>b.
            Next (set_pc (if a = b then pc + 4 else jump_target (pc + 4) jump_offset) vm)))
      | LoadLocalStoreEqIntConstJumpIfNot src dst imm_const_idx jump_offset \<Rightarrow>
          orPanic (local_int vm src) (\<lambda>a. orPanic (set_local dst (VInt a) vm) (\<lambda>vm.
          orFail (int_const P imm_const_idx) (\<lambda>b.
            Next (set_pc (if a = b then pc + 6 else jump_target (pc + 6) jump_offset) vm))))
      | LoadLocalAddIntConstStoreLocal src imm_const_idx dest \<Rightarrow>
          orPanic (local_int vm src) (\<lambda>a. orFail (int_const P imm_const_idx) (\<lambda>b.
          orPanic (set_local dest (VInt (a + b)) vm) (\<lambda>vm. Next (set_pc (pc + 4) vm)))))"

section \<open>The interpreter loop\<close>

definition jump_on :: "bool \<Rightarrow> nat \<Rightarrow> int \<Rightarrow> 'h Vm \<Rightarrow> 'h step_result" where
  "jump_on want pc off vm =
     pop vm (\<lambda>v vm. orPanic (as_bool v) (\<lambda>b.
       Next (if b = want then set_pc (jump_target (pc + 1) off) vm else vm)))"

text \<open>
  One instruction. The loop has already advanced the program counter of the top frame to \<open>pc + 1\<close>;
  \<open>run\<close> is the loop itself, for the instructions that call closures back.
\<close>

definition exec_op ::
  "'h env \<Rightarrow> Program \<Rightarrow> 'h run \<Rightarrow> nat \<Rightarrow> nat \<Rightarrow> nat \<Rightarrow> Op \<Rightarrow> 'h Vm \<Rightarrow> 'h step_result" where
  "exec_op E P run base_depth fn_id pc op' vm =
     (case op' of
        PushConst i \<Rightarrow> orPanic (const_at P i) (\<lambda>c. Next (push (const_to_value c) vm))
      | Pop \<Rightarrow> pop vm (\<lambda>_ vm. Next vm)
      | Dup \<Rightarrow> pop vm (\<lambda>v vm. Next (push v (push v vm)))
      | LoadLocal i \<Rightarrow> orPanic (local_at vm i) (\<lambda>v. Next (push v vm))
      | TakeLocal i \<Rightarrow>
          orPanic (local_at vm i) (\<lambda>v. orPanic (set_local i VUnit vm) (\<lambda>vm. Next (push v vm)))
      | StoreLocal i \<Rightarrow> pop vm (\<lambda>v vm. orPanic (set_local i v vm) Next)
      | MakeRecord shape_idx field_count \<Rightarrow>
          make_record P shape_idx field_count (vm\<lparr>vm_heap_record_allocs := Suc (vm_heap_record_allocs vm)\<rparr>)
      | AllocStackRecord shape_idx field_count \<Rightarrow> alloc_stack_record P shape_idx field_count vm
      | AllocArenaRecord shape_idx field_count \<Rightarrow> alloc_arena_record P shape_idx field_count vm
      | MakeTuple n \<Rightarrow> make_tuple n vm
      | AllocStackTuple arity \<Rightarrow> alloc_stack_tuple arity vm
      | AllocArenaTuple arity \<Rightarrow> alloc_arena_tuple arity vm
      | MakeList n \<Rightarrow> pop_n n vm (\<lambda>items vm. Next (push (VList items) vm))
      | MakeVariant name_idx arity \<Rightarrow> make_variant P name_idx arity vm
      | GetField name_idx site_idx \<Rightarrow> get_field P fn_id name_idx site_idx vm
      | GetElem i \<Rightarrow> get_elem i vm
      | TestVariant i \<Rightarrow> test_variant P i vm
      | GetVariant _ \<Rightarrow> get_variant vm
      | GetVariantArg i \<Rightarrow> get_variant_arg i vm
      | GetListLen \<Rightarrow> get_list_len vm
      | GetListElem i \<Rightarrow> pop vm (\<lambda>v vm. list_elem v i vm)
      | ListAppend \<Rightarrow> list_append vm
      | GetListElemDyn \<Rightarrow> get_list_elem_dyn vm
      | Jump off \<Rightarrow> Next (set_pc (jump_target (pc + 1) off) vm)
      | JumpIf off \<Rightarrow> jump_on True pc off vm
      | JumpIfNot off \<Rightarrow> jump_on False pc off vm
      | Call fid arity node_id_idx \<Rightarrow> exec_call E P fid arity node_id_idx vm
      | TailCall fid arity node_id_idx \<Rightarrow> exec_tail_call E P fid arity node_id_idx vm
      | MakeClosure fid capture_count \<Rightarrow> make_closure P fid capture_count vm
      | CallClosure arity node_id_idx \<Rightarrow> exec_call_closure E P arity node_id_idx vm
      | SortByKey _ \<Rightarrow> sort_by_key_op E P run vm
      | ParallelMap _ \<Rightarrow> parallel_map_op E P run vm
      | ListMap _ \<Rightarrow> list_map_op E P run vm
      | ListFilter _ \<Rightarrow> list_filter_op E P run vm
      | ListFold _ \<Rightarrow> list_fold_op E P run vm
      | EffectCall kind_idx op_idx arity node_id_idx \<Rightarrow>
          exec_effect_call E P kind_idx op_idx arity node_id_idx vm
      | Return \<Rightarrow> exec_return base_depth vm
      | Panic i \<Rightarrow>
          orPanic (const_at P i) (\<lambda>c.
            Fail (VmErr (VmPanic (case c of ConstStr s \<Rightarrow> s | _ \<Rightarrow> ''panic''))))
      | Prim p \<Rightarrow> exec_prim (e_fpu E) p vm
      | Fused f \<Rightarrow> exec_fused P fn_id pc f vm)"

definition step :: "'h env \<Rightarrow> Program \<Rightarrow> 'h run \<Rightarrow> nat \<Rightarrow> 'h Vm \<Rightarrow> 'h step_result" where
  "step E P run base_depth vm =
     (case vm_frames vm of
        [] \<Rightarrow> Fail HostPanic
      | fr # _ \<Rightarrow>
          orPanic (nth_opt (pg_functions P) (fr_fn_id fr)) (\<lambda>f.
            if vm_steps vm > vm_step_limit vm then Fail (VmErr (StepLimit (fn_name f)))
            else
              (case nth_opt (fn_code f) (fr_pc fr) of
                 None \<Rightarrow> Fail PcRange
               | Some op' \<Rightarrow>
                   exec_op E P run base_depth (fr_fn_id fr) (fr_pc fr) op'
                     (set_pc (fr_pc fr + 1) (vm\<lparr>vm_steps := Suc (vm_steps vm)\<rparr>)))))"

primrec run_to :: "nat \<Rightarrow> 'h env \<Rightarrow> Program \<Rightarrow> 'h run" where
  "run_to 0 E P = (\<lambda>vm base_depth. None)"
| "run_to (Suc fuel) E P =
     (\<lambda>vm base_depth.
        case step E P (run_to fuel E P) base_depth vm of
          Next vm' \<Rightarrow> run_to fuel E P vm' base_depth
        | Done vm' v \<Rightarrow> Some (Inr (vm', v))
        | Fail e \<Rightarrow> Some (Inl e)
        | NoFuel \<Rightarrow> None)"

end
