(* ===== verification/Bc_Verify.thy ===== *)
theory Bc_Verify
  imports Bc_Program
begin

text \<open>
  The stack-depth verifier, \<open>crates/lex-bytecode/src/verify.rs\<close>. Depths and program counters are
  computed in \<open>i32\<close> with wrap-around, and a negative target becomes a huge \<open>usize\<close>, as in the source.
  The specification is the set of depths with which each program counter can be entered.
\<close>

section \<open>Stack effects\<close>

definition i32 :: "nat \<Rightarrow> int" where
  "i32 n = wrap32 (int n)"

definition pops_to_one :: "nat \<Rightarrow> int" where
  "pops_to_one n = wrap32 (- i32 n + 1)"

definition prim_delta :: "PrimOp \<Rightarrow> int" where
  "prim_delta p =
     (case p of
        IntAdd \<Rightarrow> -1 | IntSub \<Rightarrow> -1 | IntMul \<Rightarrow> -1 | IntDiv \<Rightarrow> -1 | IntMod \<Rightarrow> -1
      | IntEq \<Rightarrow> -1 | IntLt \<Rightarrow> -1 | IntLe \<Rightarrow> -1 | IntNeg \<Rightarrow> 0
      | FloatAdd \<Rightarrow> -1 | FloatSub \<Rightarrow> -1 | FloatMul \<Rightarrow> -1 | FloatDiv \<Rightarrow> -1
      | FloatEq \<Rightarrow> -1 | FloatLt \<Rightarrow> -1 | FloatLe \<Rightarrow> -1 | FloatNeg \<Rightarrow> 0
      | NumAdd \<Rightarrow> -1 | NumSub \<Rightarrow> -1 | NumMul \<Rightarrow> -1 | NumDiv \<Rightarrow> -1 | NumMod \<Rightarrow> -1
      | NumEq \<Rightarrow> -1 | NumLt \<Rightarrow> -1 | NumLe \<Rightarrow> -1 | NumNeg \<Rightarrow> 0
      | BoolAnd \<Rightarrow> -1 | BoolOr \<Rightarrow> -1 | BoolNot \<Rightarrow> 0
      | StrConcat \<Rightarrow> -1 | StrLen \<Rightarrow> 0 | StrEq \<Rightarrow> -1 | BytesLen \<Rightarrow> 0 | BytesEq \<Rightarrow> -1)"

definition fused_delta :: "FusedOp \<Rightarrow> int" where
  "fused_delta f =
     (case f of
        LoadLocalAddIntConst _ _ \<Rightarrow> 1
      | LoadLocalAddIntConstStoreLocal _ _ _ \<Rightarrow> 0
      | LoadLocalAddLocal _ _ \<Rightarrow> 1 | LoadLocalSubLocal _ _ \<Rightarrow> 1 | LoadLocalMulLocal _ _ \<Rightarrow> 1
      | LoadLocalEqIntConstJumpIfNot _ _ _ \<Rightarrow> 0
      | LoadLocalStoreEqIntConstJumpIfNot _ _ _ _ \<Rightarrow> 0
      | LoadLocalGetFieldAdd _ _ _ \<Rightarrow> 1 | LoadLocalGetFieldSub _ _ _ \<Rightarrow> 1
      | LoadLocalGetFieldMul _ _ _ \<Rightarrow> 1
      | LoadLocalGetField _ _ _ \<Rightarrow> 1)"

definition stack_delta :: "Op \<Rightarrow> int" where
  "stack_delta op' =
     (case op' of
        PushConst _ \<Rightarrow> 1 | Pop \<Rightarrow> -1 | Dup \<Rightarrow> 1
      | LoadLocal _ \<Rightarrow> 1 | TakeLocal _ \<Rightarrow> 1 | StoreLocal _ \<Rightarrow> -1
      | MakeRecord _ field_count \<Rightarrow> pops_to_one field_count
      | AllocStackRecord _ field_count \<Rightarrow> pops_to_one field_count
      | AllocArenaRecord _ field_count \<Rightarrow> pops_to_one field_count
      | MakeTuple n \<Rightarrow> pops_to_one n
      | AllocStackTuple arity \<Rightarrow> pops_to_one arity
      | AllocArenaTuple arity \<Rightarrow> pops_to_one arity
      | MakeList n \<Rightarrow> pops_to_one n
      | MakeVariant _ arity \<Rightarrow> pops_to_one arity
      | GetField _ _ \<Rightarrow> 0 | GetElem _ \<Rightarrow> 0 | GetListElem _ \<Rightarrow> 0 | GetListLen \<Rightarrow> 0
      | TestVariant _ \<Rightarrow> 0 | GetVariant _ \<Rightarrow> 0 | GetVariantArg _ \<Rightarrow> 0
      | ListAppend \<Rightarrow> -1 | GetListElemDyn \<Rightarrow> -1
      | Jump _ \<Rightarrow> 0 | JumpIf _ \<Rightarrow> -1 | JumpIfNot _ \<Rightarrow> -1
      | Call _ arity _ \<Rightarrow> pops_to_one arity
      | TailCall _ arity _ \<Rightarrow> pops_to_one arity
      | CallClosure arity _ \<Rightarrow> wrap32 (- wrap32 (i32 arity + 1) + 1)
      | EffectCall _ _ arity _ \<Rightarrow> pops_to_one arity
      | MakeClosure _ capture_count \<Rightarrow> pops_to_one capture_count
      | SortByKey _ \<Rightarrow> -1 | ParallelMap _ \<Rightarrow> -1 | ListMap _ \<Rightarrow> -1 | ListFilter _ \<Rightarrow> -1 | ListFold _ \<Rightarrow> -2
      | Return \<Rightarrow> -1 | Panic _ \<Rightarrow> 0
      | Prim p \<Rightarrow> prim_delta p
      | Fused f \<Rightarrow> fused_delta f)"

text \<open>\<open>(pc as i32 + k + off) as usize\<close>\<close>

definition target :: "nat \<Rightarrow> int \<Rightarrow> int \<Rightarrow> nat" where
  "target pc k off = i32_as_usize (wrap32 (wrap32 (i32 pc + k) + off))"

text \<open>What the loop pushes, in the order it pushes it.\<close>

definition successors :: "Op \<Rightarrow> nat \<Rightarrow> int \<Rightarrow> (nat \<times> int) list" where
  "successors op' pc depth =
     (let next_depth = wrap32 (depth + stack_delta op') in
      case op' of
        Jump off \<Rightarrow> [(target pc 1 off, next_depth)]
      | JumpIf off \<Rightarrow> [(pc + 1, next_depth), (target pc 1 off, next_depth)]
      | JumpIfNot off \<Rightarrow> [(pc + 1, next_depth), (target pc 1 off, next_depth)]
      | Return \<Rightarrow> []
      | TailCall _ _ _ \<Rightarrow> []
      | Panic _ \<Rightarrow> []
      | Fused (LoadLocalAddIntConstStoreLocal _ _ _) \<Rightarrow> [(pc + 4, next_depth)]
      | Fused (LoadLocalEqIntConstJumpIfNot _ _ jump_offset) \<Rightarrow>
          [(pc + 4, next_depth), (target pc 4 jump_offset, next_depth)]
      | Fused (LoadLocalStoreEqIntConstJumpIfNot _ _ _ jump_offset) \<Rightarrow>
          [(pc + 6, next_depth), (target pc 6 jump_offset, next_depth)]
      | _ \<Rightarrow> [(pc + 1, next_depth)])"

section \<open>The verifier\<close>

record StackError =
  se_fn_name :: string
  se_pc :: nat
  se_depth_a :: int
  se_depth_b :: int

definition unvisited :: "int option list \<Rightarrow> nat" where
  "unvisited depths = length (filter (\<lambda>d. d = None) depths)"

lemma unvisited_update:
  "pc < length ds \<Longrightarrow> ds ! pc = None \<Longrightarrow> unvisited (ds[pc := Some d]) < unvisited ds"
proof (induction ds arbitrary: pc)
  case (Cons a ds)
  then show ?case
    by (cases pc) (auto simp: unvisited_def)
qed simp

text \<open>The worklist is a stack: its head is what \<open>pop\<close> returns next.\<close>

function verify_loop ::
  "string \<Rightarrow> Op list \<Rightarrow> int option list \<Rightarrow> (nat \<times> int) list \<Rightarrow> StackError list \<Rightarrow> StackError list" where
  "verify_loop name code depths [] errors = errors"
| "verify_loop name code depths ((pc, depth) # worklist) errors =
     (if pc \<ge> length depths then verify_loop name code depths worklist errors
      else case depths ! pc of
        Some prev \<Rightarrow>
          verify_loop name code depths worklist
            (if prev \<noteq> depth
             then errors @ [\<lparr>se_fn_name = name, se_pc = pc, se_depth_a = prev, se_depth_b = depth\<rparr>]
             else errors)
      | None \<Rightarrow>
          verify_loop name code (depths[pc := Some depth])
            (rev (successors (code ! pc) pc depth) @ worklist) errors)"
  by pat_completeness auto

termination
  by (relation "inv_image (less_than <*lex*> less_than)
      (\<lambda>(_, _, depths, worklist, _). (unvisited depths, length worklist))")
    (auto simp: unvisited_update)

definition verify_function :: "Function \<Rightarrow> StackError list \<Rightarrow> StackError list" where
  "verify_function func errors =
     (let n = length (fn_code func) in
      if n = 0 then errors
      else verify_loop (fn_name func) (fn_code func) (replicate n None) [(0, 0)] errors)"

definition verify_program :: "Function list \<Rightarrow> StackError list" where
  "verify_program functions = fold verify_function functions []"

section \<open>Which depths a program counter can be entered with\<close>

inductive enters :: "Op list \<Rightarrow> nat \<Rightarrow> int \<Rightarrow> bool" for code where
  entry: "enters code 0 0"
| flow: "enters code pc d \<Longrightarrow> pc < length code \<Longrightarrow> (pc', d') \<in> set (successors (code ! pc) pc d) \<Longrightarrow>
    enters code pc' d'"

text \<open>
  The invariant of the loop: recorded depths and pending entries are real, every error names two
  real depths, and as long as there is no error everything reachable in one step is recorded or
  pending.
\<close>

definition real_error :: "string \<Rightarrow> Op list \<Rightarrow> StackError \<Rightarrow> bool" where
  "real_error name code e \<longleftrightarrow> se_fn_name e = name \<and> se_pc e < length code \<and>
     se_depth_a e \<noteq> se_depth_b e \<and> enters code (se_pc e) (se_depth_a e) \<and> enters code (se_pc e) (se_depth_b e)"

definition covered :: "Op list \<Rightarrow> int option list \<Rightarrow> (nat \<times> int) list \<Rightarrow> nat \<Rightarrow> int \<Rightarrow> bool" where
  "covered code depths worklist pc d \<longleftrightarrow>
     pc \<ge> length code \<or> (pc, d) \<in> set worklist \<or> depths ! pc = Some d"

definition loop_inv ::
  "string \<Rightarrow> Op list \<Rightarrow> int option list \<Rightarrow> (nat \<times> int) list \<Rightarrow> StackError list \<Rightarrow> bool" where
  "loop_inv name code depths worklist errors \<longleftrightarrow>
     length depths = length code \<and>
     (\<forall>pc < length code. \<forall>d. depths ! pc = Some d \<longrightarrow> enters code pc d) \<and>
     (\<forall>(pc, d) \<in> set worklist. enters code pc d) \<and>
     (\<forall>e \<in> set errors. real_error name code e) \<and>
     (errors = [] \<longrightarrow> covered code depths worklist 0 0 \<and>
        (\<forall>pc < length code. \<forall>d. depths ! pc = Some d \<longrightarrow>
           (\<forall>(pc', d') \<in> set (successors (code ! pc) pc d). covered code depths worklist pc' d')))"

lemma loop_inv_skip:
  assumes "loop_inv name code depths ((pc, d) # worklist) errors"
    and "pc \<ge> length code \<or> depths ! pc = Some d"
  shows "loop_inv name code depths worklist errors"
proof -
  have "covered code depths worklist p e" if "covered code depths ((pc, d) # worklist) p e" for p e
    using that assms(2) by (auto simp: covered_def)
  then show ?thesis
    using assms(1) by (auto simp: loop_inv_def split: prod.splits)
qed

lemma loop_inv_error:
  assumes "loop_inv name code depths ((pc, d) # worklist) errors"
    and "pc < length code" and "depths ! pc = Some prev" and "prev \<noteq> d"
  shows "loop_inv name code depths worklist
    (errors @ [\<lparr>se_fn_name = name, se_pc = pc, se_depth_a = prev, se_depth_b = d\<rparr>])"
  using assms by (auto simp: loop_inv_def real_error_def)

lemma loop_inv_visit:
  assumes inv: "loop_inv name code depths ((pc, d) # worklist) errors"
    and pc: "pc < length code" and new: "depths ! pc = None"
  shows "loop_inv name code (depths[pc := Some d]) (rev (successors (code ! pc) pc d) @ worklist) errors"
proof -
  let ?ds = "depths[pc := Some d]" and ?wl = "rev (successors (code ! pc) pc d) @ worklist"
  have len: "length depths = length code" and d: "enters code pc d"
    using inv by (auto simp: loop_inv_def)
  have nth: "?ds ! p = (if p = pc then Some d else depths ! p)" if "p < length code" for p
    using that len by (simp add: nth_list_update)
  have keep: "covered code ?ds ?wl p e" if "covered code depths ((pc, d) # worklist) p e" for p e
    using that new len pc by (auto simp: covered_def nth_list_update)
  have succ: "covered code ?ds ?wl p e" if "(p, e) \<in> set (successors (code ! pc) pc d)" for p e
    using that by (simp add: covered_def)
  have "\<forall>(p, e) \<in> set ?wl. enters code p e"
    using inv enters.flow [OF d pc] by (auto simp: loop_inv_def)
  moreover have "\<forall>p < length code. \<forall>e. ?ds ! p = Some e \<longrightarrow> enters code p e"
    using inv d nth by (auto simp: loop_inv_def)
  moreover have "\<forall>p < length code. \<forall>e. ?ds ! p = Some e \<longrightarrow>
      (\<forall>(p', e') \<in> set (successors (code ! p) p e). covered code ?ds ?wl p' e')" if "errors = []"
  proof (intro allI impI)
    fix p e assume p: "p < length code" "?ds ! p = Some e"
    show "\<forall>(p', e') \<in> set (successors (code ! p) p e). covered code ?ds ?wl p' e'"
    proof (cases "p = pc")
      case True
      then show ?thesis using succ p nth by auto
    next
      case False
      then have "\<forall>(p', e') \<in> set (successors (code ! p) p e). covered code depths ((pc, d) # worklist) p' e'"
        using inv that p nth by (simp add: loop_inv_def)
      then show ?thesis using keep by blast
    qed
  qed
  moreover have "covered code ?ds ?wl 0 0" if "errors = []"
    using inv that keep by (simp add: loop_inv_def)
  ultimately show ?thesis
    using inv by (simp add: loop_inv_def)
qed

lemma verify_loop_inv:
  "loop_inv name code depths worklist errors \<Longrightarrow>
   \<exists>depths'. loop_inv name code depths' [] (verify_loop name code depths worklist errors)"
proof (induction name code depths worklist errors rule: verify_loop.induct)
  case (2 name code depths pc d worklist errors)
  have len: "length depths = length code"
    using "2.prems" by (simp add: loop_inv_def)
  show ?case
  proof (cases "pc < length code")
    case False
    then show ?thesis
      using "2.IH"(1) loop_inv_skip [OF "2.prems"] len by simp
  next
    case pc: True
    show ?thesis
    proof (cases "depths ! pc")
      case None
      then show ?thesis
        using "2.IH"(2) loop_inv_visit [OF "2.prems" pc] len pc by simp
    next
      case (Some prev)
      then show ?thesis
        using "2.IH"(3) loop_inv_skip [OF "2.prems"] loop_inv_error [OF "2.prems" pc Some] len pc
        by (cases "prev = d") simp_all
    qed
  qed
qed auto

lemma loop_inv_start: "code \<noteq> [] \<Longrightarrow> loop_inv name code (replicate (length code) None) [(0, 0)] []"
  by (auto simp: loop_inv_def covered_def intro: enters.entry)

text \<open>A finished run without errors has recorded the only depth of everything that can be entered.\<close>

lemma no_error_unique:
  assumes inv: "loop_inv name code depths [] []"
  shows "enters code pc d \<Longrightarrow> pc < length code \<Longrightarrow> depths ! pc = Some d"
proof (induction rule: enters.induct)
  case entry
  then show ?case using inv by (simp add: loop_inv_def covered_def)
next
  case (flow pc d pc' d')
  then show ?case using inv by (fastforce simp: loop_inv_def covered_def)
qed

lemma verify_function_inv:
  obtains depths where "loop_inv (fn_name f) (fn_code f) depths [] (verify_function f [])" | "fn_code f = []"
    "verify_function f [] = []"
  using verify_loop_inv [OF loop_inv_start, of "fn_code f" "fn_name f"]
  by (cases "fn_code f = []") (auto simp: verify_function_def Let_def)

lemma verify_loop_append:
  "verify_loop name code depths worklist (es @ errors) = es @ verify_loop name code depths worklist errors"
proof (induction name code depths worklist errors rule: verify_loop.induct)
  case (2 name code depths pc d worklist errors)
  then show ?case by (auto split: option.split)
qed simp

lemma verify_program_concat: "verify_program fs = concat (map (\<lambda>f. verify_function f []) fs)"
proof -
  have app: "verify_function f es = es @ verify_function f []" for f es
    using verify_loop_append [of _ _ _ _ es "[]"] by (simp add: verify_function_def Let_def)
  have "fold verify_function fs es = es @ concat (map (\<lambda>f. verify_function f []) fs)" for es
  proof (induction fs arbitrary: es)
    case (Cons f fs)
    then show ?case using app [of f es] by simp
  qed simp
  then show ?thesis by (simp add: verify_program_def)
qed

section \<open>Properties\<close>

text \<open>
  C22. The verifier is exact: it reports nothing for a function exactly when no instruction can be
  entered with two different stack depths along any paths, and every error it reports names two
  different depths with which its instruction really can be entered. The worklist always empties.
\<close>

theorem verify_function_exact:
  "(verify_function f [] = [] \<longleftrightarrow>
      (\<forall>pc d d'. pc < length (fn_code f) \<longrightarrow> enters (fn_code f) pc d \<longrightarrow> enters (fn_code f) pc d' \<longrightarrow> d = d')) \<and>
   (\<forall>e \<in> set (verify_function f []). se_fn_name e = fn_name f \<and> se_depth_a e \<noteq> se_depth_b e \<and>
      enters (fn_code f) (se_pc e) (se_depth_a e) \<and> enters (fn_code f) (se_pc e) (se_depth_b e))"
proof (rule verify_function_inv [of f])
  fix depths
  assume inv: "loop_inv (fn_name f) (fn_code f) depths [] (verify_function f [])"
  have real: "real_error (fn_name f) (fn_code f) e" if "e \<in> set (verify_function f [])" for e
    using inv that by (simp add: loop_inv_def)
  have uniq: "d = d'" if "verify_function f [] = []" "pc < length (fn_code f)"
      "enters (fn_code f) pc d" "enters (fn_code f) pc d'" for pc d d'
    using no_error_unique [OF inv [unfolded that(1)]] that by (metis option.inject)
  have none: "verify_function f [] = []"
    if u: "\<forall>pc d d'. pc < length (fn_code f) \<longrightarrow> enters (fn_code f) pc d \<longrightarrow> enters (fn_code f) pc d' \<longrightarrow> d = d'"
  proof (rule ccontr)
    assume "verify_function f [] \<noteq> []"
    then have "hd (verify_function f []) \<in> set (verify_function f [])" by simp
    from real [OF this] show False
      using u unfolding real_error_def by blast
  qed
  show ?thesis
    using real uniq none unfolding real_error_def by blast
qed simp

definition leaky_code :: "Op list" where
  "leaky_code = [PushConst 0, JumpIfNot 2, PushConst 0, Jump 2, PushConst 0, PushConst 0, Return]"

theorem verify_function_exact_witness:
  "\<exists>pc d d'. enters leaky_code pc d \<and> enters leaky_code pc d' \<and> d \<noteq> d'"
proof -
  let ?f = "plain_function ''leak'' 0 0 leaky_code"
  have "verify_function ?f [] \<noteq> []"
    by code_simp
  then show ?thesis
    using verify_function_exact [of ?f] by (simp add: plain_function_def) blast
qed

end
