(* ===== verification/Bc_VmStack.thy ===== *)
theory Bc_VmStack
  imports Bc_Vm Bc_Verify
begin

text \<open>
  The stack discipline of the machine: what every instruction takes from and leaves on the operand
  stack, and what it keeps of the frames, locals and arena below its own frame. The number of
  operands is compared with the depths of the verifier, which gives the property that a call leaves
  the machine as it found it and that no run takes an operand that is not there.
\<close>

section \<open>Plain instructions\<close>

text \<open>The failures that the stack discipline excludes.\<close>

definition bad :: "failure \<Rightarrow> bool" where
  "bad e \<longleftrightarrow> e = VmErr StackUnderflow \<or> e = PcRange \<or> e = ArgsRange"

lemma bad_simps [simp]:
  "bad (VmErr StackUnderflow)" "bad PcRange" "bad ArgsRange" "\<not> bad HostPanic"
  "\<not> bad (VmErr TypeMismatch)" "\<not> bad (VmErr (DivByZero m))" "\<not> bad (VmErr (VmPanic s))"
  "\<not> bad (VmErr (StepLimit s))" "\<not> bad (VmErr (EffectError s))" "\<not> bad (VmErr (ProcessExit c))"
  "\<not> bad (VmErr (CallStackOverflow n))" "\<not> bad (VmErr (RefinementFailed s n b))"
  by (simp_all add: bad_def)

text \<open>A frame that only moved its program counter or spent its budget.\<close>

definition same_frame :: "Frame \<Rightarrow> Frame \<Rightarrow> bool" where
  "same_frame f g \<longleftrightarrow> f\<lparr>fr_pc := 0, fr_budget := 0\<rparr> = g\<lparr>fr_pc := 0, fr_budget := 0\<rparr>"

lemma same_frame_refl [simp]: "same_frame f f"
  by (simp add: same_frame_def)

lemma same_frame_trans: "same_frame f g \<Longrightarrow> same_frame g h \<Longrightarrow> same_frame f h"
  by (simp add: same_frame_def)

lemma same_frame_fields:
  assumes "same_frame f g"
  shows "fr_fn_id g = fr_fn_id f" "fr_locals_start g = fr_locals_start f"
    "fr_stack_base g = fr_stack_base f" "fr_arena_start g = fr_arena_start f"
  using assms by (cases f; cases g; simp add: same_frame_def)+

text \<open>The step limit stays, and the steps taken only grow, to one past the limit at most.\<close>

definition metered :: "'h Vm \<Rightarrow> 'h Vm \<Rightarrow> bool" where
  "metered vm vm' \<longleftrightarrow>
     vm_step_limit vm' = vm_step_limit vm \<and> vm_steps vm \<le> vm_steps vm' \<and>
     (vm_steps vm \<le> Suc (vm_step_limit vm) \<longrightarrow> vm_steps vm' \<le> Suc (vm_step_limit vm))"

lemma metered_refl [simp]: "metered vm vm"
  by (simp add: metered_def)

lemma metered_trans: "metered a b \<Longrightarrow> metered b c \<Longrightarrow> metered a c"
  by (simp add: metered_def)

text \<open>What an instruction keeps while it works inside the top frame.\<close>

definition keeps :: "'h Vm \<Rightarrow> 'h Vm \<Rightarrow> bool" where
  "keeps vm vm' \<longleftrightarrow>
     metered vm vm' \<and>
     (\<exists>f g fs. vm_frames vm = f # fs \<and> vm_frames vm' = g # fs \<and> same_frame f g \<and>
        take (fr_locals_start f) (vm_locals vm') = take (fr_locals_start f) (vm_locals vm)) \<and>
     length (vm_locals vm') = length (vm_locals vm) \<and>
     (\<exists>xs. vm_stack_arena vm' = vm_stack_arena vm @ xs)"

text \<open>
  \<open>acts n m S vm r\<close>: the instruction takes \<open>n\<close> operands, leaves \<open>m\<close>, continues at a program counter
  in \<open>S\<close>, and fails with a stack failure only when there are fewer than \<open>n\<close> operands.
\<close>

definition acts :: "nat \<Rightarrow> nat \<Rightarrow> nat set \<Rightarrow> 'h Vm \<Rightarrow> 'h step_result \<Rightarrow> bool" where
  "acts n m S vm r \<longleftrightarrow>
     (case r of
        Next vm' \<Rightarrow>
          n \<le> length (vm_stack vm) \<and> keeps vm vm' \<and> fr_pc (hd (vm_frames vm')) \<in> S \<and>
          (\<exists>ws. length ws = m \<and> vm_stack vm' = ws @ drop n (vm_stack vm))
      | Done _ _ \<Rightarrow> False
      | Fail e \<Rightarrow> bad e \<longrightarrow> length (vm_stack vm) < n
      | NoFuel \<Rightarrow> False)"

lemma keeps_refl: "vm_frames vm \<noteq> [] \<Longrightarrow> keeps vm vm"
  by (cases "vm_frames vm") (auto simp: keeps_def metered_def)

lemma keeps_trans: "keeps a b \<Longrightarrow> keeps b c \<Longrightarrow> keeps a c"
  unfolding keeps_def metered_def by (auto simp: same_frame_fields intro: same_frame_trans)

lemma keeps_stack [simp]:
  "keeps (vm\<lparr>vm_stack := s\<rparr>) vm' = keeps vm vm'" "keeps vm (vm'\<lparr>vm_stack := s\<rparr>) = keeps vm vm'"
  by (simp_all add: keeps_def metered_def)

lemma keeps_frames: "keeps vm vm' \<Longrightarrow> vm_frames vm' \<noteq> []"
  by (auto simp: keeps_def metered_def)

text \<open>An outcome that pushes one value, without touching the frames, or fails for another reason.\<close>

definition yields :: "'h Vm \<Rightarrow> 'h step_result \<Rightarrow> bool" where
  "yields vm r \<longleftrightarrow>
     (\<exists>v vm'. r = Next vm' \<and> vm_stack vm' = v # vm_stack vm \<and> keeps vm vm' \<and>
        fr_pc (hd (vm_frames vm')) = fr_pc (hd (vm_frames vm))) \<or>
     (\<exists>e. r = Fail e \<and> \<not> bad e)"

lemma yields_push [intro!]: "vm_frames vm \<noteq> [] \<Longrightarrow> yields vm (Next (push v vm))"
  using keeps_refl [of vm] by (auto simp: yields_def push_def)

lemma yields_fail [intro!]: "\<not> bad e \<Longrightarrow> yields vm (Fail e)"
  by (simp add: yields_def)

lemma yields_orPanic: "(\<And>x. m = Some x \<Longrightarrow> yields vm (k x)) \<Longrightarrow> yields vm (orPanic m k)"
  by (cases m) (auto simp: orPanic_def)

lemma yields_orFail:
  "(\<And>e. m = Inl e \<Longrightarrow> \<not> bad e) \<Longrightarrow> (\<And>x. m = Inr x \<Longrightarrow> yields vm (k x)) \<Longrightarrow> yields vm (orFail m k)"
  by (cases m) (auto simp: orFail_def)

abbreviation at_pc :: "'h Vm \<Rightarrow> nat set" where
  "at_pc vm \<equiv> {fr_pc (hd (vm_frames vm))}"

lemma acts_yields:
  assumes "n \<le> length (vm_stack vm)" and "yields (vm\<lparr>vm_stack := drop n (vm_stack vm)\<rparr>) r"
  shows "acts n (Suc 0) (at_pc vm) vm r"
  using assms by (auto simp: yields_def acts_def intro!: exI [of _ "[_]"])

lemma acts_orPanic: "(\<And>x. m = Some x \<Longrightarrow> acts n l S vm (k x)) \<Longrightarrow> acts n l S vm (orPanic m k)"
  by (cases m) (auto simp: orPanic_def acts_def)

lemma acts_fail: "\<not> bad e \<Longrightarrow> acts n m S vm (Fail e)"
  by (simp add: acts_def)

lemma acts_trans:
  assumes "keeps vm vm1" "vm_stack vm1 = vm_stack vm"
    and "acts n m S vm1 r"
  shows "acts n m S vm r"
  using assms by (auto simp: acts_def intro: keeps_trans split: step_result.splits)

lemma acts_pop_1:
  assumes "vm_frames vm \<noteq> []" and "\<And>v vm'. vm_frames vm' \<noteq> [] \<Longrightarrow> yields vm' (k v vm')"
  shows "acts (Suc 0) (Suc 0) (at_pc vm) vm (pop vm k)"
proof (cases "vm_stack vm")
  case Nil
  then show ?thesis by (simp add: pop_def acts_def)
next
  case (Cons v s)
  then show ?thesis
    using assms acts_yields [of "Suc 0" vm] by (simp add: pop_def)
qed

text \<open>A second operand is taken, or the instruction fails after looking at the first.\<close>

lemma acts_pop_2':
  assumes "vm_frames vm \<noteq> []"
    and "\<And>v vm'. (\<exists>e. k v vm' = Fail e \<and> \<not> bad e) \<or> (\<exists>l. k v vm' = pop vm' l \<and>
      (\<forall>w vm''. vm_frames vm'' \<noteq> [] \<longrightarrow> yields vm'' (l w vm'')))"
  shows "acts 2 (Suc 0) (at_pc vm) vm (pop vm k)"
proof (cases "vm_stack vm")
  case Nil
  then show ?thesis by (simp add: pop_def acts_def)
next
  case (Cons v s)
  from assms(2) [of v "vm\<lparr>vm_stack := s\<rparr>"] show ?thesis
  proof (elim disjE exE conjE)
    fix l assume l: "k v (vm\<lparr>vm_stack := s\<rparr>) = pop (vm\<lparr>vm_stack := s\<rparr>) l"
      and y: "\<forall>w vm''. vm_frames vm'' \<noteq> [] \<longrightarrow> yields vm'' (l w vm'')"
    show ?thesis
      using l y Cons assms(1) acts_yields [of 2 vm]
      by (cases s) (auto simp: pop_def acts_def numeral_2_eq_2)
  qed (simp add: Cons pop_def acts_def)
qed

lemma acts_pop_2:
  assumes "vm_frames vm \<noteq> []" and "\<And>v w vm'. vm_frames vm' \<noteq> [] \<Longrightarrow> yields vm' (k v w vm')"
  shows "acts 2 (Suc 0) (at_pc vm) vm (pop vm (\<lambda>v vm. pop vm (k v)))"
  using assms by (intro acts_pop_2') auto

lemma acts_pop_2p:
  assumes "vm_frames vm \<noteq> []" and "\<And>v w vm'. vm_frames vm' \<noteq> [] \<Longrightarrow> yields vm' (k v w vm')"
  shows "acts 2 (Suc 0) (at_pc vm) vm (pop vm (\<lambda>v vm. orPanic (g v) (\<lambda>v. pop vm (k v))))"
proof (rule acts_pop_2' [OF assms(1)])
  fix v and vm' :: "'a Vm"
  show "(\<exists>e. orPanic (g v) (\<lambda>v. pop vm' (k v)) = Fail e \<and> \<not> bad e) \<or>
      (\<exists>l. orPanic (g v) (\<lambda>v. pop vm' (k v)) = pop vm' l \<and>
        (\<forall>w vm''. vm_frames vm'' \<noteq> [] \<longrightarrow> yields vm'' (l w vm'')))"
    using assms(2) by (cases "g v") (auto simp: orPanic_def)
qed

lemma acts_pop_n:
  assumes "vm_frames vm \<noteq> []" and "\<And>vs vm'. vm_frames vm' \<noteq> [] \<Longrightarrow> yields vm' (k vs vm')"
  shows "acts n (Suc 0) (at_pc vm) vm (pop_n n vm k)"
proof (cases "length (vm_stack vm) < n")
  case False
  then show ?thesis
    using assms acts_yields [of n vm] by (simp add: pop_n_def)
qed (simp add: pop_n_def acts_def)

section \<open>Arithmetic and values\<close>

definition prim_pops :: "PrimOp \<Rightarrow> nat" where
  "prim_pops p = nat (1 - prim_delta p)"

lemma yields_num:
  assumes "\<And>x y. yields vm (f x y)" "\<And>x y. yields vm (g x y)"
  shows "yields vm (case (a, b) of (VInt x, VInt y) \<Rightarrow> f x y | (VFloat x, VFloat y) \<Rightarrow> g x y
    | _ \<Rightarrow> Fail (VmErr TypeMismatch))"
  using assms by (cases a; cases b) auto

lemma yields_ord:
  assumes "\<And>x y. yields vm (f x y)" "\<And>x y. yields vm (g x y)" "\<And>x y. yields vm (h x y)"
  shows "yields vm (case (a, b) of (VInt x, VInt y) \<Rightarrow> f x y | (VFloat x, VFloat y) \<Rightarrow> g x y
    | (VStr x, VStr y) \<Rightarrow> h x y | _ \<Rightarrow> Fail (VmErr TypeMismatch))"
  using assms by (cases a; cases b) auto

lemma yields_bytes:
  "vm_frames vm \<noteq> [] \<Longrightarrow> yields vm (case (a, b) of (VBytes x, VBytes y) \<Rightarrow> Next (push (f x y) vm)
    | _ \<Rightarrow> Fail (VmErr TypeMismatch))"
  by (cases a; cases b) auto

lemma acts_arith:
  assumes "vm_frames vm \<noteq> []"
  shows "acts 2 (Suc 0) (at_pc vm) vm (bin_int f vm)"
    and "acts 2 (Suc 0) (at_pc vm) vm (bin_int_divmod m vm)"
    and "acts 2 (Suc 0) (at_pc vm) vm (num_divmod F m vm)"
    and "acts 2 (Suc 0) (at_pc vm) vm (bin_float g vm)"
    and "acts 2 (Suc 0) (at_pc vm) vm (bin_num i h vm)"
    and "acts 2 (Suc 0) (at_pc vm) vm (bin_ord i h k vm)"
    and "acts 2 (Suc 0) (at_pc vm) vm (bin_eq F vm)"
    and "acts 2 (Suc 0) (at_pc vm) vm (bin_bool b vm)"
    and "acts 2 (Suc 0) (at_pc vm) vm (bin_str l vm)"
  unfolding bin_int_def bin_int_divmod_def num_divmod_def bin_float_def bin_num_def bin_ord_def
    bin_eq_def bin_bool_def bin_str_def
  by (intro acts_pop_2p acts_pop_2 assms yields_orPanic yields_num yields_ord; auto)+

lemma acts_exec_prim:
  assumes "vm_frames vm \<noteq> []"
  shows "acts (prim_pops p) (Suc 0) (at_pc vm) vm (exec_prim F p vm)"
  using acts_arith [OF assms] assms
  by (cases p; simp add: exec_prim_def prim_pops_def prim_delta_def;
      intro acts_pop_1 acts_pop_2 yields_orPanic yields_bytes;
      auto split: Value.split)

lemma acts_values:
  assumes "vm_frames vm \<noteq> []"
  shows "acts (Suc 0) (Suc 0) (at_pc vm) vm (get_elem i vm)"
    and "acts (Suc 0) (Suc 0) (at_pc vm) vm (get_variant vm)"
    and "acts (Suc 0) (Suc 0) (at_pc vm) vm (get_variant_arg i vm)"
    and "acts (Suc 0) (Suc 0) (at_pc vm) vm (get_list_len vm)"
    and "acts (Suc 0) (Suc 0) (at_pc vm) vm (pop vm (\<lambda>v vm. list_elem v i vm))"
    and "acts n (Suc 0) (at_pc vm) vm (make_variant P i n vm)"
    and "acts n (Suc 0) (at_pc vm) vm (make_closure P i n vm)"
    and "acts n (Suc 0) (at_pc vm) vm (make_tuple n vm)"
    and "acts n (Suc 0) (at_pc vm) vm (pop_n n vm (\<lambda>items vm. Next (push (VList items) vm)))"
    and "acts 2 (Suc 0) (at_pc vm) vm (list_append vm)"
  unfolding get_elem_def get_variant_def get_variant_arg_def get_list_len_def list_elem_def
    make_variant_def make_closure_def make_tuple_def list_append_def
  by (intro acts_pop_1 acts_pop_2 acts_pop_n assms; auto intro!: yields_orPanic split: Value.split Const.split option.split)+

lemma acts_test_variant:
  assumes "vm_frames vm \<noteq> []"
  shows "acts (Suc 0) (Suc 0) (at_pc vm) vm (test_variant P i vm)"
  unfolding test_variant_def
  by (rule acts_orPanic)
    (auto intro!: acts_pop_1 assms acts_fail split: Const.split Value.split)

lemma acts_list_elem_dyn:
  assumes "vm_frames vm \<noteq> []"
  shows "acts 2 (Suc 0) (at_pc vm) vm (get_list_elem_dyn vm)"
  unfolding get_list_elem_dyn_def
proof (rule acts_pop_2' [OF assms])
  fix v and vm' :: "'a Vm"
  have "yields vm'' (list_elem w i vm'')" if "vm_frames vm'' \<noteq> []" for w i and vm'' :: "'a Vm"
    using that by (auto simp: list_elem_def split: Value.split option.split)
  then show "(\<exists>e. (case v of VInt n \<Rightarrow> pop vm' (\<lambda>v. list_elem v (int_index n)) | _ \<Rightarrow> Fail (VmErr TypeMismatch)) =
        Fail e \<and> \<not> bad e) \<or>
      (\<exists>l. (case v of VInt n \<Rightarrow> pop vm' (\<lambda>v. list_elem v (int_index n)) | _ \<Rightarrow> Fail (VmErr TypeMismatch)) =
        pop vm' l \<and> (\<forall>w vm''. vm_frames vm'' \<noteq> [] \<longrightarrow> yields vm'' (l w vm'')))"
    by (cases v) auto
qed

section \<open>Records\<close>

lemma build_fields_not_bad: "build_fields P shape vs rec = Inl e \<Longrightarrow> \<not> bad e"
  by (induction P shape vs rec rule: build_fields.induct) (auto split: option.splits Const.splits)

lemma acts_make_record:
  "vm_frames vm \<noteq> [] \<Longrightarrow> acts n (Suc 0) (at_pc vm) vm (make_record P sid n vm)"
  unfolding make_record_def
  by (intro acts_orPanic acts_pop_n yields_orFail) (auto dest: build_fields_not_bad)

lemma keeps_alloc:
  assumes "vm_frames vm = f # fs"
  shows "keeps vm (vm\<lparr>vm_stack_record_heap_fallbacks := a\<rparr>)" "keeps vm (vm\<lparr>vm_arena_record_heap_fallbacks := a\<rparr>)"
    "keeps vm (vm\<lparr>vm_arena_record_allocs := a\<rparr>)" "keeps vm (vm\<lparr>vm_heap_record_allocs := a\<rparr>)"
    "keeps vm (vm\<lparr>vm_stack_record_allocs := a, vm_frames := f\<lparr>fr_budget := b\<rparr> # fs\<rparr>)"
    "keeps vm (vm\<lparr>vm_stack_arena := vm_stack_arena vm @ xs\<rparr>)" "keeps vm (vm\<lparr>vm_arena_slab := ys\<rparr>)"
    "keeps vm (vm\<lparr>vm_field_ics := ics\<rparr>)" "keeps vm (vm\<lparr>vm_host := h\<rparr>)" "keeps vm (vm\<lparr>vm_trace := t\<rparr>)"
    "keeps vm (vm\<lparr>vm_memo_hits := a\<rparr>)" "keeps vm (vm\<lparr>vm_memo_misses := a\<rparr>)" "keeps vm (vm\<lparr>vm_memo_skips := a\<rparr>)"
    "keeps vm (vm\<lparr>vm_memo_fn_state := ms\<rparr>)"
  using assms by (auto simp: keeps_def metered_def same_frame_def)

lemma yields_next:
  assumes "keeps vm vm1" "vm_stack vm1 = vm_stack vm" "fr_pc (hd (vm_frames vm1)) = fr_pc (hd (vm_frames vm))"
  shows "yields vm (Next (push v vm1))"
  using assms by (auto simp: yields_def push_def)

lemma acts_alloc:
  assumes "vm_frames vm \<noteq> []"
  shows "acts n (Suc 0) (at_pc vm) vm (alloc_stack_record P sid n vm)"
    and "acts n (Suc 0) (at_pc vm) vm (alloc_arena_record P sid n vm)"
    and "acts n (Suc 0) (at_pc vm) vm (alloc_stack_tuple n vm)"
    and "acts n (Suc 0) (at_pc vm) vm (alloc_arena_tuple n vm)"
proof -
  obtain f fs where vm: "vm_frames vm = f # fs"
    using assms by (cases "vm_frames vm") auto
  note keeps = keeps_alloc [OF vm]
  have slab: "acts n (Suc 0) (at_pc vm1) vm1 (pop_n n vm1 (\<lambda>vs vm. Next (push v (g vs vm))))"
    if "vm_frames vm1 = f' # fs"
      "\<And>vs vm'. vm_frames vm' = f' # fs \<Longrightarrow> keeps vm' (g vs vm') \<and> vm_stack (g vs vm') = vm_stack vm' \<and>
        fr_pc (hd (vm_frames (g vs vm'))) = fr_pc (hd (vm_frames vm'))"
    for vm1 :: "'a Vm" and f' v g
  proof (cases "length (vm_stack vm1) < n")
    case False
    let ?vm = "vm1\<lparr>vm_stack := drop n (vm_stack vm1)\<rparr>" and ?vs = "rev (take n (vm_stack vm1))"
    have "vm_frames ?vm = f' # fs"
      using that(1) by simp
    then have "yields ?vm (Next (push v (g ?vs ?vm)))"
      using that(2) [of ?vm ?vs] by (intro yields_next) blast+
    then show ?thesis
      using False acts_yields [of n vm1] by (simp add: pop_n_def)
  qed (simp add: pop_n_def acts_def)
  have stack: "acts n (Suc 0) (at_pc vm) vm
      (pop_n n (vm\<lparr>vm_stack_record_allocs := a, vm_frames := f\<lparr>fr_budget := b\<rparr> # fs\<rparr>)
        (\<lambda>vs vm. Next (push v (vm\<lparr>vm_stack_arena := vm_stack_arena vm @ vs\<rparr>))))" for a b v
    by (rule acts_trans [OF keeps(5) [where a=a and b=b]])
      (use vm slab [of "vm\<lparr>vm_stack_record_allocs := a, vm_frames := f\<lparr>fr_budget := b\<rparr> # fs\<rparr>" "f\<lparr>fr_budget := b\<rparr>"
        "\<lambda>vs vm. vm\<lparr>vm_stack_arena := vm_stack_arena vm @ vs\<rparr>" v] keeps_alloc(6) in auto)
  have arena: "acts n (Suc 0) (at_pc vm) vm
      (pop_n n (vm\<lparr>vm_arena_record_allocs := a\<rparr>)
        (\<lambda>vs vm. Next (push v (vm\<lparr>vm_arena_slab := vm_arena_slab vm @ vs\<rparr>))))" for a v
    by (rule acts_trans [OF keeps(3) [of a]])
      (use vm slab [of "vm\<lparr>vm_arena_record_allocs := a\<rparr>" f
        "\<lambda>vs vm. vm\<lparr>vm_arena_slab := vm_arena_slab vm @ vs\<rparr>" v] keeps_alloc(7) in auto)
  have heap: "acts n (Suc 0) (at_pc vm) vm (make_record P sid n (vm\<lparr>vm_stack_record_heap_fallbacks := a\<rparr>))"
    "acts n (Suc 0) (at_pc vm) vm (make_record P sid n (vm\<lparr>vm_arena_record_heap_fallbacks := a\<rparr>))"
    "acts n (Suc 0) (at_pc vm) vm (make_tuple n (vm\<lparr>vm_stack_record_heap_fallbacks := a\<rparr>))"
    "acts n (Suc 0) (at_pc vm) vm (make_tuple n (vm\<lparr>vm_arena_record_heap_fallbacks := a\<rparr>))" for a
    by (rule acts_trans [OF keeps(1) [of a]] acts_trans [OF keeps(2) [of a]];
        use vm acts_make_record [of "vm\<lparr>vm_stack_record_heap_fallbacks := a\<rparr>" n P sid]
          acts_make_record [of "vm\<lparr>vm_arena_record_heap_fallbacks := a\<rparr>" n P sid]
          acts_values(8) [of "vm\<lparr>vm_stack_record_heap_fallbacks := a\<rparr>" n]
          acts_values(8) [of "vm\<lparr>vm_arena_record_heap_fallbacks := a\<rparr>" n] in simp)+
  show "acts n (Suc 0) (at_pc vm) vm (alloc_stack_record P sid n vm)"
    "acts n (Suc 0) (at_pc vm) vm (alloc_arena_record P sid n vm)"
    "acts n (Suc 0) (at_pc vm) vm (alloc_stack_tuple n vm)"
    "acts n (Suc 0) (at_pc vm) vm (alloc_arena_tuple n vm)"
    using stack arena heap vm
    by (simp_all add: alloc_stack_record_def alloc_arena_record_def alloc_stack_tuple_def
        alloc_arena_tuple_def Let_def top_frame_def)
qed

section \<open>Fields, locals and jumps\<close>

lemma find_offset_not_bad: "find_offset P name shape i = Inl e \<Longrightarrow> \<not> bad e"
  by (induction P name shape i rule: find_offset.induct) (auto split: option.splits Const.splits if_splits)

lemma read_field_not_bad: "read_field P vm c v i = Inl e \<Longrightarrow> \<not> bad e"
  by (auto simp: read_field_def read_heap_field_def read_slab_field_def resolve_stack_field_def Let_def
      split: Value.splits option.splits Const.splits if_splits prod.splits sum.splits
      dest: find_offset_not_bad)

text \<open>A read through a cache fails or goes on with a value, having changed nothing but caches.\<close>

definition reads :: "'h Vm \<Rightarrow> (Value \<Rightarrow> 'h Vm \<Rightarrow> 'h step_result) \<Rightarrow> 'h step_result \<Rightarrow> bool" where
  "reads vm k r \<longleftrightarrow> (\<exists>e. r = Fail e \<and> \<not> bad e) \<or> (\<exists>v ics. r = k v (vm\<lparr>vm_field_ics := ics\<rparr>))"

lemma reads_cached: "reads vm k (cached_read P fid sid v i vm k)"
proof (cases "ic_slot P fid sid vm")
  case (Some r)
  then obtain c ics where r: "r = (c, vm\<lparr>vm_field_ics := ics\<rparr>)"
    by (auto simp: ic_slot_def Let_def nth_opt_def simp del: list_update_id split: if_splits)
  show ?thesis
  proof (cases "read_field P (vm\<lparr>vm_field_ics := ics\<rparr>) c v i")
    case (Inr w)
    then show ?thesis
      using Some r by (auto simp: cached_read_def reads_def orPanic_def orFail_def ic_install_def
          split: option.split prod.split)
  qed (auto simp: Some r cached_read_def reads_def orPanic_def orFail_def dest: read_field_not_bad)
qed (auto simp: cached_read_def reads_def orPanic_def)

lemma reads_local: "reads vm k (read_local_record_field P l fid i sid vm k)"
  using reads_cached [of vm k P fid sid _ i]
  by (auto simp: read_local_record_field_def orPanic_def reads_def split: option.split)

lemma acts_reads:
  assumes "reads vm k r" "\<And>v ics. acts n m S vm (k v (vm\<lparr>vm_field_ics := ics\<rparr>))"
  shows "acts n m S vm r"
  using assms by (auto simp: reads_def intro: acts_fail)

lemma acts_get_field:
  assumes "vm_frames vm \<noteq> []"
  shows "acts (Suc 0) (Suc 0) (at_pc vm) vm (get_field P fid i sid vm)"
  unfolding get_field_def
proof (rule acts_pop_1 [OF assms])
  fix v and vm' :: "'a Vm" assume "vm_frames vm' \<noteq> []"
  then obtain f fs where "vm_frames vm' = f # fs"
    by (cases "vm_frames vm'") auto
  note keeps = keeps_alloc(8) [OF this]
  have "yields vm' (cached_read P fid sid v i vm' (\<lambda>value vm. Next (push value vm)))"
    using reads_cached [of vm' "\<lambda>value vm. Next (push value vm)" P fid sid v i] keeps
    by (auto simp: reads_def intro!: yields_next)
  then show "yields vm' (if is_record v then cached_read P fid sid v i vm' (\<lambda>value vm. Next (push value vm))
      else Fail (VmErr TypeMismatch))"
    by auto
qed

text \<open>A frame that owns the local it writes.\<close>

lemma keeps_local:
  assumes "vm_frames vm \<noteq> []" "set_local i v vm = Some vm'"
  shows "keeps vm vm'" "vm_stack vm' = vm_stack vm" "vm_frames vm' = vm_frames vm"
proof -
  obtain f fs where "vm_frames vm = f # fs"
    using assms by (cases "vm_frames vm") auto
  then show "keeps vm vm'" "vm_stack vm' = vm_stack vm" "vm_frames vm' = vm_frames vm"
    using assms by (auto simp: set_local_def Let_def top_frame_def keeps_def metered_def split: if_splits)
qed

lemma keeps_set_pc: "keeps vm vm' \<Longrightarrow> keeps vm (set_pc pc vm')"
  by (auto simp: keeps_def metered_def set_pc_def same_frame_def)

lemma set_pc_simps [simp]:
  "vm_stack (set_pc pc vm) = vm_stack vm" "vm_locals (set_pc pc vm) = vm_locals vm"
  "vm_frames vm \<noteq> [] \<Longrightarrow> fr_pc (hd (vm_frames (set_pc pc vm))) = pc"
  "vm_frames vm \<noteq> [] \<Longrightarrow> vm_frames (set_pc pc vm) \<noteq> []"
  by (cases "vm_frames vm"; simp add: set_pc_def)+

lemma acts_next:
  assumes "keeps vm vm'" "n \<le> length (vm_stack vm)" "vm_stack vm' = ws @ drop n (vm_stack vm)"
    "length ws = m" "fr_pc (hd (vm_frames vm')) \<in> S"
  shows "acts n m S vm (Next vm')"
  using assms by (auto simp: acts_def)

lemma acts_push_pc:
  assumes "vm_frames vm \<noteq> []" "pc \<in> S"
  shows "acts 0 (Suc 0) S vm (Next (set_pc pc (push v vm)))"
  using assms keeps_refl [OF assms(1)]
  by (intro acts_next [where ws = "[v]"] keeps_set_pc) (simp_all add: push_def)

lemma acts_pc:
  assumes "keeps vm vm'" "vm_stack vm' = vm_stack vm" "pc \<in> S"
  shows "acts 0 0 S vm (Next (set_pc pc vm'))"
  using assms keeps_frames [OF assms(1)] by (intro acts_next [where ws = "[]"] keeps_set_pc) simp_all

lemma acts_orFail:
  "(\<And>e. m = Inl e \<Longrightarrow> \<not> bad e) \<Longrightarrow> (\<And>x. m = Inr x \<Longrightarrow> acts n l S vm (k x)) \<Longrightarrow> acts n l S vm (orFail m k)"
  by (cases m) (auto simp: orFail_def intro: acts_fail)

lemma int_const_not_bad: "int_const P i = Inl e \<Longrightarrow> \<not> bad e"
  by (auto simp: int_const_def split: option.splits Const.splits)

lemma acts_jump_on:
  assumes "vm_frames vm \<noteq> []"
  shows "acts (Suc 0) 0 {fr_pc (hd (vm_frames vm)), jump_target (pc + 1) off} vm (jump_on want pc off vm)"
proof (cases "vm_stack vm")
  case (Cons v s)
  have "acts (Suc 0) 0 {fr_pc (hd (vm_frames vm)), jump_target (pc + 1) off} vm
      (Next (if b = want then set_pc (jump_target (pc + 1) off) (vm\<lparr>vm_stack := s\<rparr>) else vm\<lparr>vm_stack := s\<rparr>))" for b
    using assms Cons keeps_refl [OF assms] by (intro acts_next [where ws = "[]"]) (auto intro: keeps_set_pc)
  then show ?thesis
    using Cons by (auto simp: jump_on_def pop_def intro!: acts_orPanic)
qed (simp add: jump_on_def pop_def acts_def)

section \<open>Superinstructions and effects\<close>

lemma acts_fused_field:
  assumes "vm_frames vm \<noteq> []"
  shows "acts (Suc 0) (Suc 0) {pc + 3} vm (fused_field P pc fid l i sid f vm)"
proof (cases "vm_stack vm")
  case (Cons v s)
  let ?vm = "vm\<lparr>vm_stack := s\<rparr>"
  obtain g gs where "vm_frames vm = g # gs"
    using assms by (cases "vm_frames vm") auto
  note keeps = keeps_alloc(8) [OF this]
  let ?k = "\<lambda>a b vm. orPanic (as_int b) (\<lambda>b. Next (set_pc (pc + 3) (push (VInt (f a b)) vm)))"
  have "acts (Suc 0) (Suc 0) {pc + 3} vm (?k a b (?vm\<lparr>vm_field_ics := ics\<rparr>))" for a b ics
    using assms Cons keeps [of ics]
    by (intro acts_orPanic acts_next [where ws = "[_]"] keeps_set_pc) (simp_all add: push_def)
  then have "acts (Suc 0) (Suc 0) {pc + 3} vm (read_local_record_field P l fid i sid ?vm (?k a))" for a
    using reads_local [of ?vm "?k a" P l fid i sid] by (auto simp: reads_def intro: acts_fail)
  then show ?thesis
    using Cons by (auto simp: fused_field_def pop_def intro!: acts_orPanic)
qed (simp add: fused_field_def pop_def acts_def)

definition fused_pops :: "FusedOp \<Rightarrow> nat" where
  "fused_pops f =
     (case f of LoadLocalGetFieldAdd _ _ _ \<Rightarrow> 1 | LoadLocalGetFieldSub _ _ _ \<Rightarrow> 1
      | LoadLocalGetFieldMul _ _ _ \<Rightarrow> 1 | _ \<Rightarrow> 0)"

definition fused_pushes :: "FusedOp \<Rightarrow> nat" where
  "fused_pushes f =
     (case f of LoadLocalEqIntConstJumpIfNot _ _ _ \<Rightarrow> 0 | LoadLocalStoreEqIntConstJumpIfNot _ _ _ _ \<Rightarrow> 0
      | LoadLocalAddIntConstStoreLocal _ _ _ \<Rightarrow> 0 | _ \<Rightarrow> 1)"

definition fused_next :: "FusedOp \<Rightarrow> nat \<Rightarrow> nat list" where
  "fused_next f pc =
     (case f of
        LoadLocalGetField _ _ _ \<Rightarrow> [pc + 2]
      | LoadLocalEqIntConstJumpIfNot _ _ off \<Rightarrow> [pc + 4, jump_target (pc + 4) off]
      | LoadLocalStoreEqIntConstJumpIfNot _ _ _ off \<Rightarrow> [pc + 6, jump_target (pc + 6) off]
      | LoadLocalAddIntConstStoreLocal _ _ _ \<Rightarrow> [pc + 4]
      | _ \<Rightarrow> [pc + 3])"

lemma acts_read_field_pc:
  assumes "vm_frames vm \<noteq> []" "pc \<in> S"
  shows "acts 0 (Suc 0) S vm (read_local_record_field P l fid i sid vm (\<lambda>v vm. Next (set_pc pc (push v vm))))"
proof (rule acts_reads [OF reads_local])
  fix v ics
  obtain g gs where "vm_frames vm = g # gs"
    using assms by (cases "vm_frames vm") auto
  then show "acts 0 (Suc 0) S vm (Next (set_pc pc (push v (vm\<lparr>vm_field_ics := ics\<rparr>))))"
    using keeps_alloc(8) [of vm g gs ics] assms
    by (intro acts_next [where ws = "[_]"] keeps_set_pc) (simp_all add: push_def)
qed

lemma acts_fused:
  assumes "vm_frames vm \<noteq> []"
  shows "acts (fused_pops f) (fused_pushes f) (set (fused_next f pc)) vm (exec_fused P fid pc f vm)"
  using assms acts_fused_field [OF assms, of pc P fid] keeps_refl [OF assms] keeps_local [OF assms]
  by (cases f; simp add: exec_fused_def fused_pops_def fused_pushes_def fused_next_def;
      intro acts_orPanic acts_orFail acts_push_pc acts_read_field_pc acts_pc; auto dest: int_const_not_bad)

lemma acts_effect:
  assumes "vm_frames vm \<noteq> []"
  shows "acts n (Suc 0) (at_pc vm) vm (exec_effect_call E P i j n l vm)"
  unfolding exec_effect_call_def
proof (rule acts_pop_n [OF assms], rule yields_orPanic)
  fix vs args and vm' :: "'a Vm" assume "vm_frames vm' \<noteq> []"
  then obtain f fs where vm: "vm_frames vm' = f # fs"
    by (cases "vm_frames vm'") auto
  have "keeps vm' (vm'\<lparr>vm_trace := t, vm_host := h\<rparr>)" for t h
    using vm by (auto simp: keeps_def metered_def)
  then show "yields vm' (str_const P i (\<lambda>kind. str_const P j (\<lambda>op_name.
           let node_id = const_str P l;
               vm = emit (EnterEffect node_id kind op_name args) vm';
               (ov, h) = e_override_effect E (vm_host vm) node_id;
               (result, h) = (case ov of Some v \<Rightarrow> (Inr v, h) | None \<Rightarrow> e_dispatch E h kind op_name args)
           in (case result of
                 Inl e \<Rightarrow> Fail (VmErr (EffectError e))
               | Inr v \<Rightarrow>
                   let vm = emit (ExitOk v) vm; (code, h) = e_take_exit E h
                   in (case code of
                         Some c \<Rightarrow> Fail (VmErr (ProcessExit c))
                       | None \<Rightarrow> Next (push v (vm\<lparr>vm_host := h\<rparr>)))))))"
    by (auto simp: str_const_def Let_def emit_def intro!: yields_orPanic yields_next
        split: Const.split prod.split sum.split option.split)
qed


section \<open>Every instruction\<close>

text \<open>
  How many operands an instruction takes, how many it leaves when the run goes on behind it, and
  where it can go on. For a call, what is left is the result of the callee.
\<close>

definition op_pops :: "Op \<Rightarrow> nat" where
  "op_pops op' =
     (case op' of
        Pop \<Rightarrow> 1 | Dup \<Rightarrow> 1 | StoreLocal _ \<Rightarrow> 1
      | MakeRecord _ n \<Rightarrow> n | AllocStackRecord _ n \<Rightarrow> n | AllocArenaRecord _ n \<Rightarrow> n
      | MakeTuple n \<Rightarrow> n | AllocStackTuple n \<Rightarrow> n | AllocArenaTuple n \<Rightarrow> n | MakeList n \<Rightarrow> n
      | MakeVariant _ n \<Rightarrow> n
      | GetField _ _ \<Rightarrow> 1 | GetElem _ \<Rightarrow> 1 | TestVariant _ \<Rightarrow> 1 | GetVariant _ \<Rightarrow> 1 | GetVariantArg _ \<Rightarrow> 1
      | GetListLen \<Rightarrow> 1 | GetListElem _ \<Rightarrow> 1 | ListAppend \<Rightarrow> 2 | GetListElemDyn \<Rightarrow> 2
      | JumpIf _ \<Rightarrow> 1 | JumpIfNot _ \<Rightarrow> 1
      | Call _ arity _ \<Rightarrow> arity | TailCall _ arity _ \<Rightarrow> arity | CallClosure arity _ \<Rightarrow> Suc arity
      | MakeClosure _ n \<Rightarrow> n | EffectCall _ _ arity _ \<Rightarrow> arity
      | SortByKey _ \<Rightarrow> 2 | ParallelMap _ \<Rightarrow> 2 | ListMap _ \<Rightarrow> 2 | ListFilter _ \<Rightarrow> 2 | ListFold _ \<Rightarrow> 3
      | Return \<Rightarrow> 1 | Prim p \<Rightarrow> prim_pops p | Fused f \<Rightarrow> fused_pops f | _ \<Rightarrow> 0)"

definition op_pushes :: "Op \<Rightarrow> nat" where
  "op_pushes op' =
     (case op' of
        Pop \<Rightarrow> 0 | Dup \<Rightarrow> 2 | StoreLocal _ \<Rightarrow> 0 | Jump _ \<Rightarrow> 0 | JumpIf _ \<Rightarrow> 0 | JumpIfNot _ \<Rightarrow> 0
      | Fused f \<Rightarrow> fused_pushes f | _ \<Rightarrow> 1)"

definition op_next :: "Op \<Rightarrow> nat \<Rightarrow> nat list" where
  "op_next op' pc =
     (case op' of
        Jump off \<Rightarrow> [jump_target (pc + 1) off]
      | JumpIf off \<Rightarrow> [pc + 1, jump_target (pc + 1) off]
      | JumpIfNot off \<Rightarrow> [pc + 1, jump_target (pc + 1) off]
      | TailCall _ _ _ \<Rightarrow> [] | Return \<Rightarrow> [] | Panic _ \<Rightarrow> []
      | Fused f \<Rightarrow> fused_next f pc | _ \<Rightarrow> [pc + 1])"

text \<open>The instructions that enter or leave a function, or call closures back.\<close>

definition transfers :: "Op \<Rightarrow> bool" where
  "transfers op' \<longleftrightarrow>
     (case op' of Call _ _ _ \<Rightarrow> True | TailCall _ _ _ \<Rightarrow> True | CallClosure _ _ \<Rightarrow> True | Return \<Rightarrow> True
      | SortByKey _ \<Rightarrow> True | ParallelMap _ \<Rightarrow> True | ListMap _ \<Rightarrow> True | ListFilter _ \<Rightarrow> True
      | ListFold _ \<Rightarrow> True | _ \<Rightarrow> False)"

lemma acts_push:
  "vm_frames vm \<noteq> [] \<Longrightarrow> acts 0 (Suc 0) (at_pc vm) vm (Next (push v vm))"
  using keeps_refl [of vm] by (intro acts_next [where ws = "[v]"]) (auto simp: push_def)

lemma acts_pop_drop:
  assumes "vm_frames vm \<noteq> []"
  shows "acts (Suc 0) 0 (at_pc vm) vm (pop vm (\<lambda>_ vm. Next vm))"
    and "acts (Suc 0) 2 (at_pc vm) vm (pop vm (\<lambda>v vm. Next (push v (push v vm))))"
    and "acts (Suc 0) 0 (at_pc vm) vm (pop vm (\<lambda>v vm. orPanic (set_local i v vm) Next))"
proof -
  show "acts (Suc 0) 0 (at_pc vm) vm (pop vm (\<lambda>_ vm. Next vm))"
    using assms keeps_refl [OF assms]
    by (cases "vm_stack vm") (auto simp: pop_def acts_def)
  show "acts (Suc 0) 2 (at_pc vm) vm (pop vm (\<lambda>v vm. Next (push v (push v vm))))"
    using assms keeps_refl [OF assms]
    by (cases "vm_stack vm") (auto simp: pop_def push_def acts_def intro!: exI [of _ "[_, _]"])
  show "acts (Suc 0) 0 (at_pc vm) vm (pop vm (\<lambda>v vm. orPanic (set_local i v vm) Next))"
  proof (cases "vm_stack vm")
    case (Cons v s)
    have "acts (Suc 0) 0 (at_pc vm) vm (Next vm')" if "set_local i v (vm\<lparr>vm_stack := s\<rparr>) = Some vm'" for vm'
      using keeps_local [OF _ that] assms Cons by (intro acts_next [where ws = "[]"]) simp_all
    then show ?thesis
      using Cons by (auto simp: pop_def intro: acts_orPanic)
  qed (simp add: pop_def acts_def)
qed

lemma acts_locals:
  assumes "vm_frames vm \<noteq> []"
  shows "acts 0 (Suc 0) (at_pc vm) vm
    (orPanic (local_at vm i) (\<lambda>v. orPanic (set_local i VUnit vm) (\<lambda>vm. Next (push v vm))))"
  using keeps_local [OF assms]
  by (intro acts_orPanic acts_next [where ws = "[_]"]) (auto simp: push_def)

lemma acts_heap_record:
  assumes "vm_frames vm \<noteq> []"
  shows "acts n (Suc 0) (at_pc vm) vm (make_record P sid n (vm\<lparr>vm_heap_record_allocs := a\<rparr>))"
proof -
  obtain f fs where vm: "vm_frames vm = f # fs"
    using assms by (cases "vm_frames vm") auto
  show ?thesis
    by (rule acts_trans [OF keeps_alloc(4) [OF vm, of a]])
      (use vm acts_make_record [of "vm\<lparr>vm_heap_record_allocs := a\<rparr>" n P sid] in simp_all)
qed

lemma acts_plain:
  assumes "\<not> transfers op'" and vm: "vm_frames vm \<noteq> []" and "fr_pc (hd (vm_frames vm)) = pc + 1"
  shows "acts (op_pops op') (op_pushes op') (set (op_next op' pc)) vm (exec_op E P run base fid pc op' vm)"
  using assms acts_push [OF vm] acts_pop_drop [OF vm] acts_locals [OF vm] acts_heap_record [OF vm]
    acts_alloc [OF vm] acts_values [OF vm] acts_test_variant [OF vm] acts_list_elem_dyn [OF vm]
    acts_get_field [OF vm] acts_jump_on [OF vm, of pc] acts_effect [OF vm] acts_exec_prim [OF vm] acts_fused [OF vm]
    acts_pc [OF keeps_refl [OF vm]]
  by (cases op') (simp_all add: transfers_def exec_op_def op_pops_def op_pushes_def op_next_def
      acts_orPanic acts_fail)

end
