(* ===== verification/Bc_VmRun.thy ===== *)
theory Bc_VmRun
  imports Bc_VmStack
begin

text \<open>
  The stack discipline of the machine: depth tables, the frames of a run, and the contract of the
  interpreter loop that every instruction keeps. A program whose functions all have depth tables
  never takes an operand that is not there, and a call leaves the machine as it found it.
\<close>

section \<open>Depth tables\<close>

text \<open>
  A depth table gives some instructions a depth. It certifies code when the entry has depth zero and
  every instruction with a depth has its operands and only goes on to instructions of the code whose
  depth is what it leaves.
\<close>

definition well_stacked :: "Op list \<Rightarrow> nat option list \<Rightarrow> bool" where
  "well_stacked code ds \<longleftrightarrow>
     code \<noteq> [] \<and> length ds = length code \<and> ds ! 0 = Some 0 \<and>
     (\<forall>pc < length code. case ds ! pc of None \<Rightarrow> True | Some d \<Rightarrow>
        op_pops (code ! pc) \<le> d \<and>
        list_all (\<lambda>pc'. pc' < length code \<and> ds ! pc' = Some (d - op_pops (code ! pc) + op_pushes (code ! pc)))
          (op_next (code ! pc) pc))"

lemma well_stacked_pops:
  "well_stacked code ds \<Longrightarrow> pc < length code \<Longrightarrow> ds ! pc = Some d \<Longrightarrow> op_pops (code ! pc) \<le> d"
  by (force simp: well_stacked_def)

definition balanced_program :: "Program \<Rightarrow> bool" where
  "balanced_program P \<longleftrightarrow> (\<forall>f \<in> set (pg_functions P). \<exists>ds. well_stacked (fn_code f) ds)"

lemma balanced_table:
  assumes "balanced_program P" "nth_opt (pg_functions P) fid = Some g"
  shows "\<exists>ds. well_stacked (fn_code g) ds"
proof -
  have "g \<in> set (pg_functions P)"
    using assms(2) by (auto simp: nth_opt_def split: if_splits)
  then show ?thesis
    using assms(1) by (auto simp: balanced_program_def)
qed

text \<open>A frame stands at an instruction whose depth is no more than what lies above the frame's base.\<close>

definition frame_ok :: "Program \<Rightarrow> nat \<Rightarrow> Frame \<Rightarrow> bool" where
  "frame_ok P avail f \<longleftrightarrow>
     (\<exists>g ds d. nth_opt (pg_functions P) (fr_fn_id f) = Some g \<and> well_stacked (fn_code g) ds \<and>
        fr_pc f < length (fn_code g) \<and> ds ! fr_pc f = Some d \<and> d \<le> avail)"

text \<open>
  The frames of one run, over the sizes of the operand stack, the locals and the slab: each lies
  above the next, and a frame that waits for a call counts the result to come.
\<close>

fun seg_ok :: "Program \<Rightarrow> nat \<Rightarrow> nat \<Rightarrow> nat \<Rightarrow> nat \<Rightarrow> Frame list \<Rightarrow> bool" where
  "seg_ok P e sl ll al [] \<longleftrightarrow> True"
| "seg_ok P e sl ll al (f # fs) \<longleftrightarrow>
     fr_stack_base f \<le> sl \<and> fr_locals_start f \<le> ll \<and> fr_arena_start f \<le> al \<and>
     frame_ok P (sl - fr_stack_base f + e) f \<and>
     seg_ok P 1 (fr_stack_base f) (fr_locals_start f) (fr_arena_start f) fs"

abbreviation vm_seg_ok :: "Program \<Rightarrow> 'h Vm \<Rightarrow> Frame list \<Rightarrow> bool" where
  "vm_seg_ok P vm fs \<equiv>
     seg_ok P 0 (length (vm_stack vm)) (length (vm_locals vm)) (length (vm_stack_arena vm)) fs"

lemma seg_ok_last:
  "seg_ok P e sl ll al fs \<Longrightarrow> fs \<noteq> [] \<Longrightarrow>
   fr_stack_base (last fs) \<le> fr_stack_base (hd fs) \<and> fr_locals_start (last fs) \<le> fr_locals_start (hd fs) \<and>
   fr_arena_start (last fs) \<le> fr_arena_start (hd fs)"
proof (induction fs arbitrary: e sl ll al)
  case (Cons f fs)
  then show ?case
    using Cons.IH [of 1 "fr_stack_base f" "fr_locals_start f" "fr_arena_start f"]
    by (cases fs) (auto intro: order_trans)
qed simp

text \<open>What lies below a frame, and what a run keeps of the machine.\<close>

definition below :: "'h Vm \<Rightarrow> Frame \<Rightarrow> Value list \<times> Value list \<times> Value list" where
  "below vm f =
     (truncate_stack (fr_stack_base f) (vm_stack vm), take (fr_locals_start f) (vm_locals vm),
      take (fr_arena_start f) (vm_stack_arena vm))"

definition restored :: "'h Vm \<Rightarrow> Frame list \<Rightarrow> Frame list \<Rightarrow> 'h Vm \<Rightarrow> bool" where
  "restored vm fs rest vm' \<longleftrightarrow>
     vm_frames vm' = rest \<and>
     (vm_stack vm', vm_locals vm', vm_stack_arena vm') = below vm (last fs) \<and>
     metered vm vm'"

definition unchanged :: "'h Vm \<Rightarrow> 'h Vm \<Rightarrow> bool" where
  "unchanged vm vm' \<longleftrightarrow>
     vm_frames vm' = vm_frames vm \<and> vm_stack vm' = vm_stack vm \<and> vm_locals vm' = vm_locals vm \<and>
     vm_stack_arena vm' = vm_stack_arena vm \<and> metered vm vm'"

text \<open>A finished or failed run that respects the stack discipline.\<close>

definition disciplined :: "('h Vm \<Rightarrow> bool) \<Rightarrow> (failure + 'h Vm \<times> 'a) option \<Rightarrow> bool" where
  "disciplined Q r \<longleftrightarrow>
     (case r of None \<Rightarrow> True | Some (Inl e) \<Rightarrow> \<not> bad e | Some (Inr (vm', _)) \<Rightarrow> Q vm')"

lemma disciplined_simps [simp]:
  "disciplined Q None" "disciplined Q (Some (Inl e)) \<longleftrightarrow> \<not> bad e" "disciplined Q (Some (Inr (vm', x))) \<longleftrightarrow> Q vm'"
  by (simp_all add: disciplined_def)

lemma disciplined_mono: "disciplined Q r \<Longrightarrow> (\<And>vm'. Q vm' \<Longrightarrow> R vm') \<Longrightarrow> disciplined R r"
  by (auto simp: disciplined_def split: option.splits sum.splits)

lemma truncate_append:
  assumes "n \<le> length s" "b \<le> length s - n"
  shows "truncate_stack b (ws @ drop n s) = truncate_stack b s"
proof -
  have "length ws + (length s - n) - b = length ws + (length s - n - b)"
    using assms by simp
  then show ?thesis
    using assms by (simp add: truncate_stack_def)
qed

lemma take_prefix: "take a xs = take a ys \<Longrightarrow> b \<le> a \<Longrightarrow> take b xs = take b ys"
  by (metis min.absorb1 take_take)

section \<open>Stepping inside the top frame\<close>

lemma frame_ok_next:
  assumes "well_stacked (fn_code g) ds" "nth_opt (pg_functions P) (fr_fn_id f) = Some g"
    and "pc < length (fn_code g)" "ds ! pc = Some d" "fr_pc f \<in> set (op_next (fn_code g ! pc) pc)"
    and "d - op_pops (fn_code g ! pc) + op_pushes (fn_code g ! pc) \<le> avail"
  shows "frame_ok P avail f"
proof -
  let ?d = "d - op_pops (fn_code g ! pc) + op_pushes (fn_code g ! pc)"
  have "fr_pc f < length (fn_code g) \<and> ds ! fr_pc f = Some ?d"
    using assms(1,3-5) by (force simp: well_stacked_def list_all_iff)
  then show ?thesis
    using assms unfolding frame_ok_def by blast
qed

lemma below_keeps:
  assumes "keeps vm vm'" "vm_frames vm = f # fs" "n \<le> length (vm_stack vm)"
    and "vm_stack vm' = ws @ drop n (vm_stack vm)"
    and "fr_stack_base b \<le> length (vm_stack vm) - n" "fr_locals_start b \<le> fr_locals_start f"
    and "fr_arena_start b \<le> length (vm_stack_arena vm)"
  shows "below vm' b = below vm b"
  using assms truncate_append [OF assms(3,5), of ws]
  by (auto simp: below_def keeps_def metered_def elim: take_prefix)

text \<open>
  The progress of a run by one instruction: the frames it owns stay in order, and nothing below the
  bottom one changes.
\<close>

definition advances :: "Program \<Rightarrow> 'h Vm \<Rightarrow> Frame list \<Rightarrow> Frame list \<Rightarrow> 'h step_result \<Rightarrow> bool" where
  "advances P vm fs rest r \<longleftrightarrow>
     (case r of
        Next vm' \<Rightarrow> \<exists>fs'. vm_frames vm' = fs' @ rest \<and> fs' \<noteq> [] \<and> vm_seg_ok P vm' fs' \<and>
          below vm' (last fs') = below vm (last fs) \<and> metered vm vm'
      | Done vm' v \<Rightarrow> restored vm fs rest vm'
      | Fail e \<Rightarrow> \<not> bad e
      | NoFuel \<Rightarrow> True)"

lemma below_same_frame: "same_frame f g \<Longrightarrow> below vm g = below vm f"
  using same_frame_fields [of f g] by (simp add: below_def)

text \<open>
  The machine at an instruction: the loop has fetched the instruction at \<open>pc\<close> of the top frame and
  advanced the program counter.
\<close>

definition at_op ::
  "Program \<Rightarrow> 'h Vm \<Rightarrow> Frame \<Rightarrow> Frame list \<Rightarrow> Frame list \<Rightarrow> Function \<Rightarrow> nat option list \<Rightarrow> nat \<Rightarrow> nat \<Rightarrow> bool" where
  "at_op P vm f fs rest g ds pc d \<longleftrightarrow>
     vm_frames vm = f # fs @ rest \<and> fr_pc f = pc + 1 \<and>
     nth_opt (pg_functions P) (fr_fn_id f) = Some g \<and> well_stacked (fn_code g) ds \<and>
     pc < length (fn_code g) \<and> ds ! pc = Some d \<and> fr_stack_base f + d \<le> length (vm_stack vm) \<and>
     fr_locals_start f \<le> length (vm_locals vm) \<and> fr_arena_start f \<le> length (vm_stack_arena vm) \<and>
     seg_ok P 1 (fr_stack_base f) (fr_locals_start f) (fr_arena_start f) fs"

lemma at_op_pops: "at_op P vm f fs rest g ds pc d \<Longrightarrow> op_pops (fn_code g ! pc) \<le> d"
  unfolding at_op_def by (blast intro: well_stacked_pops)

lemma at_op_bottom:
  assumes "at_op P vm f fs rest g ds pc d"
  shows "fr_stack_base (last (f # fs)) \<le> fr_stack_base f" "fr_locals_start (last (f # fs)) \<le> fr_locals_start f"
    "fr_arena_start (last (f # fs)) \<le> fr_arena_start f"
proof -
  have "fs \<noteq> [] \<Longrightarrow> fr_stack_base (hd fs) \<le> fr_stack_base f \<and> fr_locals_start (hd fs) \<le> fr_locals_start f \<and>
      fr_arena_start (hd fs) \<le> fr_arena_start f"
    using assms by (cases fs) (auto simp: at_op_def)
  moreover have "seg_ok P 1 (fr_stack_base f) (fr_locals_start f) (fr_arena_start f) fs"
    using assms by (simp add: at_op_def)
  ultimately show "fr_stack_base (last (f # fs)) \<le> fr_stack_base f"
    "fr_locals_start (last (f # fs)) \<le> fr_locals_start f" "fr_arena_start (last (f # fs)) \<le> fr_arena_start f"
    using seg_ok_last [of P 1 "fr_stack_base f" "fr_locals_start f" "fr_arena_start f" fs]
    by (cases "fs = []"; force)+
qed

lemma advances_acts:
  assumes at: "at_op P vm f fs rest g ds pc d"
    and acts: "acts (op_pops (fn_code g ! pc)) (op_pushes (fn_code g ! pc)) (set (op_next (fn_code g ! pc) pc)) vm r"
  shows "advances P vm (f # fs) rest r"
proof (cases r)
  case (Next vm')
  let ?n = "op_pops (fn_code g ! pc)" and ?m = "op_pushes (fn_code g ! pc)"
  have code: "nth_opt (pg_functions P) (fr_fn_id f) = Some g" "well_stacked (fn_code g) ds"
      "pc < length (fn_code g)" "ds ! pc = Some d" "fr_stack_base f + d \<le> length (vm_stack vm)"
    using at by (simp_all add: at_op_def)
  obtain ws where ws: "?n \<le> length (vm_stack vm)" "keeps vm vm'" "vm_stack vm' = ws @ drop ?n (vm_stack vm)"
      "length ws = ?m" "fr_pc (hd (vm_frames vm')) \<in> set (op_next (fn_code g ! pc) pc)"
    using acts Next by (auto simp: acts_def)
  obtain h where h: "vm_frames vm' = h # fs @ rest" "same_frame f h"
    using ws(2) at by (auto simp: keeps_def metered_def at_op_def)
  note same = same_frame_fields [OF h(2)]
  note pops = at_op_pops [OF at]
  have kept: "length (vm_stack_arena vm) \<le> length (vm_stack_arena vm')" "length (vm_locals vm') = length (vm_locals vm)"
    using ws(2) by (auto simp: keeps_def metered_def)
  have "frame_ok P (length (vm_stack vm') - fr_stack_base f + 0) h"
  proof (rule frame_ok_next [OF code(2) _ code(3,4)])
    show "nth_opt (pg_functions P) (fr_fn_id h) = Some g" "fr_pc h \<in> set (op_next (fn_code g ! pc) pc)"
      using code(1) same ws(5) h(1) by auto
    show "d - ?n + ?m \<le> length (vm_stack vm') - fr_stack_base f + 0"
      using ws(1,3,4) pops code(5) by simp
  qed
  moreover have "fr_stack_base f \<le> length (vm_stack vm')"
    using ws(3) code(5) pops by simp
  ultimately have "vm_seg_ok P vm' (h # fs)"
    using at same kept by (simp add: at_op_def)
  moreover have "below vm' (last (h # fs)) = below vm (last (f # fs))"
  proof -
    have "vm_frames vm = f # fs @ rest" "fr_arena_start f \<le> length (vm_stack_arena vm)"
      using at by (simp_all add: at_op_def)
    then have "below vm' (last (f # fs)) = below vm (last (f # fs))"
      using at_op_bottom [OF at] pops code(5) by (intro below_keeps [OF ws(2) _ ws(1,3)]) auto
    then show ?thesis
      using below_same_frame [OF h(2), of vm'] by (cases fs) auto
  qed
  ultimately show ?thesis
    using h(1) ws(2) Next by (auto simp: advances_def keeps_def intro!: exI [of _ "h # fs"])
next
  case (Fail e)
  have "op_pops (fn_code g ! pc) \<le> length (vm_stack vm)"
    using at_op_pops [OF at] at by (simp add: at_op_def)
  then show ?thesis using acts Fail by (auto simp: acts_def advances_def)
qed (use acts in \<open>auto simp: acts_def advances_def\<close>)

lemma advances_fail: "\<not> bad e \<Longrightarrow> advances P vm fs rest (Fail e)"
  by (simp add: advances_def)

lemma advances_orPanic:
  "(\<And>x. m = Some x \<Longrightarrow> advances P vm fs rest (k x)) \<Longrightarrow> advances P vm fs rest (orPanic m k)"
  by (cases m) (auto simp: orPanic_def intro: advances_fail)

text \<open>The machine after the operands of a call are gone, with counters, traces and the host moved on.\<close>

definition popped :: "nat \<Rightarrow> 'h Vm \<Rightarrow> 'h Vm \<Rightarrow> bool" where
  "popped n vm vm' \<longleftrightarrow>
     vm_frames vm' = vm_frames vm \<and> vm_stack vm' = drop n (vm_stack vm) \<and> vm_locals vm' = vm_locals vm \<and>
     vm_stack_arena vm' = vm_stack_arena vm \<and> vm_step_limit vm' = vm_step_limit vm \<and> vm_steps vm' = vm_steps vm"

lemma popped_simps [simp]:
  "popped n vm (emit e vm') = popped n vm vm'" "popped n vm (vm'\<lparr>vm_host := h\<rparr>) = popped n vm vm'"
  "popped n vm (memo_hit fid vm') = popped n vm vm'" "popped n vm (memo_miss fid vm') = popped n vm vm'"
  "popped n vm (vm'\<lparr>vm_memo_skips := a\<rparr>) = popped n vm vm'"
  by (simp_all add: popped_def emit_def memo_hit_def memo_miss_def memo_probe_def)

lemma popped_below:
  assumes "at_op P vm f fs rest g ds pc d" "popped n vm vm'" "n \<le> d"
  shows "below vm' (last (f # fs)) = below vm (last (f # fs))"
  using assms at_op_bottom [OF assms(1)] truncate_append [of n "vm_stack vm" _ "[]"]
  by (auto simp: below_def popped_def at_op_def)

lemma advances_note_budget:
  assumes "\<And>vm'. (\<exists>h. vm' = vm\<lparr>vm_host := h\<rparr>) \<Longrightarrow> advances P vm0 fs rest (k vm')"
  shows "advances P vm0 fs rest (note_budget E c vm k)"
proof -
  have "advances P vm0 fs rest (k vm)"
    by (rule assms) (rule exI [of _ "vm_host vm"], simp)
  then show ?thesis
    using assms by (auto simp: note_budget_def intro: advances_fail split: prod.split sum.split)
qed

section \<open>Calls, given a loop that respects the discipline\<close>

text \<open>
  The contract of the interpreter loop: a run that owns the frames \<open>fs\<close> on top of \<open>rest\<close> ends with
  \<open>rest\<close>, everything below the bottom frame as it was, or with a failure of another kind. What the
  instructions that call closures back rely on is proved from it.
\<close>

locale disciplined_loop =
  fixes E :: "'h env" and P :: Program and run :: "'h run"
  assumes restores: "balanced_program P \<Longrightarrow> vm_frames vm = fs @ rest \<Longrightarrow> fs \<noteq> [] \<Longrightarrow> vm_seg_ok P vm fs \<Longrightarrow>
    disciplined (restored vm fs rest) (run vm (length rest))"
begin

lemma enter_frame:
  assumes "balanced_program P" "nth_opt (pg_functions P) fid = Some g"
  shows "frame_ok P avail (frame_for vm fid n kind key)"
proof -
  obtain ds where "well_stacked (fn_code g) ds"
    using balanced_table [OF assms] by blast
  then show ?thesis
    using assms(2) by (auto simp: frame_ok_def frame_for_def well_stacked_def)
qed

lemma enter_function_cases:
  assumes "balanced_program P" "nth_opt (pg_functions P) fid = Some g"
  obtains e where "enter_function g fid args kind key vm = Inl e" "\<not> bad e"
  | f vm' where "enter_function g fid args kind key vm = Inr vm'" "vm_frames vm' = f # vm_frames vm"
      "frame_ok P avail f" "vm_stack vm' = vm_stack vm" "vm_steps vm' = vm_steps vm"
      "vm_stack_arena vm' = vm_stack_arena vm" "vm_step_limit vm' = vm_step_limit vm"
      "fr_stack_base f = length (vm_stack vm)" "fr_locals_start f = length (vm_locals vm)"
      "fr_arena_start f = length (vm_stack_arena vm)" "\<exists>xs. vm_locals vm' = vm_locals vm @ xs"
proof (cases "length args > locals_len_of g \<or> length (vm_frames vm) \<ge> MAX_CALL_DEPTH")
  case True
  then have "\<exists>e. enter_function g fid args kind key vm = Inl e \<and> \<not> bad e"
    by (auto simp: enter_function_def Let_def push_frame_def)
  then show ?thesis using that(1) by blast
next
  case False
  let ?f = "frame_for vm fid (locals_len_of g) kind key"
  have "enter_function g fid args kind key vm =
      Inr (vm\<lparr>vm_locals := vm_locals vm @ locals_for (locals_len_of g) args, vm_frames := ?f # vm_frames vm\<rparr>)"
    using False by (auto simp: enter_function_def Let_def push_frame_def)
  then show ?thesis
    by (rule that(2) [of _ ?f]) (simp_all add: enter_frame [OF assms], simp_all add: frame_for_def)
qed

lemma check_not_bad: "check_refinements F name arg i rs = Some e \<Longrightarrow> \<not> bad e"
  by (induction rs arbitrary: i) (auto split: option.splits sum.splits bool.splits)

lemma invoke_unchanged:
  assumes "balanced_program P"
  shows "disciplined (unchanged vm) (invoke E P run vm fid args)"
proof (cases "nth_opt (pg_functions P) fid")
  case (Some g)
  show ?thesis
  proof (rule enter_function_cases [OF assms Some, where args = args and kind = EntryFrame and key = None and vm = vm and avail = 0])
    fix f vm'
    assume e: "enter_function g fid args EntryFrame None vm = Inr vm'" "vm_frames vm' = f # vm_frames vm"
      "frame_ok P 0 f" "vm_stack vm' = vm_stack vm" "vm_steps vm' = vm_steps vm"
      "vm_stack_arena vm' = vm_stack_arena vm" "vm_step_limit vm' = vm_step_limit vm"
      "fr_stack_base f = length (vm_stack vm)" "fr_locals_start f = length (vm_locals vm)"
      "fr_arena_start f = length (vm_stack_arena vm)" "\<exists>xs. vm_locals vm' = vm_locals vm @ xs"
    then have "disciplined (restored vm' [f] (vm_frames vm)) (run vm' (length (vm_frames vm)))"
      using assms by (intro restores) auto
    moreover have "unchanged vm vm''" if "restored vm' [f] (vm_frames vm) vm''" for vm''
      using that e by (auto simp: restored_def metered_def below_def unchanged_def metered_def truncate_stack_def)
    ultimately show ?thesis
      using Some e(1) by (auto simp: invoke_def disciplined_def split: option.splits sum.splits
          dest: check_not_bad)
  qed (auto simp: Some invoke_def disciplined_def split: option.splits dest: check_not_bad)
qed (simp add: invoke_def disciplined_def)

lemma invoke_closure_unchanged:
  assumes "balanced_program P"
  shows "disciplined (unchanged vm) (invoke_closure E P run vm c args)"
  using invoke_unchanged [OF assms]
  by (auto simp: invoke_closure_def disciplined_def split: Value.split)

lemma unchanged_trans: "unchanged a b \<Longrightarrow> unchanged b c \<Longrightarrow> unchanged a c"
  by (simp add: unchanged_def metered_def)

lemma each_call_unchanged:
  assumes "balanced_program P"
  shows "disciplined (unchanged vm) (each_call (\<lambda>vm. invoke_closure E P run vm c) args upd vm xs acc)"
proof (induction xs arbitrary: vm acc)
  case (Cons x xs)
  have c: "disciplined (unchanged vm) (invoke_closure E P run vm c (args acc x))"
    by (rule invoke_closure_unchanged [OF assms])
  show ?case
  proof (cases "\<exists>vm' r. invoke_closure E P run vm c (args acc x) = Some (Inr (vm', r))")
    case True
    then obtain vm' r where r: "invoke_closure E P run vm c (args acc x) = Some (Inr (vm', r))"
      by blast
    then have "unchanged vm vm'"
      using c by (simp add: disciplined_def)
    then have "disciplined (unchanged vm) (each_call (\<lambda>vm. invoke_closure E P run vm c) args upd vm' xs acc')" for acc'
      using Cons.IH [of vm' acc'] unchanged_trans by (blast intro: disciplined_mono)
    then show ?thesis
      using r by (cases "upd acc x r") simp_all
  qed (use c in \<open>auto simp: disciplined_def split: option.splits sum.splits\<close>)
qed (simp add: disciplined_def unchanged_def metered_def)

lemma yields_finish:
  assumes "vm_frames vm \<noteq> []" "disciplined (unchanged vm) r"
  shows "finish r f = NoFuel \<or> yields vm (finish r f)"
proof -
  have "yields vm (Next (push v vm'))" if "unchanged vm vm'" for v vm'
    using that assms(1) by (intro yields_next) (auto simp: unchanged_def keeps_def neq_Nil_conv)
  then show ?thesis
    using assms(2) by (auto simp: finish_def disciplined_def split: option.splits sum.splits)
qed

lemma yields_workers:
  assumes "vm_frames vm \<noteq> []"
  shows "(case r of None \<Rightarrow> NoFuel | Some rs \<Rightarrow>
    (case collect_results (map_of rs) is of Inl e \<Rightarrow> Fail e | Inr vs \<Rightarrow> Next (push (VList vs) vm))) = NoFuel \<or>
    yields vm (case r of None \<Rightarrow> NoFuel | Some rs \<Rightarrow>
    (case collect_results (map_of rs) is of Inl e \<Rightarrow> Fail e | Inr vs \<Rightarrow> Next (push (VList vs) vm)))"
proof -
  have "collect_results m is = Inl e \<Longrightarrow> \<not> bad e" for m e
    by (induction m "is" rule: collect_results.induct) (auto split: option.splits sum.splits failure.splits)
  then show ?thesis
    using assms by (auto split: option.split sum.split)
qed

lemma acts_list_closure:
  assumes "vm_frames vm \<noteq> []" "\<And>items f vm'. vm_frames vm' \<noteq> [] \<Longrightarrow> k items f vm' = NoFuel \<or> yields vm' (k items f vm')"
  shows "list_and_closure vm k = NoFuel \<or> acts 2 (Suc 0) (at_pc vm) vm (list_and_closure vm k)"
proof (cases "length (vm_stack vm) < 2")
  case True
  then show ?thesis
    by (auto simp: list_and_closure_def pop_def acts_def split: list.split)
next
  case False
  then obtain f xs s where st: "vm_stack vm = f # xs # s"
    by (auto simp: numeral_2_eq_2 not_less Suc_le_length_iff)
  have "list_and_closure vm k = NoFuel \<or> yields (vm\<lparr>vm_stack := s\<rparr>) (list_and_closure vm k)"
    using assms st by (auto simp: list_and_closure_def pop_def split: Value.split)
  then show ?thesis
    using st acts_yields [of 2 vm] by auto
qed

lemma acts_list_ops:
  assumes bal: "balanced_program P" and vm: "vm_frames vm \<noteq> []"
  shows "list_map_op E P run vm = NoFuel \<or> acts 2 (Suc 0) (at_pc vm) vm (list_map_op E P run vm)"
    and "list_filter_op E P run vm = NoFuel \<or> acts 2 (Suc 0) (at_pc vm) vm (list_filter_op E P run vm)"
    and "sort_by_key_op E P run vm = NoFuel \<or> acts 2 (Suc 0) (at_pc vm) vm (sort_by_key_op E P run vm)"
    and "parallel_map_op E P run vm = NoFuel \<or> acts 2 (Suc 0) (at_pc vm) vm (parallel_map_op E P run vm)"
  unfolding list_map_op_def list_filter_op_def sort_by_key_op_def parallel_map_op_def Let_def
  by (rule acts_list_closure [OF vm], intro yields_finish each_call_unchanged bal yields_workers, assumption)+

lemma acts_fold:
  assumes bal: "balanced_program P" and vm: "vm_frames vm \<noteq> []"
  shows "list_fold_op E P run vm = NoFuel \<or> acts 3 (Suc 0) (at_pc vm) vm (list_fold_op E P run vm)"
proof (cases "length (vm_stack vm) < 3")
  case True
  then show ?thesis
    by (auto simp: list_fold_op_def pop_def acts_def split: list.split)
next
  case False
  then obtain f i xs s where st: "vm_stack vm = f # i # xs # s"
    by (auto simp: numeral_3_eq_3 not_less Suc_le_length_iff)
  have "list_fold_op E P run vm = NoFuel \<or> yields (vm\<lparr>vm_stack := s\<rparr>) (list_fold_op E P run vm)"
    using vm st yields_finish [OF _ each_call_unchanged [OF bal, of "vm\<lparr>vm_stack := s\<rparr>" f "\<lambda>acc x. [acc, x]" "\<lambda>_ _. Some"]]
    by (auto simp: list_fold_op_def pop_def split: Value.split)
  then show ?thesis
    using st acts_yields [of 3 vm] by auto
qed

lemma advances_enter:
  assumes bal: "balanced_program P" and h: "nth_opt (pg_functions P) fid = Some h"
    and at: "at_op P vm f fs rest g ds pc d" and pop: "popped n vm vm2" "n = op_pops (fn_code g ! pc)"
    and op: "op_pushes (fn_code g ! pc) = 1" "op_next (fn_code g ! pc) pc = [pc + 1]"
  shows "advances P vm (f # fs) rest (orFail (enter_function h fid args kind key vm2) Next)"
proof (rule enter_function_cases [OF bal h, where args = args and kind = kind and key = key and vm = vm2 and avail = 0])
  fix e vm'
  assume e: "enter_function h fid args kind key vm2 = Inr vm'" "vm_frames vm' = e # vm_frames vm2"
      "frame_ok P 0 e" "vm_stack vm' = vm_stack vm2" "vm_steps vm' = vm_steps vm2"
      "vm_stack_arena vm' = vm_stack_arena vm2" "vm_step_limit vm' = vm_step_limit vm2"
      "fr_stack_base e = length (vm_stack vm2)" "fr_locals_start e = length (vm_locals vm2)"
      "fr_arena_start e = length (vm_stack_arena vm2)" "\<exists>xs. vm_locals vm' = vm_locals vm2 @ xs"
  have code: "nth_opt (pg_functions P) (fr_fn_id f) = Some g" "well_stacked (fn_code g) ds"
      "pc < length (fn_code g)" "ds ! pc = Some d" "fr_stack_base f + d \<le> length (vm_stack vm)" "fr_pc f = pc + 1"
    using at by (simp_all add: at_op_def)
  have n: "n \<le> d"
    using at_op_pops [OF at] pop by simp
  have stack: "fr_stack_base f \<le> length (vm_stack vm2)"
    using n code(5) pop by (simp add: popped_def)
  have "frame_ok P (length (vm_stack vm2) - fr_stack_base f + 1) f"
    using pop code n op by (intro frame_ok_next [OF code(2,1,3,4)]) (auto simp: popped_def)
  then have "vm_seg_ok P vm' (e # f # fs)"
    using at e pop stack by (auto simp: at_op_def popped_def)
  moreover have "below vm' (last (f # fs)) = below vm (last (f # fs))"
    using popped_below [OF at pop(1) n] at_op_bottom [OF at] e at pop
    by (auto simp: below_def at_op_def popped_def)
  moreover have "vm_frames vm' = (e # f # fs) @ rest" "metered vm vm'"
    using e at pop by (simp_all add: at_op_def popped_def metered_def)
  ultimately show ?thesis
    using e(1) by (auto simp: advances_def orFail_def intro!: exI [of _ "e # f # fs"])
qed (simp add: orFail_def advances_def)

lemma with_args_advances:
  assumes "at_op P vm f fs rest g ds pc d" "vm' = vm\<lparr>vm_host := h\<rparr>" "n = op_pops (fn_code g ! pc)"
    and "\<And>args vm'. popped n vm vm' \<Longrightarrow> advances P vm fs' rest (k args vm')"
  shows "advances P vm fs' rest (with_args n vm' k)"
proof -
  have "n \<le> length (vm_stack vm)"
    using at_op_pops [OF assms(1)] assms(1,3) by (simp add: at_op_def)
  then show ?thesis
    using assms(2,4) by (simp add: with_args_def popped_def)
qed

lemma memo_key_popped: "memo_key_for E g fid args vm2 = Some (key, vm3) \<Longrightarrow> popped n vm vm2 \<Longrightarrow> popped n vm vm3"
  by (auto simp: memo_key_for_def split: option.splits if_splits)

lemma call_advances:
  assumes bal: "balanced_program P" and at: "at_op P vm f fs rest g ds pc d"
    and op: "fn_code g ! pc = Call fid n i"
  shows "advances P vm (f # fs) rest (exec_call E P fid n i vm)"
  unfolding exec_call_def
proof (rule advances_orPanic, rule advances_note_budget, elim exE)
  fix h vm1 w assume h: "nth_opt (pg_functions P) fid = Some h" and vm1: "vm1 = vm\<lparr>vm_host := w\<rparr>"
  have ops: "n = op_pops (fn_code g ! pc)" "op_pushes (fn_code g ! pc) = 1" "op_next (fn_code g ! pc) pc = [pc + 1]"
    by (simp_all add: op op_pops_def op_pushes_def op_next_def)
  have hit: "advances P vm (f # fs) rest (Next (push v vm3))" if "popped n vm vm3" for v vm3
  proof (rule advances_acts [OF at])
    have "n \<le> length (vm_stack vm)"
      using at_op_pops [OF at] at ops(1) by (simp add: at_op_def)
    then show "acts (op_pops (fn_code g ! pc)) (op_pushes (fn_code g ! pc)) (set (op_next (fn_code g ! pc) pc)) vm
        (Next (push v vm3))"
      unfolding ops(1) [symmetric] ops(2,3) using that at
      by (intro acts_next [where ws = "[v]"]) (auto simp: popped_def push_def keeps_def metered_def at_op_def)
  qed
  show "advances P vm (f # fs) rest (with_args n vm1 (\<lambda>args vm.
       case check_refinements (e_fpu E) (fn_name h) (nth_opt args) 0 (fn_refinements h) of
         Some e \<Rightarrow> Fail e
       | None \<Rightarrow>
           orPanic (memo_key_for E h fid args vm) (\<lambda>(key, vm).
           let node_id = const_str P i;
               go = (\<lambda>vm. orFail (enter_function h fid args (CallFrame node_id) key
                       (emit (EnterCall node_id (fn_name h) args) vm)) Next)
           in case key of
                None \<Rightarrow> go vm
              | Some k \<Rightarrow>
                  (case vm_pure_memo vm k of
                     Some cached \<Rightarrow>
                       Next (push cached (emit (ExitOk cached)
                         (emit (EnterCall node_id (fn_name h) args) (memo_hit fid vm))))
                   | None \<Rightarrow> go (memo_miss fid vm)))))"
    using hit advances_enter [OF bal h at _ ops] memo_key_popped
    by (intro with_args_advances [OF at vm1 ops(1)])
      (auto simp: Let_def intro!: advances_orPanic dest: check_not_bad memo_key_popped
        intro: advances_fail split: option.split)
qed

lemma call_closure_advances:
  assumes bal: "balanced_program P" and at: "at_op P vm f fs rest g ds pc d"
    and op: "fn_code g ! pc = CallClosure n i"
  shows "advances P vm (f # fs) rest (exec_call_closure E P n i vm)"
proof -
  have ops: "Suc n = op_pops (fn_code g ! pc)" "op_pushes (fn_code g ! pc) = 1" "op_next (fn_code g ! pc) pc = [pc + 1]"
    by (simp_all add: op op_pops_def op_pushes_def op_next_def)
  have vm: "vm = vm\<lparr>vm_host := vm_host vm\<rparr>" by simp
  show ?thesis
    unfolding exec_call_closure_def
    by (rule with_args_advances [OF at vm ops(1)])
      (auto simp: Let_def intro!: advances_orPanic advances_note_budget advances_enter [OF bal _ at _ ops]
        intro: advances_fail split: Value.split)
qed

lemma tail_call_advances:
  assumes bal: "balanced_program P" and at: "at_op P vm f fs rest g ds pc d"
    and op: "fn_code g ! pc = TailCall fid n i"
  shows "advances P vm (f # fs) rest (exec_tail_call E P fid n i vm)"
  unfolding exec_tail_call_def
proof (rule advances_orPanic, rule advances_note_budget, elim exE)
  fix h vm1 w assume h: "nth_opt (pg_functions P) fid = Some h" and vm1: "vm1 = vm\<lparr>vm_host := w\<rparr>"
  have n: "n = op_pops (fn_code g ! pc)"
    by (simp add: op op_pops_def)
  have go: "advances P vm (f # fs) rest
      (Next (emit e1 (emit e2 vm2)\<lparr>vm_locals := take (fr_locals_start (top_frame vm2)) (vm_locals vm2) @ xs,
         vm_stack_arena := take (fr_arena_start (top_frame vm2)) (vm_stack_arena vm2),
         vm_frames := (top_frame vm2)\<lparr>fr_fn_id := fid, fr_pc := 0, fr_locals_len := l, fr_trace_kind := kind,
           fr_budget := b\<rparr> # tl (vm_frames vm2)\<rparr>))" if pop: "popped n vm vm2" for vm2 e1 e2 xs l kind b
  proof -
    let ?f = "f\<lparr>fr_fn_id := fid, fr_pc := 0, fr_locals_len := l, fr_trace_kind := kind, fr_budget := b\<rparr>"
    let ?vm = "emit e1 (emit e2 vm2)\<lparr>vm_locals := take (fr_locals_start f) (vm_locals vm2) @ xs,
      vm_stack_arena := take (fr_arena_start f) (vm_stack_arena vm2), vm_frames := ?f # fs @ rest\<rparr>"
    have frames: "vm_frames vm2 = f # fs @ rest"
      using at pop by (simp add: at_op_def popped_def)
    have nd: "n \<le> d"
      using at_op_pops [OF at] n by simp
    obtain ds' where ds': "well_stacked (fn_code h) ds'"
      using balanced_table [OF bal h] by blast
    then have "frame_ok P avail ?f" for avail
      using h by (auto simp: frame_ok_def well_stacked_def)
    moreover have "fr_stack_base f \<le> length (vm_stack vm2)"
      using at pop nd by (auto simp: at_op_def popped_def)
    ultimately have "vm_seg_ok P ?vm (?f # fs)"
      using at pop by (simp add: at_op_def popped_def emit_def)
    moreover have "below ?vm (last (?f # fs)) = below vm (last (f # fs))"
    proof -
      have "below ?vm (last (f # fs)) = below vm2 (last (f # fs))"
        using at_op_bottom [OF at] at pop
        by (simp add: below_def emit_def at_op_def popped_def min_def del: last.simps)
      moreover have "below ?vm (last (?f # fs)) = below ?vm (last (f # fs))"
        by (cases fs) (simp_all add: below_def)
      ultimately show ?thesis
        using popped_below [OF at pop nd] by metis
    qed
    moreover have "vm_frames ?vm = (?f # fs) @ rest" "metered vm ?vm"
      using pop by (simp_all add: emit_def popped_def metered_def)
    ultimately have "advances P vm (f # fs) rest (Next ?vm)"
      unfolding advances_def step_result.case by blast
    then show ?thesis
      using frames by (simp add: top_frame_def)
  qed
  show "advances P vm (f # fs) rest (with_args n vm1 (\<lambda>args vm.
       case check_refinements (e_fpu E) (fn_name h) (nth_opt args) 0 (fn_refinements h) of
         Some e \<Rightarrow> Fail e
       | None \<Rightarrow>
           let node_id = const_str P i;
               fr = top_frame vm;
               n = locals_len_of h;
               vm = emit (EnterCall node_id (fn_name h) args) (emit ExitCallTail vm)
           in if length args > n then Fail HostPanic
              else Next (vm\<lparr>vm_locals := take (fr_locals_start fr) (vm_locals vm) @ locals_for n args,
                     vm_stack_arena := take (fr_arena_start fr) (vm_stack_arena vm),
                     vm_frames := fr\<lparr>fr_fn_id := fid, fr_pc := 0, fr_locals_len := n,
                         fr_trace_kind := CallFrame node_id,
                         fr_budget := STACK_RECORD_BUDGET_SLOTS\<rparr> # tl (vm_frames vm)\<rparr>)))"
    using go
    by (intro with_args_advances [OF at vm1 n])
      (auto simp: Let_def emit_def dest: check_not_bad intro: advances_fail split: option.split)
qed

lemma return_advances:
  assumes at: "at_op P vm f fs rest g ds pc d" and op: "fn_code g ! pc = Return"
  shows "advances P vm (f # fs) rest (exec_return (length rest) vm)"
proof -
  have "1 \<le> d"
    using at_op_pops [OF at] by (simp add: op op_pops_def)
  then obtain v s where s: "vm_stack vm = v # s" "fr_stack_base f \<le> length s"
    using at by (cases "vm_stack vm") (auto simp: at_op_def)
  define tr where "tr = (case fr_trace_kind f of CallFrame _ \<Rightarrow> vm_trace vm @ [ExitOk v] | EntryFrame \<Rightarrow> vm_trace vm)"
  define memo where "memo = (case fr_memo_key f of Some key \<Rightarrow> (vm_pure_memo vm)(key \<mapsto> v) | None \<Rightarrow> vm_pure_memo vm)"
  let ?vm = "vm\<lparr>vm_frames := fs @ rest, vm_stack := truncate_stack (fr_stack_base f) s,
    vm_locals := take (fr_locals_start f) (vm_locals vm), vm_stack_arena := take (fr_arena_start f) (vm_stack_arena vm),
    vm_trace := tr, vm_pure_memo := memo\<rparr>"
  have eq: "exec_return (length rest) vm = (if fs = [] then Done ?vm v else Next (push v ?vm))"
    using at s by (auto simp: exec_return_def pop_def at_op_def tr_def memo_def emit_def Let_def
        split: FrameKind.split option.split)
  have trunc: "truncate_stack b (truncate_stack (fr_stack_base f) s) = truncate_stack b (vm_stack vm)"
    if "b \<le> fr_stack_base f" for b
    using that s truncate_append [of "length s - fr_stack_base f" s b "[]"] truncate_append [of 1 "vm_stack vm" b "[]"]
    by (simp add: truncate_stack_def)
  show ?thesis
  proof (cases fs)
    case Nil
    then show ?thesis
      using trunc [of "fr_stack_base f"] at s
      by (auto simp: eq advances_def restored_def metered_def below_def truncate_stack_def at_op_def)
  next
    case (Cons f' fs')
    have "vm_seg_ok P (push v ?vm) fs"
      using at s Cons by (auto simp: at_op_def push_def truncate_stack_def min_def Suc_diff_le)
    moreover have "below (push v ?vm) (last fs) = below vm (last fs)"
      using trunc [of "fr_stack_base (last fs)"] at_op_bottom [OF at] Cons s at
        truncate_append [of 0 "truncate_stack (fr_stack_base f) s" "fr_stack_base (last fs)" "[v]"]
      by (auto simp: below_def push_def min_def truncate_stack_def at_op_def)
    ultimately show ?thesis
      using Cons by (auto simp: eq advances_def push_def metered_def intro!: exI [of _ fs])
  qed
qed

lemma transfer_advances:
  assumes bal: "balanced_program P" and at: "at_op P vm f fs rest g ds pc d" and op: "transfers (fn_code g ! pc)"
  shows "advances P vm (f # fs) rest (exec_op E P run (length rest) fid pc (fn_code g ! pc) vm)"
proof -
  have vm: "vm_frames vm \<noteq> []" "fr_pc (hd (vm_frames vm)) = Suc pc"
    using at by (simp_all add: at_op_def)
  have lists: "advances P vm (f # fs) rest r" if "r = NoFuel \<or> acts n (Suc 0) (at_pc vm) vm r"
      "op_pops (fn_code g ! pc) = n" "op_pushes (fn_code g ! pc) = Suc 0" "op_next (fn_code g ! pc) pc = [Suc pc]" for r n
  proof (cases "r = NoFuel")
    case False
    then show ?thesis
      using that vm by (intro advances_acts [OF at]) simp
  qed (simp add: advances_def)
  show ?thesis
    using op call_advances [OF bal at] tail_call_advances [OF bal at] call_closure_advances [OF bal at]
      return_advances [OF at] lists [OF acts_list_ops(1) [OF bal vm(1)]] lists [OF acts_list_ops(2) [OF bal vm(1)]]
      lists [OF acts_list_ops(3) [OF bal vm(1)]] lists [OF acts_list_ops(4) [OF bal vm(1)]]
      lists [OF acts_fold [OF bal vm(1)]]
    by (cases "fn_code g ! pc") (simp_all add: transfers_def exec_op_def op_pops_def op_pushes_def op_next_def)
qed

lemma step_advances:
  assumes bal: "balanced_program P" and vm: "vm_frames vm = fs @ rest" "fs \<noteq> []" and seg: "vm_seg_ok P vm fs"
  shows "advances P vm fs rest (step E P run (length rest) vm)"
proof -
  obtain f fs' where fs: "fs = f # fs'"
    using vm(2) by (cases fs) auto
  obtain g ds d where f: "nth_opt (pg_functions P) (fr_fn_id f) = Some g" "well_stacked (fn_code g) ds"
      "fr_pc f < length (fn_code g)" "ds ! fr_pc f = Some d" "d \<le> length (vm_stack vm) - fr_stack_base f"
    using seg fs by (auto simp: frame_ok_def)
  let ?f = "f\<lparr>fr_pc := fr_pc f + 1\<rparr>" and ?op = "fn_code g ! fr_pc f"
  let ?vm = "set_pc (fr_pc f + 1) (vm\<lparr>vm_steps := Suc (vm_steps vm)\<rparr>)"
  have at: "at_op P ?vm ?f fs' rest g ds (fr_pc f) d"
    using vm seg f fs by (auto simp: at_op_def set_pc_def)
  have exec: "advances P ?vm (?f # fs') rest (exec_op E P run (length rest) (fr_fn_id f) (fr_pc f) ?op ?vm)"
  proof (cases "transfers ?op")
    case False
    then show ?thesis
      using at by (intro advances_acts [OF at] acts_plain) (auto simp: at_op_def)
  qed (rule transfer_advances [OF bal at])
  have from_vm: "advances P vm fs rest r" if "advances P ?vm (?f # fs') rest r" "\<not> vm_steps vm > vm_step_limit vm" for r
  proof -
    have "below ?vm (last (?f # fs')) = below vm (last fs)"
      using vm fs by (cases fs') (simp_all add: below_def set_pc_def)
    moreover have "metered vm ?vm"
      using that(2) vm fs by (simp add: metered_def set_pc_def)
    ultimately show ?thesis
      using that(1) by (auto simp: advances_def restored_def intro: metered_trans split: step_result.splits)
  qed
  show ?thesis
    using from_vm [OF exec] f vm fs by (auto simp: step_def orPanic_def nth_opt_def [of "fn_code g"] advances_fail)
qed

end

section \<open>The loop respects the discipline\<close>

lemma run_to_disciplined: "disciplined_loop P (run_to n E P)"
proof (induction n)
  case 0
  show ?case by unfold_locales simp
next
  case (Suc n)
  show ?case
  proof
    fix vm :: "'a Vm" and fs rest
    assume a: "balanced_program P" "vm_frames vm = fs @ rest" "fs \<noteq> []" "vm_seg_ok P vm fs"
    have "advances P vm fs rest (step E P (run_to n E P) (length rest) vm)"
      by (rule disciplined_loop.step_advances [OF Suc a])
    moreover have "disciplined (restored vm fs rest) (run_to n E P vm' (length rest))"
      if "vm_frames vm' = fs' @ rest" "fs' \<noteq> []" "vm_seg_ok P vm' fs'" "below vm' (last fs') = below vm (last fs)"
        "metered vm vm'" for vm' fs'
      by (rule disciplined_mono [OF disciplined_loop.restores [OF Suc a(1) that(1-3)]])
        (use that(4,5) in \<open>auto simp: restored_def intro: metered_trans\<close>)
    ultimately show "disciplined (restored vm fs rest) (run_to (Suc n) E P vm (length rest))"
      by (auto simp: advances_def split: step_result.splits)
  qed
qed

interpretation rt: disciplined_loop E P "run_to n E P" for E :: "'h env" and P n
  by (rule run_to_disciplined)

end
