(* ===== verification/Bc_VmFuel.thy ===== *)
theory Bc_VmFuel
  imports Bc_VmRun
begin

text \<open>
  The step limit ends every run: fuel for as many instructions as the limit still allows is enough,
  whatever the program, for programs that start no parallel workers. Workers count their own steps
  from zero, which is why they are left out.
\<close>

definition sequential :: "Program \<Rightarrow> bool" where
  "sequential P \<longleftrightarrow>
     list_all (\<lambda>f. list_all (\<lambda>op'. case op' of ParallelMap _ \<Rightarrow> False | _ \<Rightarrow> True) (fn_code f)) (pg_functions P)"

text \<open>An outcome that did not run out of fuel and moved the meter as it should.\<close>

definition fueled :: "'h Vm \<Rightarrow> 'h step_result \<Rightarrow> bool" where
  "fueled vm r \<longleftrightarrow>
     (case r of Next vm' \<Rightarrow> metered vm vm' | Done vm' _ \<Rightarrow> metered vm vm' | Fail _ \<Rightarrow> True | NoFuel \<Rightarrow> False)"

definition ends :: "'h Vm \<Rightarrow> (failure + 'h Vm \<times> 'a) option \<Rightarrow> bool" where
  "ends vm r \<longleftrightarrow> (case r of None \<Rightarrow> False | Some (Inl _) \<Rightarrow> True | Some (Inr (vm', _)) \<Rightarrow> metered vm vm')"

text \<open>Fuel for the steps that are left, and one more to report the limit.\<close>

definition enough :: "nat \<Rightarrow> 'h Vm \<Rightarrow> bool" where
  "enough k vm \<longleftrightarrow> 0 < k \<and> vm_step_limit vm + 2 \<le> k + vm_steps vm"

lemma enough_metered: "enough k vm \<Longrightarrow> metered vm vm' \<Longrightarrow> enough k vm'"
  by (simp add: enough_def metered_def)

lemma ends_simps [simp]:
  "\<not> ends vm None" "ends vm (Some (Inl e))" "ends vm (Some (Inr (vm', x))) \<longleftrightarrow> metered vm vm'"
  by (simp_all add: ends_def)

lemma fueled_simps [simp]:
  "fueled vm (Next vm') \<longleftrightarrow> metered vm vm'" "fueled vm (Done vm' v) \<longleftrightarrow> metered vm vm'" "fueled vm (Fail e)"
  by (simp_all add: fueled_def)

lemma fueled_acts: "acts n m S vm r \<Longrightarrow> fueled vm r"
  by (auto simp: fueled_def acts_def keeps_def split: step_result.splits)

lemma fueled_orPanic: "(\<And>x. m = Some x \<Longrightarrow> fueled vm (k x)) \<Longrightarrow> fueled vm (orPanic m k)"
  by (cases m) (auto simp: orPanic_def)

lemma metered_same:
  "metered vm0 vm \<Longrightarrow> vm_step_limit vm' = vm_step_limit vm \<Longrightarrow> vm_steps vm' = vm_steps vm \<Longrightarrow> metered vm0 vm'"
  by (simp add: metered_def)

lemma fueled_pop:
  assumes "metered vm0 vm" "\<And>v vm'. metered vm0 vm' \<Longrightarrow> fueled vm0 (k v vm')"
  shows "fueled vm0 (pop vm k)"
  using assms(2) metered_same [OF assms(1)] by (auto simp: pop_def split: list.split)

lemma fueled_with_args:
  assumes "metered vm0 vm" "\<And>v vm'. metered vm0 vm' \<Longrightarrow> fueled vm0 (k v vm')"
  shows "fueled vm0 (with_args n vm k)"
  using assms(2) metered_same [OF assms(1)] by (auto simp: with_args_def)

lemma fueled_note_budget:
  assumes "metered vm0 vm" "\<And>vm'. metered vm0 vm' \<Longrightarrow> fueled vm0 (k vm')"
  shows "fueled vm0 (note_budget E c vm k)"
  using assms metered_same [OF assms(1)] by (auto simp: note_budget_def split: prod.split sum.split)

lemma metered_simps [simp]:
  "metered vm (emit e vm') = metered vm vm'" "metered vm (push v vm') = metered vm vm'"
  "metered vm (memo_hit fid vm') = metered vm vm'" "metered vm (memo_miss fid vm') = metered vm vm'"
  by (simp_all add: metered_def emit_def push_def memo_hit_def memo_miss_def memo_probe_def)

lemma memo_key_metered: "memo_key_for E f fid args vm = Some (key, vm') \<Longrightarrow> metered vm0 vm \<Longrightarrow> metered vm0 vm'"
  by (auto simp: memo_key_for_def metered_def split: option.splits if_splits)

lemma enter_function_metered: "enter_function f fid args kind key vm = Inr vm' \<Longrightarrow> metered vm0 vm \<Longrightarrow> metered vm0 vm'"
  by (auto simp: enter_function_def Let_def push_frame_def metered_def split: if_splits)

lemma fueled_enter: "metered vm0 vm \<Longrightarrow> fueled vm0 (orFail (enter_function f fid args kind key vm) Next)"
  by (auto simp: orFail_def split: sum.split dest: enter_function_metered)

lemma fueled_calls:
  "fueled vm (exec_call E P fid n i vm)"
  "fueled vm (exec_tail_call E P fid n i vm)"
  "fueled vm (exec_call_closure E P n i vm)"
  "fueled vm (exec_return base vm)"
proof -
  show "fueled vm (exec_call E P fid n i vm)"
    unfolding exec_call_def Let_def
    by (intro fueled_orPanic fueled_note_budget fueled_with_args metered_refl; assumption?)
      (auto intro!: fueled_orPanic fueled_enter split: option.split, (erule (1) memo_key_metered)+)
  show "fueled vm (exec_tail_call E P fid n i vm)"
    unfolding exec_tail_call_def Let_def
    by (intro fueled_orPanic fueled_note_budget fueled_with_args metered_refl; assumption?)
      (auto simp: emit_def intro: metered_same split: option.split)
  show "fueled vm (exec_call_closure E P n i vm)"
    unfolding exec_call_closure_def Let_def
    by (rule fueled_with_args [OF metered_refl])
      (auto intro!: fueled_orPanic fueled_note_budget fueled_enter split: Value.split)
  show "fueled vm (exec_return base vm)"
    unfolding exec_return_def Let_def
    by (rule fueled_pop [OF metered_refl])
      (auto simp: emit_def intro: metered_same split: list.split FrameKind.split option.split)
qed

section \<open>Callbacks, given a loop that ends\<close>

text \<open>
  The contract of the loop: with fuel \<open>k\<close> for the steps that are left, it ends. One instruction
  takes at least one step, so what it calls back needs less.
\<close>

locale metered_loop =
  fixes E :: "'h env" and P :: Program and run :: "'h run" and k :: nat
  assumes loop_ends: "sequential P \<Longrightarrow> enough k vm \<Longrightarrow> ends vm (run vm base)"
begin

lemma invoke_ends:
  assumes "sequential P" "enough k vm"
  shows "ends vm (invoke E P run vm fid args)"
proof -
  have "ends vm (run vm' base)" if "enter_function f fid args EntryFrame None vm = Inr vm'" for f vm' base
  proof -
    have "vm_step_limit vm' = vm_step_limit vm" "vm_steps vm' = vm_steps vm"
      using that by (auto simp: enter_function_def Let_def push_frame_def split: if_splits)
    then show ?thesis
      using loop_ends [of vm' base] assms by (auto simp: ends_def metered_def enough_def split: option.splits sum.splits)
  qed
  then show ?thesis
    by (auto simp: invoke_def split: option.split sum.split)
qed

lemma invoke_closure_ends:
  "sequential P \<Longrightarrow> enough k vm \<Longrightarrow> ends vm (invoke_closure E P run vm c args)"
  using invoke_ends by (auto simp: invoke_closure_def split: Value.split)

lemma each_call_ends:
  assumes "sequential P"
  shows "enough k vm \<Longrightarrow>
    ends vm (each_call (\<lambda>vm. invoke_closure E P run vm c) args upd vm xs acc)"
proof (induction xs arbitrary: vm acc)
  case (Cons x xs)
  have c: "ends vm (invoke_closure E P run vm c (args acc x))"
    by (rule invoke_closure_ends [OF assms Cons.prems])
  show ?case
  proof (cases "\<exists>vm' r. invoke_closure E P run vm c (args acc x) = Some (Inr (vm', r))")
    case True
    then obtain vm' r where r: "invoke_closure E P run vm c (args acc x) = Some (Inr (vm', r))"
      by blast
    then have "metered vm vm'"
      using c by simp
    then have "ends vm (each_call (\<lambda>vm. invoke_closure E P run vm c) args upd vm' xs acc')" for acc'
      using Cons.IH [of vm' acc'] enough_metered [OF Cons.prems]
      by (auto simp: ends_def intro: metered_trans split: option.splits sum.splits)
    then show ?thesis
      using r by (cases "upd acc x r") simp_all
  qed (use c in \<open>auto simp: ends_def split: option.splits sum.splits\<close>)
qed simp

lemma fueled_finish:
  assumes "ends vm r" "metered vm0 vm"
  shows "fueled vm0 (finish r f)"
  using assms by (auto simp: finish_def ends_def intro: metered_trans split: option.splits sum.splits)

lemma fueled_each:
  assumes "sequential P" "enough k vm0" "metered vm0 vm"
  shows "fueled vm0 (finish (each_call (\<lambda>vm. invoke_closure E P run vm c) args upd vm xs acc) f)"
proof (rule fueled_finish [OF each_call_ends [OF assms(1)] assms(3)])
  show "enough k vm"
    by (rule enough_metered [OF assms(2,3)])
qed

lemma fueled_list_ops:
  assumes "sequential P" "enough k vm"
  shows "fueled vm (list_map_op E P run vm)" "fueled vm (list_filter_op E P run vm)"
    "fueled vm (sort_by_key_op E P run vm)" "fueled vm (list_fold_op E P run vm)"
  unfolding list_map_op_def list_filter_op_def sort_by_key_op_def list_fold_op_def list_and_closure_def
  by (intro fueled_pop metered_refl; assumption?; auto intro!: fueled_each assms split: Value.split)+

lemma step_fueled:
  assumes seq: "sequential P" and fuel: "enough (Suc k) vm"
  shows "case step E P run base vm of
      Next vm' \<Rightarrow> metered vm vm' \<and> vm_steps vm < vm_steps vm' \<and> vm_steps vm \<le> vm_step_limit vm | Done vm' _ \<Rightarrow> metered vm vm'
    | Fail _ \<Rightarrow> True | NoFuel \<Rightarrow> False"
proof (cases "\<exists>f fs g op'. vm_frames vm = f # fs \<and> nth_opt (pg_functions P) (fr_fn_id f) = Some g \<and>
    \<not> vm_steps vm > vm_step_limit vm \<and> nth_opt (fn_code g) (fr_pc f) = Some op'")
  case True
  then obtain f fs g op' where at: "vm_frames vm = f # fs" "nth_opt (pg_functions P) (fr_fn_id f) = Some g"
    "\<not> vm_steps vm > vm_step_limit vm" "nth_opt (fn_code g) (fr_pc f) = Some op'"
    by blast
  let ?vm = "set_pc (fr_pc f + 1) (vm\<lparr>vm_steps := Suc (vm_steps vm)\<rparr>)"
  have vm: "vm_frames ?vm \<noteq> []" "fr_pc (hd (vm_frames ?vm)) = fr_pc f + 1"
      "vm_step_limit ?vm = vm_step_limit vm" "vm_steps ?vm = Suc (vm_steps vm)"
    using at by (simp_all add: set_pc_def)
  have "op' \<in> set (fn_code g)" "g \<in> set (pg_functions P)"
    using at by (auto simp: nth_opt_def split: if_splits)
  then have nopar: "case op' of ParallelMap _ \<Rightarrow> False | _ \<Rightarrow> True"
    using seq by (fastforce simp: sequential_def list_all_iff)
  have fuel': "enough k ?vm"
    using fuel at vm by (simp add: enough_def)
  have "fueled ?vm (exec_op E P run base (fr_fn_id f) (fr_pc f) op' ?vm)"
  proof (cases "transfers op'")
    case False
    then show ?thesis
      using vm by (intro fueled_acts [OF acts_plain]) auto
  next
    case True
    then show ?thesis
      using fueled_calls [of ?vm] fueled_list_ops [of ?vm] seq fuel' nopar
      by (cases op') (simp_all add: transfers_def exec_op_def)
  qed
  then show ?thesis
    using at vm by (auto simp: step_def orPanic_def fueled_def metered_def split: step_result.splits)
qed (auto simp: step_def orPanic_def nth_opt_def split: list.split)

end

section \<open>Enough fuel\<close>

lemma run_to_metered: "metered_loop P (run_to n E P) n"
proof (induction n)
  case 0
  show ?case by unfold_locales (simp add: enough_def)
next
  case (Suc n)
  show ?case
  proof
    fix vm :: "'a Vm" and base assume a: "sequential P" "enough (Suc n) vm"
    have "ends vm (run_to n E P vm' base)" if "metered vm vm'" "vm_steps vm < vm_steps vm'" "vm_steps vm \<le> vm_step_limit vm" for vm'
    proof -
      have "ends vm' (run_to n E P vm' base)"
        using that a by (intro metered_loop.loop_ends [OF Suc]) (simp_all add: metered_def enough_def)
      then show ?thesis
        using that(1) by (auto simp: ends_def intro: metered_trans split: option.splits sum.splits)
    qed
    then show "ends vm (run_to (Suc n) E P vm base)"
      using metered_loop.step_fueled [OF Suc a, of E base] by (auto split: step_result.splits)
  qed
qed

end
