(* ===== verification/Bc_Peephole.thy ===== *)
theory Bc_Peephole
  imports Bc_VmFuel
begin

text \<open>
  The peephole passes of the compiler, \<open>crates/lex-bytecode/src/compiler/peephole.rs\<close>, in the order
  \<open>compile_program\<close> runs them. Every pass scans the code once, replaces the first instruction of a
  matching window by a superinstruction and leaves the other slots of the window in place.
\<close>

section \<open>The passes\<close>

definition jump_offset_of :: "Op \<Rightarrow> int option" where
  "jump_offset_of op' = (case op' of Jump off \<Rightarrow> Some off | JumpIf off \<Rightarrow> Some off | JumpIfNot off \<Rightarrow> Some off | _ \<Rightarrow> None)"

definition collect_jump_targets :: "Op list \<Rightarrow> nat list" where
  "collect_jump_targets code =
     List.map_filter (\<lambda>(pc, op'). map_option (\<lambda>off. jump_target (pc + 1) off) (jump_offset_of op'))
       (enumerate 0 code)"

text \<open>\<open>(k + 1 ..= k + m)\<close> holds no jump target.\<close>

definition no_target :: "nat list \<Rightarrow> nat \<Rightarrow> nat \<Rightarrow> bool" where
  "no_target targets k m \<longleftrightarrow> list_all (\<lambda>i. \<not> List.member targets (k + i)) [1..<Suc m]"

definition is_int_const :: "Const list \<Rightarrow> nat \<Rightarrow> bool" where
  "is_int_const constants i \<longleftrightarrow> (case nth_opt constants i of Some (ConstInt _) \<Rightarrow> True | _ \<Rightarrow> False)"

text \<open>
  The scan of every pass: \<open>w\<close> looks at the window of \<open>m + 1\<close> slots from \<open>k\<close>; a fused window is skipped.
\<close>

function fuse_loop :: "(Op list \<Rightarrow> nat \<Rightarrow> FusedOp option) \<Rightarrow> nat \<Rightarrow> Op list \<Rightarrow> nat \<Rightarrow> Op list" where
  "fuse_loop w m code k =
     (if k + m < length code then
        (case w code k of
           Some f \<Rightarrow> fuse_loop w m (code[k := Fused f]) (k + Suc m)
         | None \<Rightarrow> fuse_loop w m code (k + 1))
      else code)"
  by pat_completeness auto

termination
  by (relation "measure (\<lambda>(_, _, code, k). length code - k)") auto

declare fuse_loop.simps [simp del]

definition fuse :: "(nat list \<Rightarrow> Op list \<Rightarrow> nat \<Rightarrow> FusedOp option) \<Rightarrow> nat \<Rightarrow> Op list \<Rightarrow> Op list" where
  "fuse w m code = (if length code < Suc m then code else fuse_loop (w (collect_jump_targets code)) m code 0)"

definition window1 :: "Const list \<Rightarrow> nat list \<Rightarrow> Op list \<Rightarrow> nat \<Rightarrow> FusedOp option" where
  "window1 constants targets code k =
     (case (code ! k, code ! (k + 1), code ! (k + 2)) of
        (LoadLocal local_idx, PushConst imm_const_idx, Prim IntAdd) \<Rightarrow>
          if is_int_const constants imm_const_idx \<and> no_target targets k 2
          then Some (LoadLocalAddIntConst local_idx imm_const_idx) else None
      | _ \<Rightarrow> None)"

definition apply_peephole :: "Const list \<Rightarrow> Op list \<Rightarrow> Op list" where
  "apply_peephole constants = fuse (window1 constants) 2"

definition window2 :: "nat list \<Rightarrow> Op list \<Rightarrow> nat \<Rightarrow> FusedOp option" where
  "window2 targets code k =
     (case (code ! k, code ! (k + 3)) of
        (Fused (LoadLocalAddIntConst src imm_const_idx), StoreLocal dest) \<Rightarrow>
          if no_target targets k 3 then Some (LoadLocalAddIntConstStoreLocal src imm_const_idx dest) else None
      | _ \<Rightarrow> None)"

definition apply_peephole_slice2 :: "Op list \<Rightarrow> Op list" where
  "apply_peephole_slice2 = fuse window2 3"

definition window3 :: "nat list \<Rightarrow> Op list \<Rightarrow> nat \<Rightarrow> FusedOp option" where
  "window3 targets code k =
     (case (code ! k, code ! (k + 1), code ! (k + 2)) of
        (LoadLocal lhs_idx, LoadLocal rhs_idx, Prim IntAdd) \<Rightarrow>
          if no_target targets k 2 then Some (LoadLocalAddLocal lhs_idx rhs_idx) else None
      | _ \<Rightarrow> None)"

definition apply_peephole_slice3 :: "Op list \<Rightarrow> Op list" where
  "apply_peephole_slice3 = fuse window3 2"

definition window4 :: "nat list \<Rightarrow> Op list \<Rightarrow> nat \<Rightarrow> FusedOp option" where
  "window4 targets code k =
     (case (code ! k, code ! (k + 1), code ! (k + 2)) of
        (LoadLocal lhs_idx, LoadLocal rhs_idx, Prim p) \<Rightarrow>
          (case (if p = IntSub then Some (LoadLocalSubLocal lhs_idx rhs_idx)
                 else if p = IntMul then Some (LoadLocalMulLocal lhs_idx rhs_idx) else None) of
             Some f \<Rightarrow> if no_target targets k 2 then Some f else None
           | None \<Rightarrow> None)
      | _ \<Rightarrow> None)"

definition apply_peephole_slice4 :: "Op list \<Rightarrow> Op list" where
  "apply_peephole_slice4 = fuse window4 2"

definition window5 :: "Const list \<Rightarrow> nat list \<Rightarrow> Op list \<Rightarrow> nat \<Rightarrow> FusedOp option" where
  "window5 constants targets code k =
     (case (code ! k, code ! (k + 1), code ! (k + 2), code ! (k + 3)) of
        (LoadLocal lhs_idx, PushConst imm_const_idx, Prim IntEq, JumpIfNot jump_offset) \<Rightarrow>
          if is_int_const constants imm_const_idx \<and> no_target targets k 3
          then Some (LoadLocalEqIntConstJumpIfNot lhs_idx imm_const_idx jump_offset) else None
      | _ \<Rightarrow> None)"

definition apply_peephole_slice5 :: "Const list \<Rightarrow> Op list \<Rightarrow> Op list" where
  "apply_peephole_slice5 constants = fuse (window5 constants) 3"

definition window6 :: "nat list \<Rightarrow> Op list \<Rightarrow> nat \<Rightarrow> FusedOp option" where
  "window6 targets code k =
     (case (code ! k, code ! (k + 1), code ! (k + 2)) of
        (LoadLocal src, StoreLocal dst, Fused (LoadLocalEqIntConstJumpIfNot local_idx imm_const_idx jump_offset)) \<Rightarrow>
          if local_idx = dst \<and> no_target targets k 2
          then Some (LoadLocalStoreEqIntConstJumpIfNot src dst imm_const_idx jump_offset) else None
      | _ \<Rightarrow> None)"

definition apply_peephole_slice6 :: "Op list \<Rightarrow> Op list" where
  "apply_peephole_slice6 = fuse window6 2"

definition window7 :: "nat list \<Rightarrow> Op list \<Rightarrow> nat \<Rightarrow> FusedOp option" where
  "window7 targets code k =
     (case (code ! k, code ! (k + 1), code ! (k + 2)) of
        (LoadLocal local_idx, GetField name_idx site_idx, Prim p) \<Rightarrow>
          (case (if p = IntAdd then Some (LoadLocalGetFieldAdd local_idx name_idx site_idx)
                 else if p = IntSub then Some (LoadLocalGetFieldSub local_idx name_idx site_idx)
                 else if p = IntMul then Some (LoadLocalGetFieldMul local_idx name_idx site_idx) else None) of
             Some f \<Rightarrow> if no_target targets k 2 then Some f else None
           | None \<Rightarrow> None)
      | _ \<Rightarrow> None)"

definition apply_peephole_slice7 :: "Op list \<Rightarrow> Op list" where
  "apply_peephole_slice7 = fuse window7 2"

definition window9 :: "nat list \<Rightarrow> Op list \<Rightarrow> nat \<Rightarrow> FusedOp option" where
  "window9 targets code k =
     (case (code ! k, code ! (k + 1)) of
        (LoadLocal local_idx, GetField name_idx site_idx) \<Rightarrow>
          if no_target targets k 1 then Some (LoadLocalGetField local_idx name_idx site_idx) else None
      | _ \<Rightarrow> None)"

definition apply_peephole_slice9 :: "Op list \<Rightarrow> Op list" where
  "apply_peephole_slice9 = fuse window9 1"

definition peephole_code :: "Const list \<Rightarrow> Op list \<Rightarrow> Op list" where
  "peephole_code constants code =
     apply_peephole_slice9 (apply_peephole_slice7 (apply_peephole_slice6 (apply_peephole_slice5 constants
       (apply_peephole_slice4 (apply_peephole_slice3 (apply_peephole_slice2 (apply_peephole constants code)))))))"

text \<open>The part of \<open>compile_program\<close> that runs the passes over every function.\<close>

definition peephole_program :: "Program \<Rightarrow> Program" where
  "peephole_program P =
     P\<lparr>pg_functions := map (\<lambda>f. f\<lparr>fn_code := peephole_code (pg_constants P) (fn_code f)\<rparr>) (pg_functions P)\<rparr>"

section \<open>What a superinstruction stands for\<close>

definition expansion :: "FusedOp \<Rightarrow> Op list" where
  "expansion f =
     (case f of
        LoadLocalAddIntConst l c \<Rightarrow> [LoadLocal l, PushConst c, Prim IntAdd]
      | LoadLocalAddIntConstStoreLocal l c d \<Rightarrow> [LoadLocal l, PushConst c, Prim IntAdd, StoreLocal d]
      | LoadLocalAddLocal l r \<Rightarrow> [LoadLocal l, LoadLocal r, Prim IntAdd]
      | LoadLocalSubLocal l r \<Rightarrow> [LoadLocal l, LoadLocal r, Prim IntSub]
      | LoadLocalMulLocal l r \<Rightarrow> [LoadLocal l, LoadLocal r, Prim IntMul]
      | LoadLocalEqIntConstJumpIfNot l c off \<Rightarrow> [LoadLocal l, PushConst c, Prim IntEq, JumpIfNot off]
      | LoadLocalStoreEqIntConstJumpIfNot s d c off \<Rightarrow>
          [LoadLocal s, StoreLocal d, LoadLocal d, PushConst c, Prim IntEq, JumpIfNot off]
      | LoadLocalGetField l n i \<Rightarrow> [LoadLocal l, GetField n i]
      | LoadLocalGetFieldAdd l n i \<Rightarrow> [LoadLocal l, GetField n i, Prim IntAdd]
      | LoadLocalGetFieldSub l n i \<Rightarrow> [LoadLocal l, GetField n i, Prim IntSub]
      | LoadLocalGetFieldMul l n i \<Rightarrow> [LoadLocal l, GetField n i, Prim IntMul])"

text \<open>The constant a superinstruction reads is an integer.\<close>

definition const_ok :: "Const list \<Rightarrow> FusedOp \<Rightarrow> bool" where
  "const_ok cs f \<longleftrightarrow>
     (case f of LoadLocalAddIntConst _ c \<Rightarrow> is_int_const cs c | LoadLocalAddIntConstStoreLocal _ c _ \<Rightarrow> is_int_const cs c
      | LoadLocalEqIntConstJumpIfNot _ c _ \<Rightarrow> is_int_const cs c | LoadLocalStoreEqIntConstJumpIfNot _ _ c _ \<Rightarrow> is_int_const cs c
      | _ \<Rightarrow> True)"

definition stands_at :: "Const list \<Rightarrow> FusedOp \<Rightarrow> Op list \<Rightarrow> nat \<Rightarrow> bool" where
  "stands_at cs f code k \<longleftrightarrow>
     const_ok cs f \<and> k + length (expansion f) \<le> length code \<and>
     (\<forall>i < length (expansion f). code ! (k + i) = expansion f ! i)"

definition fused_from :: "Const list \<Rightarrow> Op list \<Rightarrow> Op list \<Rightarrow> bool" where
  "fused_from cs raw code \<longleftrightarrow>
     length code = length raw \<and>
     (\<forall>k < length raw. code ! k = raw ! k \<or> (\<exists>f. code ! k = Fused f \<and> stands_at cs f raw k))"

definition plain_ops :: "Op list \<Rightarrow> bool" where
  "plain_ops code \<longleftrightarrow> list_all (\<lambda>op'. case op' of Fused _ \<Rightarrow> False | _ \<Rightarrow> True) code"

lemma fused_from_refl: "fused_from cs raw raw"
  by (simp add: fused_from_def)

lemma fused_from_raw:
  assumes "fused_from cs raw code" "plain_ops raw" "k < length code"
  shows "code ! k = Fused f \<Longrightarrow> stands_at cs f raw k"
    and "(\<And>f. op' \<noteq> Fused f) \<Longrightarrow> code ! k = op' \<Longrightarrow> raw ! k = op'"
proof -
  have len: "length code = length raw"
    and alt: "code ! k = raw ! k \<or> (\<exists>f. code ! k = Fused f \<and> stands_at cs f raw k)"
    using assms by (auto simp: fused_from_def)
  have raw: "raw ! k \<noteq> Fused f" for f
    using assms(2,3) len by (fastforce simp: plain_ops_def list_all_length)
  show "code ! k = Fused f \<Longrightarrow> stands_at cs f raw k"
    using alt raw by fastforce
  show "(\<And>f. op' \<noteq> Fused f) \<Longrightarrow> code ! k = op' \<Longrightarrow> raw ! k = op'"
    using alt by auto
qed

text \<open>A pass keeps the relation when each of its windows stands for what it is replaced by.\<close>

lemma fuse_loop_from:
  assumes "\<And>code k f. fused_from cs raw code \<Longrightarrow> k + m < length code \<Longrightarrow> w code k = Some f \<Longrightarrow>
      stands_at cs f raw k"
    and "fused_from cs raw code"
  shows "fused_from cs raw (fuse_loop w m code k)"
  using assms
proof (induction w m code k rule: fuse_loop.induct)
  case (1 w m code k)
  have step: "fused_from cs raw (code[k := Fused f])" if "k + m < length code" "w code k = Some f" for f
    using "1.prems"(2) "1.prems"(1) [OF "1.prems"(2) that] that by (auto simp: fused_from_def nth_list_update)
  show ?case
    using 1 step by (subst fuse_loop.simps) (auto split: option.split)
qed

lemma fuse_from:
  assumes "\<And>targets code k f. fused_from cs raw code \<Longrightarrow> k + m < length code \<Longrightarrow> w targets code k = Some f \<Longrightarrow>
      stands_at cs f raw k"
    and "fused_from cs raw code"
  shows "fused_from cs raw (fuse w m code)"
  unfolding fuse_def using assms by (auto intro: fuse_loop_from)

text \<open>What a window has matched.\<close>

lemma window1_cases:
  assumes "window1 cs targets code k = Some f"
  obtains l c where "code ! k = LoadLocal l" "code ! (k + 1) = PushConst c" "code ! (k + 2) = Prim IntAdd"
    "f = LoadLocalAddIntConst l c" "is_int_const cs c"
  using assms unfolding window1_def
  by (cases "code ! k"; simp; cases "code ! Suc k"; simp; cases "code ! Suc (Suc k)"; simp split: PrimOp.splits if_splits)

lemma window2_cases:
  assumes "window2 targets code k = Some f"
  obtains l c d where "code ! k = Fused (LoadLocalAddIntConst l c)" "code ! (k + 3) = StoreLocal d"
    "f = LoadLocalAddIntConstStoreLocal l c d"
  using assms unfolding window2_def
  by (cases "code ! k"; simp split: FusedOp.splits; cases "code ! (k + 3)"; simp split: if_splits)

lemma window3_cases:
  assumes "window3 targets code k = Some f"
  obtains l r where "code ! k = LoadLocal l" "code ! (k + 1) = LoadLocal r" "code ! (k + 2) = Prim IntAdd"
    "f = LoadLocalAddLocal l r"
  using assms unfolding window3_def
  by (cases "code ! k"; simp; cases "code ! Suc k"; simp; cases "code ! Suc (Suc k)"; simp split: PrimOp.splits if_splits)

lemma window4_cases:
  assumes "window4 targets code k = Some f"
  obtains l r p where "code ! k = LoadLocal l" "code ! (k + 1) = LoadLocal r" "code ! (k + 2) = Prim p"
    "p = IntSub \<and> f = LoadLocalSubLocal l r \<or> p = IntMul \<and> f = LoadLocalMulLocal l r"
  using assms unfolding window4_def
  by (cases "code ! k"; simp; cases "code ! Suc k"; simp; cases "code ! Suc (Suc k)"; simp split: if_splits)

lemma window5_cases:
  assumes "window5 cs targets code k = Some f"
  obtains l c off where "code ! k = LoadLocal l" "code ! (k + 1) = PushConst c" "code ! (k + 2) = Prim IntEq"
    "code ! (k + 3) = JumpIfNot off" "f = LoadLocalEqIntConstJumpIfNot l c off" "is_int_const cs c"
  using assms unfolding window5_def
  by (cases "code ! k"; simp; cases "code ! Suc k"; simp; cases "code ! Suc (Suc k)"; simp split: PrimOp.splits;
      cases "code ! (k + 3)"; simp split: if_splits)

lemma window6_cases:
  assumes "window6 targets code k = Some f"
  obtains s d c off where "code ! k = LoadLocal s" "code ! (k + 1) = StoreLocal d"
    "code ! (k + 2) = Fused (LoadLocalEqIntConstJumpIfNot d c off)" "f = LoadLocalStoreEqIntConstJumpIfNot s d c off"
  using assms unfolding window6_def
  by (cases "code ! k"; simp; cases "code ! Suc k"; simp; cases "code ! Suc (Suc k)"; simp split: FusedOp.splits if_splits)

lemma window7_cases:
  assumes "window7 targets code k = Some f"
  obtains l n i p where "code ! k = LoadLocal l" "code ! (k + 1) = GetField n i" "code ! (k + 2) = Prim p"
    "p = IntAdd \<and> f = LoadLocalGetFieldAdd l n i \<or> p = IntSub \<and> f = LoadLocalGetFieldSub l n i \<or>
     p = IntMul \<and> f = LoadLocalGetFieldMul l n i"
  using assms unfolding window7_def
  by (cases "code ! k"; simp; cases "code ! Suc k"; simp; cases "code ! Suc (Suc k)"; simp split: if_splits)

lemma window9_cases:
  assumes "window9 targets code k = Some f"
  obtains l n i where "code ! k = LoadLocal l" "code ! (k + 1) = GetField n i" "f = LoadLocalGetField l n i"
  using assms unfolding window9_def
  by (cases "code ! k"; simp; cases "code ! Suc k"; simp split: if_splits)

lemma stands_at_window:
  assumes related: "fused_from cs raw code" and raw: "plain_ops raw"
  shows "k + 2 < length code \<Longrightarrow> window1 cs targets code k = Some f \<Longrightarrow> stands_at cs f raw k"
    and "k + 3 < length code \<Longrightarrow> window2 targets code k = Some f \<Longrightarrow> stands_at cs f raw k"
    and "k + 2 < length code \<Longrightarrow> window3 targets code k = Some f \<Longrightarrow> stands_at cs f raw k"
    and "k + 2 < length code \<Longrightarrow> window4 targets code k = Some f \<Longrightarrow> stands_at cs f raw k"
    and "k + 3 < length code \<Longrightarrow> window5 cs targets code k = Some f \<Longrightarrow> stands_at cs f raw k"
    and "k + 2 < length code \<Longrightarrow> window6 targets code k = Some f \<Longrightarrow> stands_at cs f raw k"
    and "k + 2 < length code \<Longrightarrow> window7 targets code k = Some f \<Longrightarrow> stands_at cs f raw k"
    and "k + 1 < length code \<Longrightarrow> window9 targets code k = Some f \<Longrightarrow> stands_at cs f raw k"
proof -
  have len: "length raw = length code"
    using related by (simp add: fused_from_def)
  note same = fused_from_raw(2) [OF related raw] and fused = fused_from_raw(1) [OF related raw]
  note unfold = stands_at_def expansion_def const_ok_def less_Suc_eq len
  show "stands_at cs f raw k" if "k + 2 < length code" "window1 cs targets code k = Some f"
    using that(2) same [of k] same [of "k + 1"] same [of "k + 2"] that(1)
    by (elim window1_cases) (simp add: unfold all_conj_distrib)
  show "stands_at cs f raw k" if "k + 2 < length code" "window3 targets code k = Some f"
    using that(2) same [of k] same [of "k + 1"] same [of "k + 2"] that(1)
    by (elim window3_cases) (simp add: unfold all_conj_distrib)
  show "stands_at cs f raw k" if "k + 2 < length code" "window4 targets code k = Some f"
    using that(2) same [of k] same [of "k + 1"] same [of "k + 2"] that(1)
    by (elim window4_cases disjE conjE) (simp_all add: unfold all_conj_distrib)
  show "stands_at cs f raw k" if "k + 3 < length code" "window5 cs targets code k = Some f"
    using that(2) same [of k] same [of "k + 1"] same [of "k + 2"] same [of "k + 3"] that(1)
    by (elim window5_cases) (simp add: unfold all_conj_distrib numeral_3_eq_3)
  show "stands_at cs f raw k" if "k + 2 < length code" "window7 targets code k = Some f"
    using that(2) same [of k] same [of "k + 1"] same [of "k + 2"] that(1)
    by (elim window7_cases disjE conjE) (simp_all add: unfold all_conj_distrib)
  show "stands_at cs f raw k" if "k + 1 < length code" "window9 targets code k = Some f"
    using that(2) same [of k] same [of "k + 1"] that(1)
    by (elim window9_cases) (simp add: unfold all_conj_distrib)
  show "stands_at cs f raw k" if "k + 3 < length code" "window2 targets code k = Some f"
    using that(2) fused [of k] same [of "k + 3"] that(1)
    by (elim window2_cases) (simp add: unfold all_conj_distrib numeral_3_eq_3)
  show "stands_at cs f raw k" if "k + 2 < length code" "window6 targets code k = Some f"
    using that(2) same [of k] same [of "k + 1"] fused [of "k + 2"] that(1)
    by (elim window6_cases) (simp add: unfold all_conj_distrib numeral_3_eq_3)
qed

lemma peephole_code_from:
  assumes "plain_ops raw"
  shows "fused_from cs raw (peephole_code cs raw)"
  unfolding peephole_code_def apply_peephole_def apply_peephole_slice2_def apply_peephole_slice3_def
    apply_peephole_slice4_def apply_peephole_slice5_def apply_peephole_slice6_def apply_peephole_slice7_def
    apply_peephole_slice9_def
  by (intro fuse_from fused_from_refl; erule (2) stands_at_window [OF _ assms])

end
