(* ===== verification/Bc_PeepholeRun.thy ===== *)
theory Bc_PeepholeRun
  imports Bc_Peephole
begin

text \<open>
  Running a program after the peephole passes gives what running it before them gives, except that
  superinstructions count as one step.
\<close>

section \<open>The code of other functions does not matter to an instruction\<close>

lemmas branch_congs = if_cong option.case_cong Const.case_cong Value.case_cong FusedOp.case_cong sum.case_cong

definition callback :: "Op \<Rightarrow> bool" where
  "callback op' \<longleftrightarrow>
     (case op' of SortByKey _ \<Rightarrow> True | ParallelMap _ \<Rightarrow> True | ListMap _ \<Rightarrow> True | ListFilter _ \<Rightarrow> True
      | ListFold _ \<Rightarrow> True | _ \<Rightarrow> False)"

definition refuse :: "Program \<Rightarrow> Function \<Rightarrow> Function" where
  "refuse P f = f\<lparr>fn_code := peephole_code (pg_constants P) (fn_code f)\<rparr>"

lemma refuse_simps [simp]:
  "fn_name (refuse P f) = fn_name f" "fn_arity (refuse P f) = fn_arity f"
  "fn_locals_count (refuse P f) = fn_locals_count f" "fn_effects (refuse P f) = fn_effects f"
  "fn_body_hash (refuse P f) = fn_body_hash f" "fn_refinements (refuse P f) = fn_refinements f"
  "fn_field_ic_sites (refuse P f) = fn_field_ic_sites f"
  "fn_code (refuse P f) = peephole_code (pg_constants P) (fn_code f)"
  by (simp_all add: refuse_def)

lemma peephole_program_simps [simp]:
  "pg_constants (peephole_program P) = pg_constants P"
  "pg_record_shapes (peephole_program P) = pg_record_shapes P"
  "pg_functions (peephole_program P) = map (refuse P) (pg_functions P)"
  "const_at (peephole_program P) = const_at P" "const_str (peephole_program P) = const_str P"
  "lookup_fn (peephole_program P) = lookup_fn P"
  by (simp_all add: peephole_program_def refuse_def [abs_def] const_at_def [abs_def] const_str_def [abs_def] lookup_fn_def [abs_def])

lemma nth_opt_map [simp]: "nth_opt (map g xs) i = map_option g (nth_opt xs i)"
  by (simp add: nth_opt_def)

lemma orPanic_map [simp]: "orPanic (map_option g m) k = orPanic m (\<lambda>x. k (g x))"
  by (cases m) (simp_all add: orPanic_def)

lemma fn_parts [simp]:
  "call_budget_cost (refuse P f) = call_budget_cost f" "locals_len_of (refuse P f) = locals_len_of f"
  "enter_function (refuse P f) = enter_function f" "memo_key_for E (refuse P f) = memo_key_for E f"
  by (simp_all add: call_budget_cost_def locals_len_of_def enter_function_def [abs_def] memo_key_for_def [abs_def] Let_def cong: branch_congs)

lemma build_fields_code: "build_fields (peephole_program P) shape vs rec = build_fields P shape vs rec"
  by (induction P shape vs rec rule: build_fields.induct) (simp_all split: option.split Const.split)

lemma find_offset_code: "find_offset (peephole_program P) name shape i = find_offset P name shape i"
  by (induction P name shape i rule: find_offset.induct) (simp_all split: option.split Const.split)

lemma records_code [simp]:
  "make_record (peephole_program P) = make_record P"
  "alloc_stack_record (peephole_program P) = alloc_stack_record P"
  "alloc_arena_record (peephole_program P) = alloc_arena_record P"
  "resolve_stack_field (peephole_program P) = resolve_stack_field P"
  by (simp_all add: fun_eq_iff make_record_def alloc_stack_record_def alloc_arena_record_def resolve_stack_field_def
      build_fields_code find_offset_code Let_def cong: branch_congs)

lemma ic_slot_code [simp]: "ic_slot (peephole_program P) = ic_slot P"
  by (auto simp: fun_eq_iff ic_slot_def Let_def)

lemma read_field_code [simp]: "read_field (peephole_program P) = read_field P"
  by (simp add: fun_eq_iff read_field_def read_heap_field_def read_slab_field_def Let_def cong: branch_congs)

lemma cached_read_code [simp]: "cached_read (peephole_program P) = cached_read P"
  by (simp add: fun_eq_iff cached_read_def)

lemma get_field_code [simp]: "get_field (peephole_program P) = get_field P"
  by (simp add: fun_eq_iff get_field_def cong: if_cong)

lemma read_local_code [simp]: "read_local_record_field (peephole_program P) = read_local_record_field P"
  by (simp add: fun_eq_iff read_local_record_field_def)

lemma shape_names_code [simp]: "shape_names (peephole_program P) = shape_names P"
  by (simp add: fun_eq_iff shape_names_def cong: branch_congs)

lemma materialize_code: "materialize d (peephole_program P) slab = materialize d P slab"
  by (induction d) simp_all

lemma effect_parts_code [simp]:
  "str_const (peephole_program P) = str_const P"
  "materialize_arena_handles (peephole_program P) = materialize_arena_handles P"
  by (simp_all add: fun_eq_iff str_const_def materialize_arena_handles_def materialize_code)

lemma effect_code [simp]: "exec_effect_call E (peephole_program P) = exec_effect_call E P"
  by (simp add: fun_eq_iff exec_effect_call_def cong: if_cong)

lemma fused_code [simp]: "exec_fused (peephole_program P) = exec_fused P"
  by (simp add: fun_eq_iff exec_fused_def int_const_def fused_field_def Let_def cong: branch_congs)

lemma calls_code [simp]:
  "exec_call E (peephole_program P) = exec_call E P"
  "exec_tail_call E (peephole_program P) = exec_tail_call E P"
  "exec_call_closure E (peephole_program P) = exec_call_closure E P"
  by (simp_all add: fun_eq_iff exec_call_def exec_tail_call_def exec_call_closure_def Let_def cong: branch_congs)

lemma exec_code:
  assumes "\<not> callback op'"
  shows "exec_op E (peephole_program P) run' b fid pc op' vm = exec_op E P run b fid pc op' vm"
  using assms
  by (cases op') (simp_all add: callback_def exec_op_def test_variant_def make_variant_def make_closure_def)

section \<open>Instructions do not look at the step count\<close>

definition at_steps :: "nat \<Rightarrow> 'h Vm \<Rightarrow> 'h Vm" where
  "at_steps s vm = vm\<lparr>vm_steps := s\<rparr>"

lemma at_steps_select [simp]:
  "vm_frames (at_steps s vm) = vm_frames vm" "vm_stack (at_steps s vm) = vm_stack vm"
  "vm_step_limit (at_steps s vm) = vm_step_limit vm" "vm_steps (at_steps s vm) = s"
  "vm_pure_memo (at_steps s vm) = vm_pure_memo vm" "vm_memo_hits (at_steps s vm) = vm_memo_hits vm"
  "vm_memo_misses (at_steps s vm) = vm_memo_misses vm" "vm_memo_skips (at_steps s vm) = vm_memo_skips vm"
  "vm_memo_fn_state (at_steps s vm) = vm_memo_fn_state vm" "vm_field_ics (at_steps s vm) = vm_field_ics vm"
  "vm_locals (at_steps s vm) = vm_locals vm" "vm_stack_arena (at_steps s vm) = vm_stack_arena vm"
  "vm_stack_record_allocs (at_steps s vm) = vm_stack_record_allocs vm"
  "vm_stack_record_heap_fallbacks (at_steps s vm) = vm_stack_record_heap_fallbacks vm"
  "vm_heap_record_allocs (at_steps s vm) = vm_heap_record_allocs vm"
  "vm_arena_slab (at_steps s vm) = vm_arena_slab vm"
  "vm_arena_scope_starts (at_steps s vm) = vm_arena_scope_starts vm"
  "vm_arena_record_allocs (at_steps s vm) = vm_arena_record_allocs vm"
  "vm_arena_record_heap_fallbacks (at_steps s vm) = vm_arena_record_heap_fallbacks vm"
  "vm_trace (at_steps s vm) = vm_trace vm" "vm_host (at_steps s vm) = vm_host vm"
  by (simp_all add: at_steps_def)

lemma at_steps_update [simp]:
  "(at_steps s vm)\<lparr>vm_frames := a1\<rparr> = at_steps s (vm\<lparr>vm_frames := a1\<rparr>)"
  "(at_steps s vm)\<lparr>vm_stack := a2\<rparr> = at_steps s (vm\<lparr>vm_stack := a2\<rparr>)"
  "(at_steps s vm)\<lparr>vm_pure_memo := a3\<rparr> = at_steps s (vm\<lparr>vm_pure_memo := a3\<rparr>)"
  "(at_steps s vm)\<lparr>vm_memo_hits := a4\<rparr> = at_steps s (vm\<lparr>vm_memo_hits := a4\<rparr>)"
  "(at_steps s vm)\<lparr>vm_memo_misses := a5\<rparr> = at_steps s (vm\<lparr>vm_memo_misses := a5\<rparr>)"
  "(at_steps s vm)\<lparr>vm_memo_skips := a6\<rparr> = at_steps s (vm\<lparr>vm_memo_skips := a6\<rparr>)"
  "(at_steps s vm)\<lparr>vm_memo_fn_state := a7\<rparr> = at_steps s (vm\<lparr>vm_memo_fn_state := a7\<rparr>)"
  "(at_steps s vm)\<lparr>vm_field_ics := a8\<rparr> = at_steps s (vm\<lparr>vm_field_ics := a8\<rparr>)"
  "(at_steps s vm)\<lparr>vm_locals := a9\<rparr> = at_steps s (vm\<lparr>vm_locals := a9\<rparr>)"
  "(at_steps s vm)\<lparr>vm_stack_arena := b1\<rparr> = at_steps s (vm\<lparr>vm_stack_arena := b1\<rparr>)"
  "(at_steps s vm)\<lparr>vm_stack_record_allocs := b2\<rparr> = at_steps s (vm\<lparr>vm_stack_record_allocs := b2\<rparr>)"
  "(at_steps s vm)\<lparr>vm_stack_record_heap_fallbacks := b3\<rparr> = at_steps s (vm\<lparr>vm_stack_record_heap_fallbacks := b3\<rparr>)"
  "(at_steps s vm)\<lparr>vm_heap_record_allocs := b4\<rparr> = at_steps s (vm\<lparr>vm_heap_record_allocs := b4\<rparr>)"
  "(at_steps s vm)\<lparr>vm_arena_slab := b5\<rparr> = at_steps s (vm\<lparr>vm_arena_slab := b5\<rparr>)"
  "(at_steps s vm)\<lparr>vm_arena_record_allocs := b6\<rparr> = at_steps s (vm\<lparr>vm_arena_record_allocs := b6\<rparr>)"
  "(at_steps s vm)\<lparr>vm_arena_record_heap_fallbacks := b7\<rparr> = at_steps s (vm\<lparr>vm_arena_record_heap_fallbacks := b7\<rparr>)"
  "(at_steps s vm)\<lparr>vm_trace := b8\<rparr> = at_steps s (vm\<lparr>vm_trace := b8\<rparr>)"
  "(at_steps s vm)\<lparr>vm_host := b9\<rparr> = at_steps s (vm\<lparr>vm_host := b9\<rparr>)"
  by (simp_all add: at_steps_def)

lemma at_steps_ops [simp]:
  "push v (at_steps s vm) = at_steps s (push v vm)" "emit e (at_steps s vm) = at_steps s (emit e vm)"
  "set_pc pc (at_steps s vm) = at_steps s (set_pc pc vm)" "top_frame (at_steps s vm) = top_frame vm"
  "local_at (at_steps s vm) i = local_at vm i" "local_int (at_steps s vm) i = local_int vm i"
  "set_local i v (at_steps s vm) = map_option (at_steps s) (set_local i v vm)"
  "memo_hit fid (at_steps s vm) = at_steps s (memo_hit fid vm)"
  "memo_miss fid (at_steps s vm) = at_steps s (memo_miss fid vm)"
  "read_field P (at_steps s vm) = read_field P vm"
  "ic_slot P fid sid (at_steps s vm) = map_option (map_prod id (at_steps s)) (ic_slot P fid sid vm)"
  "ic_install fid sid c (at_steps s vm) = at_steps s (ic_install fid sid c vm)"
  "materialize_arena_handles P (at_steps s vm) = materialize_arena_handles P vm"
  "frame_for (at_steps s vm) = frame_for vm"
  "memo_key_for E f fid args (at_steps s vm) = map_option (map_prod id (at_steps s)) (memo_key_for E f fid args vm)"
  "enter_function f fid args kind key (at_steps s vm) = map_sum id (at_steps s) (enter_function f fid args kind key vm)"
  by (auto simp: push_def emit_def set_pc_def top_frame_def local_at_def local_int_def set_local_def memo_hit_def
      memo_miss_def memo_probe_def read_field_def ic_slot_def ic_install_def materialize_arena_handles_def frame_for_def
      memo_key_for_def enter_function_def push_frame_def Let_def fun_eq_iff option.map_comp comp_def
      split: list.split option.split Value.split)

definition restep :: "nat \<Rightarrow> 'h step_result \<Rightarrow> 'h step_result" where
  "restep s r = (case r of Next vm \<Rightarrow> Next (at_steps s vm) | Done vm v \<Rightarrow> Done (at_steps s vm) v | Fail e \<Rightarrow> Fail e | NoFuel \<Rightarrow> NoFuel)"

lemma restep_simps [simp]:
  "restep s (Next vm) = Next (at_steps s vm)" "restep s (Done vm v) = Done (at_steps s vm) v"
  "restep s (Fail e) = Fail e" "restep s NoFuel = NoFuel"
  by (simp_all add: restep_def)

lemma restep_pop: "(\<And>v vm. k v (at_steps s vm) = restep s (k v vm)) \<Longrightarrow> pop (at_steps s vm) k = restep s (pop vm k)"
  by (simp add: pop_def split: list.split)

lemma restep_pop_n: "(\<And>v vm. k v (at_steps s vm) = restep s (k v vm)) \<Longrightarrow> pop_n n (at_steps s vm) k = restep s (pop_n n vm k)"
  by (simp add: pop_n_def)

lemma restep_with_args: "(\<And>v vm. k v (at_steps s vm) = restep s (k v vm)) \<Longrightarrow> with_args n (at_steps s vm) k = restep s (with_args n vm k)"
  by (simp add: with_args_def)

lemma restep_note_budget: "(\<And>vm. k (at_steps s vm) = restep s (k vm)) \<Longrightarrow> note_budget E c (at_steps s vm) k = restep s (note_budget E c vm k)"
  by (simp add: note_budget_def split: prod.split sum.split)

lemma restep_orPanic: "(\<And>x. k' x = restep s (k x)) \<Longrightarrow> orPanic m k' = restep s (orPanic m k)"
  by (cases m) (simp_all add: orPanic_def)

lemma restep_orPanic_map: "(\<And>x. k' (g x) = restep s (k x)) \<Longrightarrow> orPanic (map_option g m) k' = restep s (orPanic m k)"
  by (cases m) (simp_all add: orPanic_def)

lemma restep_orFail: "(\<And>x. k' x = restep s (k x)) \<Longrightarrow> orFail m k' = restep s (orFail m k)"
  by (cases m) (simp_all add: orFail_def)

lemma restep_orFail_map: "(\<And>x. k' (g x) = restep s (k x)) \<Longrightarrow> orFail (map_sum id g m) k' = restep s (orFail m k)"
  by (cases m) (simp_all add: orFail_def)

lemmas restep_intros = restep_pop restep_pop_n restep_with_args restep_note_budget restep_orPanic restep_orPanic_map
  restep_orFail restep_orFail_map

lemma restep_arith [simp]:
  "bin_int f (at_steps s vm) = restep s (bin_int f vm)"
  "bin_int_divmod m (at_steps s vm) = restep s (bin_int_divmod m vm)"
  "num_divmod F m (at_steps s vm) = restep s (num_divmod F m vm)"
  "bin_float g (at_steps s vm) = restep s (bin_float g vm)"
  "bin_num i h (at_steps s vm) = restep s (bin_num i h vm)"
  "bin_ord i h k (at_steps s vm) = restep s (bin_ord i h k vm)"
  "bin_eq F (at_steps s vm) = restep s (bin_eq F vm)"
  "bin_bool b (at_steps s vm) = restep s (bin_bool b vm)"
  "bin_str l (at_steps s vm) = restep s (bin_str l vm)"
  by (auto simp: bin_int_def bin_int_divmod_def num_divmod_def bin_float_def bin_num_def bin_ord_def bin_eq_def
      bin_bool_def bin_str_def intro!: restep_intros split: Value.split)

lemma restep_prim [simp]: "exec_prim F p (at_steps s vm) = restep s (exec_prim F p vm)"
  by (cases p) (auto simp: exec_prim_def intro!: restep_intros split: Value.split)

lemma restep_list_elem [simp]: "list_elem v i (at_steps s vm) = restep s (list_elem v i vm)"
  by (auto simp: list_elem_def split: Value.split option.split)

lemma restep_values [simp]:
  "get_elem i (at_steps s vm) = restep s (get_elem i vm)"
  "get_variant (at_steps s vm) = restep s (get_variant vm)"
  "get_variant_arg i (at_steps s vm) = restep s (get_variant_arg i vm)"
  "get_list_len (at_steps s vm) = restep s (get_list_len vm)"
  "make_variant P i n (at_steps s vm) = restep s (make_variant P i n vm)"
  "make_closure P i n (at_steps s vm) = restep s (make_closure P i n vm)"
  "make_tuple n (at_steps s vm) = restep s (make_tuple n vm)"
  "list_append (at_steps s vm) = restep s (list_append vm)"
  "get_list_elem_dyn (at_steps s vm) = restep s (get_list_elem_dyn vm)"
  "test_variant P i (at_steps s vm) = restep s (test_variant P i vm)"
  by (auto simp: get_elem_def get_variant_def get_variant_arg_def get_list_len_def make_variant_def
      make_closure_def make_tuple_def list_append_def get_list_elem_dyn_def test_variant_def intro!: restep_intros split: Value.split option.split Const.split)

lemma restep_records [simp]:
  "make_record P i n (at_steps s vm) = restep s (make_record P i n vm)"
  "alloc_stack_record P i n (at_steps s vm) = restep s (alloc_stack_record P i n vm)"
  "alloc_arena_record P i n (at_steps s vm) = restep s (alloc_arena_record P i n vm)"
  "alloc_stack_tuple n (at_steps s vm) = restep s (alloc_stack_tuple n vm)"
  "alloc_arena_tuple n (at_steps s vm) = restep s (alloc_arena_tuple n vm)"
proof -
  show heap: "make_record P i n (at_steps s vm) = restep s (make_record P i n vm)" for vm
    by (auto simp: make_record_def intro!: restep_intros)
  show "alloc_stack_record P i n (at_steps s vm) = restep s (alloc_stack_record P i n vm)"
    "alloc_arena_record P i n (at_steps s vm) = restep s (alloc_arena_record P i n vm)"
    "alloc_stack_tuple n (at_steps s vm) = restep s (alloc_stack_tuple n vm)"
    "alloc_arena_tuple n (at_steps s vm) = restep s (alloc_arena_tuple n vm)"
    by (auto simp: alloc_stack_record_def alloc_arena_record_def alloc_stack_tuple_def alloc_arena_tuple_def
        Let_def heap intro!: restep_intros)
qed

lemma restep_cached:
  assumes "\<And>v vm. k v (at_steps s vm) = restep s (k v vm)"
  shows "cached_read P fid sid v i (at_steps s vm) k = restep s (cached_read P fid sid v i vm k)"
  by (auto simp: cached_read_def assms intro!: restep_intros split: prod.split option.split)

lemma restep_read_local:
  assumes "\<And>v vm. k v (at_steps s vm) = restep s (k v vm)"
  shows "read_local_record_field P l fid i sid (at_steps s vm) k = restep s (read_local_record_field P l fid i sid vm k)"
  by (auto simp: read_local_record_field_def intro!: restep_intros restep_cached assms)

lemma restep_fields [simp]:
  "get_field P fid i sid (at_steps s vm) = restep s (get_field P fid i sid vm)"
  "fused_field P pc fid l i sid f (at_steps s vm) = restep s (fused_field P pc fid l i sid f vm)"
  by (auto simp: get_field_def fused_field_def intro!: restep_intros restep_cached restep_read_local)

lemma restep_fused [simp]: "exec_fused P fid pc f (at_steps s vm) = restep s (exec_fused P fid pc f vm)"
  by (cases f) (auto simp: exec_fused_def intro!: restep_intros restep_read_local)

lemma restep_effect [simp]: "exec_effect_call E P i j n l (at_steps s vm) = restep s (exec_effect_call E P i j n l vm)"
proof -
  have str: "(\<And>x. k' x = restep s (k x)) \<Longrightarrow> str_const P i k' = restep s (str_const P i k)" for i k k'
    by (auto simp: str_const_def intro!: restep_intros split: Const.split)
  show ?thesis
    by (auto simp: exec_effect_call_def Let_def intro!: restep_intros str split: prod.split sum.split option.split)
qed

lemma restep_calls [simp]:
  "exec_call E P fid n i (at_steps s vm) = restep s (exec_call E P fid n i vm)"
  "exec_tail_call E P fid n i (at_steps s vm) = restep s (exec_tail_call E P fid n i vm)"
  "exec_call_closure E P n i (at_steps s vm) = restep s (exec_call_closure E P n i vm)"
  "exec_return b (at_steps s vm) = restep s (exec_return b vm)"
  by (auto simp: exec_call_def exec_tail_call_def exec_call_closure_def exec_return_def Let_def intro!: restep_intros split: prod.split option.split Value.split list.split FrameKind.split)

lemma exec_steady:
  assumes "\<not> callback op'"
  shows "exec_op E P run b fid pc op' (at_steps s vm) = restep s (exec_op E P run b fid pc op' vm)"
  using assms by (cases op') (auto simp: callback_def exec_op_def jump_on_def intro!: restep_intros)

section \<open>A window and its superinstruction\<close>

fun exec_seq :: "'h env \<Rightarrow> Program \<Rightarrow> nat \<Rightarrow> nat \<Rightarrow> Op list \<Rightarrow> 'h Vm \<Rightarrow> 'h step_result" where
  "exec_seq E P fid k [] vm = Next vm"
| "exec_seq E P fid k (op' # ops) vm =
     (case exec_op E P (\<lambda>_ _. None) 0 fid k op' (set_pc (k + 1) vm) of
        Next vm' \<Rightarrow> exec_seq E P fid (Suc k) ops vm'
      | r \<Rightarrow> r)"

text \<open>
  The failures that a superinstruction may report in another order: it looks at its operand and its
  cache slot before it looks at the record.
\<close>

definition shadows :: "failure \<Rightarrow> failure \<Rightarrow> bool" where
  "shadows e e' \<longleftrightarrow> e' = e \<or>
     e \<in> {VmErr TypeMismatch, HostPanic} \<and> e' \<in> {HostPanic, VmErr StackUnderflow}"

lemma shadows_refl [simp]: "shadows e e"
  by (simp add: shadows_def)

definition agrees :: "'h step_result \<Rightarrow> 'h step_result \<Rightarrow> bool" where
  "agrees r r' \<longleftrightarrow> r' = r \<or> (\<exists>e e'. r = Fail e \<and> r' = Fail e' \<and> shadows e e')"

lemma agrees_refl [simp]: "agrees r r"
  by (simp add: agrees_def)

lemma set_pc_twice [simp]: "set_pc a (set_pc b vm) = set_pc a vm"
  by (simp add: set_pc_def split: list.split)

lemma set_pc_push [simp]: "set_pc a (push v vm) = push v (set_pc a vm)"
  by (simp add: set_pc_def push_def split: list.split)

lemma local_at_set_pc [simp]: "local_at (set_pc a vm) i = local_at vm i" "local_int (set_pc a vm) i = local_int vm i"
  by (auto simp: local_int_def local_at_def top_frame_def set_pc_def split: list.split)

lemma local_at_push [simp]: "local_at (push v vm) i = local_at vm i"
  by (simp add: local_at_def top_frame_def push_def)

lemma pop_push [simp]: "pop (push v vm) k = k v vm"
  by (simp add: pop_def push_def)

lemma set_local_set_pc [simp]: "set_local i v (set_pc a vm) = map_option (set_pc a) (set_local i v vm)"
  by (auto simp: set_local_def top_frame_def set_pc_def Let_def split: list.split)

lemma set_local_local: "set_local i v vm = Some vm' \<Longrightarrow> local_at vm' i = Some v"
  by (auto simp: set_local_def local_at_def top_frame_def nth_opt_def Let_def split: if_splits)

lemma is_int_const_cases:
  "is_int_const (pg_constants P) c \<Longrightarrow> \<exists>n. const_at P c = Some (ConstInt n)"
  by (auto simp: is_int_const_def const_at_def split: option.splits Const.splits)

lemma as_value [simp]: "as_int (VInt n) = Some n" "as_bool (VBool b) = Some b"
  by (simp_all add: as_int_def as_bool_def)

lemmas window_simps = eval_nat_numeral exec_op_def exec_prim_def exec_fused_def bin_int_def jump_on_def int_const_def local_int_def
  orPanic_def orFail_def expansion_def

lemma agrees_int_window:
  assumes "is_int_const (pg_constants P) c"
  shows "agrees (exec_seq E P fid k [LoadLocal l, PushConst c, Prim IntAdd] vm)
      (exec_fused P fid k (LoadLocalAddIntConst l c) (set_pc (k + 1) vm))"
    and "agrees (exec_seq E P fid k [LoadLocal l, PushConst c, Prim IntAdd, StoreLocal d] vm)
      (exec_fused P fid k (LoadLocalAddIntConstStoreLocal l c d) (set_pc (k + 1) vm))"
    and "agrees (exec_seq E P fid k [LoadLocal l, PushConst c, Prim IntEq, JumpIfNot off] vm)
      (exec_fused P fid k (LoadLocalEqIntConstJumpIfNot l c off) (set_pc (k + 1) vm))"
proof -
  obtain n where n: "const_at P c = Some (ConstInt n)"
    using is_int_const_cases [OF assms] by blast
  show "agrees (exec_seq E P fid k [LoadLocal l, PushConst c, Prim IntAdd] vm)
      (exec_fused P fid k (LoadLocalAddIntConst l c) (set_pc (k + 1) vm))"
    using n by (cases "local_at vm l"; cases "as_int (the (local_at vm l))") (simp_all add: window_simps)
  show "agrees (exec_seq E P fid k [LoadLocal l, PushConst c, Prim IntAdd, StoreLocal d] vm)
      (exec_fused P fid k (LoadLocalAddIntConstStoreLocal l c d) (set_pc (k + 1) vm))"
    using n by (cases "local_at vm l"; cases "as_int (the (local_at vm l))")
      (simp_all add: window_simps split: option.split)
  show "agrees (exec_seq E P fid k [LoadLocal l, PushConst c, Prim IntEq, JumpIfNot off] vm)
      (exec_fused P fid k (LoadLocalEqIntConstJumpIfNot l c off) (set_pc (k + 1) vm))"
    using n by (cases "local_at vm l"; cases "as_int (the (local_at vm l))")
      (simp_all add: window_simps)
qed

lemma agrees_local_window:
  "agrees (exec_seq E P fid k [LoadLocal l, LoadLocal r, Prim IntAdd] vm)
      (exec_fused P fid k (LoadLocalAddLocal l r) (set_pc (k + 1) vm))"
  "agrees (exec_seq E P fid k [LoadLocal l, LoadLocal r, Prim IntSub] vm)
      (exec_fused P fid k (LoadLocalSubLocal l r) (set_pc (k + 1) vm))"
  "agrees (exec_seq E P fid k [LoadLocal l, LoadLocal r, Prim IntMul] vm)
      (exec_fused P fid k (LoadLocalMulLocal l r) (set_pc (k + 1) vm))"
  by (cases "local_at vm l"; cases "local_at vm r"; cases "as_int (the (local_at vm l))";
      cases "as_int (the (local_at vm r))"; simp add: window_simps)+

lemma agrees_match_window:
  assumes "is_int_const (pg_constants P) c"
  shows "agrees (exec_seq E P fid k [LoadLocal s, StoreLocal d, LoadLocal d, PushConst c, Prim IntEq, JumpIfNot off] vm)
      (exec_fused P fid k (LoadLocalStoreEqIntConstJumpIfNot s d c off) (set_pc (k + 1) vm))"
proof -
  obtain n where n: "const_at P c = Some (ConstInt n)"
    using is_int_const_cases [OF assms] by blast
  show ?thesis
  proof (cases "local_at vm s")
    case (Some v)
    have int: "as_int v = Some a \<Longrightarrow> v = VInt a" for a
      by (cases v) (simp_all add: as_int_def)
    show ?thesis
      using n Some set_local_local [of d v vm] int
      by (cases "set_local d v vm"; cases "as_int v") (auto simp: window_simps)
  qed (simp add: window_simps)
qed

text \<open>A cached read as a function of the caches and the slabs: the value and the caches after it.\<close>

definition field_of ::
  "Program \<Rightarrow> nat \<Rightarrow> nat \<Rightarrow> Value \<Rightarrow> nat \<Rightarrow> 'h Vm \<Rightarrow> failure + Value \<times> (nat \<times> nat) option list list" where
  "field_of P fid sid v i vm =
     (case ic_slot P fid sid vm of
        None \<Rightarrow> Inl HostPanic
      | Some (c, vm1) \<Rightarrow>
          let ics = vm_field_ics vm1
          in map_sum id (\<lambda>(w, e). (w, case e of Some en \<Rightarrow> ics[fid := (ics ! fid)[sid := Some en]] | None \<Rightarrow> ics))
            (read_field P vm1 c v i))"

lemma cached_read_field:
  "cached_read P fid sid v i vm k =
     (case field_of P fid sid v i vm of Inl e \<Rightarrow> Fail e | Inr (w, ics) \<Rightarrow> k w (vm\<lparr>vm_field_ics := ics\<rparr>))"
proof (cases "ic_slot P fid sid vm")
  case (Some r)
  then obtain c ics where r: "r = (c, vm\<lparr>vm_field_ics := ics\<rparr>)"
    by (auto simp: ic_slot_def Let_def nth_opt_def simp del: list_update_id split: if_splits)
  show ?thesis
    using Some r
    by (cases "read_field P (vm\<lparr>vm_field_ics := ics\<rparr>) c v i")
      (auto simp: cached_read_def field_of_def orPanic_def orFail_def ic_install_def Let_def split: option.split)
qed (simp add: cached_read_def field_of_def orPanic_def)

lemma field_of_cong:
  assumes "vm_field_ics vm' = vm_field_ics vm" "vm_stack_arena vm' = vm_stack_arena vm" "vm_arena_slab vm' = vm_arena_slab vm"
  shows "field_of P fid sid v i vm' = field_of P fid sid v i vm"
  using assms
  by (auto simp: field_of_def ic_slot_def read_field_def Let_def nth_opt_def cong: option.case_cong
      split: Value.split)

lemma field_of_parts [simp]:
  "field_of P fid sid v i (set_pc pc vm) = field_of P fid sid v i vm"
  "field_of P fid sid v i (push w vm) = field_of P fid sid v i vm"
  "field_of P fid sid v i (vm\<lparr>vm_stack := st\<rparr>) = field_of P fid sid v i vm"
  by (auto intro!: field_of_cong simp: set_pc_def push_def split: list.split)

lemma field_of_error:
  "field_of P fid sid v i vm = Inl e \<Longrightarrow> e = HostPanic \<or> e = VmErr TypeMismatch"
  "\<not> is_record v \<Longrightarrow> \<exists>e. field_of P fid sid v i vm = Inl e"
  "ic_slot P fid sid vm = None \<Longrightarrow> field_of P fid sid v i vm = Inl HostPanic"
proof -
  have "find_offset P name shape j = Inl e \<Longrightarrow> e = HostPanic \<or> e = VmErr TypeMismatch" for name shape j
    by (induction P name shape j rule: find_offset.induct) (auto split: option.splits Const.splits if_splits)
  then have "read_field P vm c v i = Inl e \<Longrightarrow> e = HostPanic \<or> e = VmErr TypeMismatch" for c and vm :: "'a Vm"
    by (auto simp: read_field_def read_heap_field_def read_slab_field_def resolve_stack_field_def Let_def
        split: Value.splits option.splits Const.splits if_splits prod.splits sum.splits)
  then show "field_of P fid sid v i vm = Inl e \<Longrightarrow> e = HostPanic \<or> e = VmErr TypeMismatch" for vm :: "'a Vm"
    by (auto simp: field_of_def Let_def map_sum_def split: option.splits sum.splits)
  show "\<exists>e. field_of P fid sid v i vm = Inl e" if "\<not> is_record v" for vm :: "'b Vm"
    using that by (auto simp: field_of_def Let_def read_field_def is_record_def split: option.split Value.splits)
  show "ic_slot P fid sid vm = None \<Longrightarrow> field_of P fid sid v i vm = Inl HostPanic" for vm :: "'c Vm"
    by (simp add: field_of_def)
qed

lemma ic_slot_set_pc [simp]: "ic_slot P fid sid (set_pc pc vm) = None \<longleftrightarrow> ic_slot P fid sid vm = None"
  by (auto simp: ic_slot_def Let_def set_pc_def split: list.split)

lemma set_pc_ics [simp]:
  "(set_pc a vm)\<lparr>vm_field_ics := ics\<rparr> = set_pc a (vm\<lparr>vm_field_ics := ics\<rparr>)"
  "(push v vm)\<lparr>vm_field_ics := ics\<rparr> = push v (vm\<lparr>vm_field_ics := ics\<rparr>)"
  "(set_pc a vm)\<lparr>vm_stack := st\<rparr> = set_pc a (vm\<lparr>vm_stack := st\<rparr>)"
  by (simp_all add: set_pc_def push_def split: list.split)

lemma stack_parts [simp]:
  "local_at (vm\<lparr>vm_stack := st\<rparr>) l = local_at vm l"
  "ic_slot P fid sid (vm\<lparr>vm_stack := st\<rparr>) = None \<longleftrightarrow> ic_slot P fid sid vm = None"
  by (auto simp: local_at_def top_frame_def ic_slot_def Let_def)

lemma read_local_field:
  "read_local_record_field P l fid i sid vm k =
     (if ic_slot P fid sid vm = None then Fail HostPanic
      else case local_at vm l of
          None \<Rightarrow> Fail HostPanic
        | Some v \<Rightarrow>
            (case field_of P fid sid v i vm of Inl e \<Rightarrow> Fail e | Inr (w, ics) \<Rightarrow> k w (vm\<lparr>vm_field_ics := ics\<rparr>)))"
  by (auto simp: read_local_record_field_def orPanic_def cached_read_field split: option.split)

lemma agrees_field_window:
  "agrees (exec_seq E P fid k [LoadLocal l, GetField i sid] vm)
      (exec_fused P fid k (LoadLocalGetField l i sid) (set_pc (k + 1) vm))"
proof (cases "local_at vm l")
  case None
  then show ?thesis
    by (simp add: window_simps read_local_field)
next
  case (Some v)
  show ?thesis
    using Some field_of_error [where P = P and fid = fid and sid = sid and v = v and i = i and vm = vm]
    by (cases "is_record v"; cases "field_of P fid sid v i vm"; cases "ic_slot P fid sid vm")
      (auto simp: window_simps read_local_field get_field_def cached_read_field agrees_def shadows_def)
qed

lemma pop_stack:
  "vm_stack vm = [] \<Longrightarrow> pop vm k = Fail (VmErr StackUnderflow)"
  "vm_stack vm = v # s \<Longrightarrow> pop vm k = k v (vm\<lparr>vm_stack := s\<rparr>)"
  by (simp_all add: pop_def)

lemma agrees_fused_field:
  fixes E :: "'h env"
  assumes "\<And>vm :: 'h Vm. exec_prim (e_fpu E) p vm = bin_int (\<lambda>a b. VInt (g a b)) vm"
  shows "agrees (exec_seq E P fid k [LoadLocal l, GetField i sid, Prim p] vm)
      (fused_field P k fid l i sid g (set_pc (k + 1) vm))"
proof (cases "local_at vm l")
  case None
  then show ?thesis
    by (cases "vm_stack vm")
      (auto simp: eval_nat_numeral exec_op_def orPanic_def fused_field_def read_local_field pop_stack
        agrees_def shadows_def split: option.split)
next
  case (Some v)
  note unfold = eval_nat_numeral exec_op_def orPanic_def fused_field_def read_local_field get_field_def
    cached_read_field bin_int_def pop_stack assms agrees_def shadows_def
  have upd: "vm\<lparr>vm_stack := st, vm_field_ics := ics\<rparr> = vm\<lparr>vm_field_ics := ics, vm_stack := st\<rparr>" for st ics
    by simp
  show ?thesis
  proof (cases "field_of P fid sid v i vm")
    case (Inl e)
    then show ?thesis
      using Some field_of_error(1) [OF Inl]
      by (cases "vm_stack vm"; cases "is_record v"; cases "ic_slot P fid sid vm") (auto simp: unfold split: option.split)
  next
    case (Inr r)
    then obtain w ics where r: "field_of P fid sid v i vm = Inr (w, ics)"
      by (cases r) auto
    have "is_record v" "ic_slot P fid sid vm \<noteq> None"
      using r field_of_error(2) [of v P fid sid i vm] field_of_error(3) [of P fid sid vm v i]
      by (cases "ic_slot P fid sid vm"; force)+
    then show ?thesis
      using Some r
      by (cases "as_int w"; cases "vm_stack vm"; cases "as_int (hd (vm_stack vm))") (auto simp: unfold upd)
  qed
qed

lemma exec_fused_field:
  "exec_fused P fid k (LoadLocalGetFieldAdd l i sid) vm = fused_field P k fid l i sid (+) vm"
  "exec_fused P fid k (LoadLocalGetFieldSub l i sid) vm = fused_field P k fid l i sid (-) vm"
  "exec_fused P fid k (LoadLocalGetFieldMul l i sid) vm = fused_field P k fid l i sid (*) vm"
  by (simp_all add: exec_fused_def)

lemma agrees_arith_field:
  "agrees (exec_seq E P fid k [LoadLocal l, GetField i sid, Prim IntAdd] vm)
      (fused_field P k fid l i sid (+) (set_pc (k + 1) vm))"
  "agrees (exec_seq E P fid k [LoadLocal l, GetField i sid, Prim IntSub] vm)
      (fused_field P k fid l i sid (-) (set_pc (k + 1) vm))"
  "agrees (exec_seq E P fid k [LoadLocal l, GetField i sid, Prim IntMul] vm)
      (fused_field P k fid l i sid (*) (set_pc (k + 1) vm))"
  by (rule agrees_fused_field, simp add: exec_prim_def)+

lemma agrees_expansion:
  assumes "const_ok (pg_constants P) f"
  shows "agrees (exec_seq E P fid k (expansion f) vm) (exec_fused P fid k f (set_pc (k + 1) vm))"
  by (insert assms, cases f; simp only: expansion_def const_ok_def FusedOp.case exec_fused_field;
      intro agrees_int_window agrees_local_window agrees_match_window agrees_field_window agrees_arith_field; assumption)

end
