(* ===== verification/Bc_VmSafe.thy ===== *)
theory Bc_VmSafe
  imports Bc_VmFuel Bc_Verify "HOL-Library.Code_Target_Nat"
begin

text \<open>
  What the machine promises to its callers: stack discipline, termination within the step limit, and
  how far the bytecode verifier goes towards both. Sample programs are run by the model itself;
  natural numbers are evaluated in binary for that.
\<close>

section \<open>Sample programs\<close>

definition sample_env :: "unit env" where
  "sample_env =
     \<lparr>e_fpu = sample_fpu, e_hasher = (\<lambda>_. 0), e_dispatch = (\<lambda>h _ _ _. (Inr VUnit, h)),
      e_note_call_budget = (\<lambda>h _. (Inr (), h)), e_take_exit = (\<lambda>h. (None, h)),
      e_override_effect = (\<lambda>h _. (None, h)), e_spawn_for_worker = (\<lambda>_. None), e_deny_all = (),
      e_enter_scope = (\<lambda>h. (0, h)), e_exit_scope = (\<lambda>h _. h), e_par_max_concurrency = 1\<rparr>"

definition program_of :: "Const list \<Rightarrow> Function list \<Rightarrow> Program" where
  "program_of cs fs =
     \<lparr>pg_constants = cs, pg_functions = fs, pg_function_names = zip (map fn_name fs) [0..<length fs],
      pg_module_aliases = [], pg_entry = None, pg_record_shapes = []\<rparr>"

definition double_program :: Program where
  "double_program = program_of [NodeId ''n'']
     [plain_function ''main'' 1 1 [LoadLocal 0, Call 1 1 0, Return],
      plain_function ''double'' 1 1 [LoadLocal 0, LoadLocal 0, Prim IntAdd, Return]]"

lemma double_balanced: "balanced_program double_program"
proof -
  have "well_stacked [LoadLocal 0, Call 1 1 0, Return] [Some 0, Some 1, Some 1]"
    "well_stacked [LoadLocal 0, LoadLocal 0, Prim IntAdd, Return] [Some 0, Some 1, Some 2, Some 1]"
    by code_simp+
  then show ?thesis
    by (auto simp: balanced_program_def double_program_def program_of_def plain_function_def)
qed


interpretation ml: metered_loop E P "run_to n E P" n for E :: "'h env" and P n
  by (rule run_to_metered)

section \<open>Stack discipline\<close>

text \<open>
  C23. Stack discipline: when every function of a program has a depth table, no call, with any
  arguments, effect handler and fuel, takes an operand or an argument that is not there or fetches an
  instruction outside the code; and a call that returns leaves the frames, the operand stack, the
  locals and the stack arena exactly as they were, keeps the step limit, and has taken no more than
  one step past it.
\<close>

theorem vm_stack_discipline:
  assumes "balanced_program P"
  shows "case call E P (run_to n E P) vm name args of
      None \<Rightarrow> True
    | Some (Inl e) \<Rightarrow> e \<noteq> VmErr StackUnderflow \<and> e \<noteq> PcRange \<and> e \<noteq> ArgsRange
    | Some (Inr (vm', _)) \<Rightarrow>
        vm_frames vm' = vm_frames vm \<and> vm_stack vm' = vm_stack vm \<and> vm_locals vm' = vm_locals vm \<and>
        vm_stack_arena vm' = vm_stack_arena vm \<and> vm_step_limit vm' = vm_step_limit vm \<and>
        vm_steps vm \<le> vm_steps vm' \<and>
        (vm_steps vm \<le> Suc (vm_step_limit vm) \<longrightarrow> vm_steps vm' \<le> Suc (vm_step_limit vm))"
proof -
  have "disciplined (unchanged vm) (call E P (run_to n E P) vm name args)"
    using rt.invoke_unchanged [OF assms] by (auto simp: call_def split: option.split)
  then show ?thesis
    by (auto simp: disciplined_def bad_def unchanged_def metered_def split: option.splits sum.splits)
qed


theorem vm_stack_discipline_witness:
  "balanced_program double_program \<and>
   (\<exists>vm'. call sample_env double_program (run_to 20 sample_env double_program)
      (set_step_limit (with_handler double_program ()) 30) ''main'' [VInt 4] = Some (Inr (vm', VInt 8)) \<and>
      vm_frames vm' = [] \<and> vm_stack vm' = [] \<and> vm_steps vm' \<le> 31)"
proof -
  let ?vm = "set_step_limit (with_handler double_program ()) 30"
  let ?r = "call sample_env double_program (run_to 20 sample_env double_program) ?vm ''main'' [VInt 4]"
  have "map_option (map_sum id snd) ?r = Some (Inr (VInt 8))"
    by code_simp
  then obtain z where "?r = Some z" "map_sum id snd z = Inr (VInt 8)"
    by auto
  then obtain vm' where "?r = Some (Inr (vm', VInt 8))"
    by (cases z) auto
  then show ?thesis
    using vm_stack_discipline [OF double_balanced, where E = sample_env and n = 20 and vm = ?vm and name = "''main''"
        and args = "[VInt 4]"] double_balanced
    by (simp add: set_step_limit_def with_handler_def)
qed

section \<open>Termination\<close>


definition loop_program :: Program where
  "loop_program = program_of [] [plain_function ''spin'' 0 0 [Jump (-1)]]"


text \<open>
  C38. Workers escape both limits: a function that maps itself in parallel over a one-element list
  never returns, whatever the step limit and the fuel, because every worker is a new machine with
  its own step count and its own frames.
\<close>

definition spawn_program :: Program where
  "spawn_program = program_of []
     [plain_function ''spawn'' 1 1 [LoadLocal 0, MakeList 1, MakeClosure 0 0, ParallelMap 0, Return]]"

definition spawn_start :: "nat \<Rightarrow> unit Vm" where
  "spawn_start limit = set_step_limit (with_handler spawn_program ()) limit"

definition spawn_vm :: "nat \<Rightarrow> nat \<Rightarrow> Value list \<Rightarrow> unit Vm" where
  "spawn_vm limit pc stack =
     (spawn_start limit)\<lparr>vm_frames := [(frame_for (spawn_start limit) 0 1 EntryFrame None)\<lparr>fr_pc := pc\<rparr>],
        vm_stack := stack, vm_steps := pc, vm_locals := [VUnit]\<rparr>"

lemmas spawn_defs =
  spawn_vm_def spawn_start_def spawn_program_def program_of_def plain_function_def with_handler_def
  set_step_limit_def frame_for_def sample_env_def

lemma spawn_invoke: "invoke sample_env spawn_program run (spawn_start limit) 0 [VUnit] = run (spawn_vm limit 0 []) 0"
  by (simp add: spawn_defs invoke_def nth_opt_def enter_function_def locals_len_of_def push_frame_def
      locals_for_def MAX_CALL_DEPTH_def Let_def)

lemma spawn_steps:
  assumes "3 \<le> limit"
  shows "step sample_env spawn_program run 0 (spawn_vm limit 0 []) = Next (spawn_vm limit 1 [VUnit])"
    and "step sample_env spawn_program run 0 (spawn_vm limit 1 [VUnit]) = Next (spawn_vm limit 2 [VList [VUnit]])"
    and "step sample_env spawn_program run 0 (spawn_vm limit 2 [VList [VUnit]]) =
      Next (spawn_vm limit 3 [VClosure 0 (replicate 16 0) [], VList [VUnit]])"
  using assms
  by (simp_all add: step_def orPanic_def nth_opt_def exec_op_def set_pc_def push_def pop_n_def local_at_def
      top_frame_def make_closure_def spawn_defs)

lemma parallel_one:
  assumes "vm_stack vm = c # VList [x] # s" "is_closure c" "e_par_max_concurrency E = 1"
    and "e_spawn_for_worker E (vm_host vm) = None"
    and "invoke_closure E P run (set_step_limit (with_handler P (e_deny_all E)) (vm_step_limit vm)) c [x] = None"
  shows "parallel_map_op E P run vm = NoFuel"
  using assms by (simp add: parallel_map_op_def list_and_closure_def pop_def Let_def enumerate_eq_zip)

lemma spawn_fork:
  assumes "3 \<le> limit" "run (spawn_vm limit 0 []) 0 = None"
  shows "step sample_env spawn_program run 0 (spawn_vm limit 3 [VClosure 0 h [], VList [VUnit]]) = NoFuel"
proof -
  let ?vm = "spawn_vm limit 3 [VClosure 0 h [], VList [VUnit]]"
  let ?vm' = "set_pc 4 (?vm\<lparr>vm_steps := 4\<rparr>)"
  have vm: "vm_stack ?vm' = [VClosure 0 h [], VList [VUnit]]" "vm_step_limit ?vm' = limit"
    by (simp_all add: spawn_vm_def spawn_start_def set_step_limit_def set_pc_def)
  have fork: "parallel_map_op sample_env spawn_program run ?vm' = NoFuel"
    by (rule parallel_one [OF vm(1)])
      (use assms(2) spawn_invoke vm(2) in \<open>simp_all add: is_closure_def sample_env_def [of] invoke_closure_def spawn_start_def\<close>)
  have "step sample_env spawn_program run 0 ?vm = parallel_map_op sample_env spawn_program run ?vm'"
    using assms(1)
    by (simp add: step_def orPanic_def nth_opt_def exec_op_def spawn_vm_def frame_for_def spawn_start_def
        set_step_limit_def with_handler_def) (simp add: spawn_program_def program_of_def plain_function_def nth_opt_def)
  then show ?thesis
    by (simp add: fork)
qed

lemma spawn_forever: "3 \<le> limit \<Longrightarrow> run_to n sample_env spawn_program (spawn_vm limit 0 []) 0 = None"
proof (induction n rule: less_induct)
  case (less n)
  note steps = spawn_steps [OF less.prems]
  note steps' = steps [unfolded One_nat_def numeral_2_eq_2 numeral_3_eq_3]
  show ?case
  proof (cases "n < 4")
    case True
    then consider "n = 0" | "n = 1" | "n = 2" | "n = 3"
      by linarith
    then show ?thesis
      by cases (simp_all add: steps' numeral_2_eq_2 numeral_3_eq_3)
  next
    case False
    then obtain m where "n = 4 + m"
      using le_Suc_ex not_less by blast
    then have "n = Suc (Suc (Suc (Suc m)))"
      by simp
    then show ?thesis
      using less.IH [of m] less.prems spawn_fork [OF less.prems] by (simp add: steps [unfolded One_nat_def])
  qed
qed

theorem par_map_escapes_limits:
  "call sample_env spawn_program (run_to n sample_env spawn_program)
     (set_step_limit (with_handler spawn_program ()) (limit + 3)) ''spawn'' [VUnit] = None"
proof -
  have "lookup_fn spawn_program ''spawn'' = Some 0"
    by (simp add: spawn_program_def program_of_def lookup_fn_def plain_function_def)
  then show ?thesis
    using spawn_invoke [of _ "limit + 3"] spawn_forever [of "limit + 3" n]
    by (simp add: call_def spawn_start_def)
qed

section \<open>What the verifier gives\<close>

lemma wrap32_add: "wrap32 (wrap32 a + b) = wrap32 (a + b)"
proof -
  have "(a + 2 ^ 31) mod 2 ^ 32 - 2 ^ 31 + b + 2 ^ 31 = (a + 2 ^ 31) mod 2 ^ 32 + b"
    by simp
  then show ?thesis
    unfolding wrap32_def by (simp only: mod_add_left_eq) (simp add: ac_simps)
qed

lemma wrap32_over:
  assumes "2 ^ 31 \<le> x" "x < 2 ^ 32"
  shows "wrap32 x < 0"
proof -
  have "(x + 2 ^ 31) mod 2 ^ 32 = (x + 2 ^ 31 - 2 ^ 32) mod 2 ^ 32"
    by (rule minus_mod_self2 [symmetric])
  also have "\<dots> = x + 2 ^ 31 - 2 ^ 32"
    using assms by (intro mod_pos_pos_trivial) simp_all
  finally show ?thesis
    using assms by (simp add: wrap32_def)
qed

lemma target_jump: "target pc 1 off = jump_target (pc + 1) off"
  by (simp only: target_def jump_target_def i32_def wrap32_add of_nat_add of_nat_1)

definition unfused :: "Op list \<Rightarrow> bool" where
  "unfused code \<longleftrightarrow> list_all (\<lambda>op'. case op' of Fused _ \<Rightarrow> False | _ \<Rightarrow> True) code"

lemma i32_small: "int n < 2 ^ 31 \<Longrightarrow> i32 n = int n"
  by (simp add: i32_def wrap32_id)

lemma pops_to_one_small: "int n < 2 ^ 31 \<Longrightarrow> pops_to_one n = 1 - int n"
  by (simp add: pops_to_one_def i32_small wrap32_id)

lemma stack_delta_pops:
  assumes "case op' of Fused _ \<Rightarrow> False | _ \<Rightarrow> True" "int (op_pops op') < 2 ^ 31" "op_next op' pc \<noteq> []"
  shows "stack_delta op' = int (op_pushes op') - int (op_pops op')"
proof (cases op')
  case (Prim p)
  then show ?thesis
    by (cases p) (simp_all add: stack_delta_def op_pushes_def op_pops_def prim_pops_def prim_delta_def)
next
  case (CallClosure n i)
  then have "i32 n = int n" "wrap32 (int n + 1) = int n + 1" "wrap32 (- (int n + 1) + 1) = - int n"
    using assms(2) by (simp_all add: op_pops_def i32_small wrap32_id)
  then show ?thesis
    using CallClosure by (simp add: stack_delta_def op_pushes_def op_pops_def)
qed (use assms in \<open>simp_all add: stack_delta_def op_pushes_def op_pops_def op_next_def pops_to_one_small\<close>)

lemma op_next_successors:
  assumes "case op' of Fused _ \<Rightarrow> False | _ \<Rightarrow> True" "pc' \<in> set (op_next op' pc)"
  shows "(pc', wrap32 (d + stack_delta op')) \<in> set (successors op' pc d)"
  using assms by (cases op') (auto simp: op_next_def successors_def Let_def target_jump)

lemma successors_small:
  assumes "(pc', d') \<in> set (successors op' pc d)"
  shows "d' < 2 ^ 31"
proof -
  have "d' = wrap32 (d + stack_delta op')"
    using assms by (auto simp: successors_def Let_def split: Op.splits FusedOp.splits)
  then show ?thesis
    using wrap32_range by blast
qed

lemma entered_next:
  assumes code: "pc < length code" "unfused code" "enters code pc d" "d < 2 ^ 31"
    and pops: "int (op_pops (code ! pc)) \<le> d"
    and safe: "\<And>pc d. enters code pc d \<Longrightarrow> 0 \<le> d"
    and pc': "pc' \<in> set (op_next (code ! pc) pc)"
  shows "enters code pc' (d - int (op_pops (code ! pc)) + int (op_pushes (code ! pc)))"
proof -
  let ?op = "code ! pc" and ?x = "d - int (op_pops (code ! pc)) + int (op_pushes (code ! pc))"
  have nf: "case ?op of Fused _ \<Rightarrow> False | _ \<Rightarrow> True"
    using code by (simp add: unfused_def list_all_length)
  have "enters code pc' (wrap32 (d + stack_delta ?op))"
    using op_next_successors [OF nf pc'] code by (blast intro: enters.flow)
  moreover have "d + stack_delta ?op = ?x"
    using stack_delta_pops [OF nf, of pc] pops code(4) pc' by force
  ultimately have e: "enters code pc' (wrap32 ?x)" by simp
  have "op_pushes ?op \<le> 2"
    using nf by (cases ?op) (simp_all add: op_pushes_def)
  then have "wrap32 ?x = ?x \<or> wrap32 ?x < 0"
    using pops code(4) wrap32_over [of ?x] by (cases "?x < 2 ^ 31") (simp_all add: wrap32_id)
  then show ?thesis
    using e safe [OF e] by auto
qed

text \<open>
  C29. What the verifier contributes: if it accepts a function without superinstructions, and every
  instruction that it can enter lies inside the code and is entered with its operands, then the
  function has a depth table, so it runs with stack discipline. Depths may not overflow \<open>i32\<close> for
  this, which the depths being enough for the operands already excludes.
\<close>

theorem verified_has_depths:
  assumes ok: "verify_function f [] = []" "fn_code f \<noteq> []" "unfused (fn_code f)"
    and safe: "\<And>pc d. enters (fn_code f) pc d \<Longrightarrow>
      pc < length (fn_code f) \<and> int (op_pops (fn_code f ! pc)) \<le> d"
  shows "\<exists>ds. well_stacked (fn_code f) ds"
proof -
  let ?code = "fn_code f"
  obtain depths where inv: "loop_inv (fn_name f) ?code depths [] []"
    using verify_function_inv [of f] ok by metis
  have len: "length depths = length ?code"
    using inv by (simp add: loop_inv_def)
  have table: "enters ?code pc d \<Longrightarrow> depths ! pc = Some d" for pc d
    using no_error_unique [OF inv] safe by blast
  have real: "pc < length ?code \<Longrightarrow> depths ! pc = Some d \<Longrightarrow> enters ?code pc d" for pc d
    using inv by (simp add: loop_inv_def)
  have pos: "enters ?code pc d \<Longrightarrow> 0 \<le> d" for pc d
    using safe [of pc d] by simp
  have small: "enters ?code pc d \<Longrightarrow> d < 2 ^ 31" for pc d
    by (erule enters.cases) (auto dest: successors_small)
  have "well_stacked ?code (map (map_option nat) depths)"
    unfolding well_stacked_def list_all_iff
  proof (intro conjI allI impI)
    show "map (map_option nat) depths ! 0 = Some 0"
      using table [OF enters.entry] ok(2) len by simp
  next
    fix pc assume pc: "pc < length ?code"
    show "case map (map_option nat) depths ! pc of None \<Rightarrow> True
      | Some d \<Rightarrow> op_pops (?code ! pc) \<le> d \<and>
          (\<forall>pc' \<in> set (op_next (?code ! pc) pc). pc' < length ?code \<and>
            map (map_option nat) depths ! pc' = Some (d - op_pops (?code ! pc) + op_pushes (?code ! pc)))"
    proof (cases "depths ! pc")
      case (Some d)
      have e: "enters ?code pc d" by (rule real [OF pc Some])
      have ops: "int (op_pops (?code ! pc)) \<le> d"
        using safe [OF e] by simp
      have "enters ?code pc' (d - int (op_pops (?code ! pc)) + int (op_pushes (?code ! pc)))"
        if "pc' \<in> set (op_next (?code ! pc) pc)" for pc'
        by (rule entered_next [OF pc ok(3) e small [OF e] ops _ that]) (rule pos)
      then have "pc' < length ?code \<and>
          depths ! pc' = Some (d - int (op_pops (?code ! pc)) + int (op_pushes (?code ! pc)))"
        if "pc' \<in> set (op_next (?code ! pc) pc)" for pc'
        using that safe table by blast
      then show ?thesis
        using Some pc len safe [OF e] by (auto simp: nat_diff_distrib nat_add_distrib nat_le_iff le_nat_iff)
    qed (simp add: pc len)
  qed (use ok len in simp_all)
  then show ?thesis ..
qed

definition leaf_code :: "Op list" where
  "leaf_code = [PushConst 0, Return]"

theorem verified_has_depths_witness: "\<exists>ds. well_stacked leaf_code ds"
proof -
  let ?f = "plain_function ''leaf'' 0 0 leaf_code"
  have flow: "enters leaf_code pc d \<Longrightarrow> (pc, d) = (0, 0) \<or> (pc, d) = (1, 1)" for pc d
  proof (induction rule: enters.induct)
    case (flow pc d pc' d')
    then show ?case
      by (auto simp: leaf_code_def successors_def stack_delta_def Let_def wrap32_def)
  qed simp
  have "verify_function ?f [] = []" "unfused (fn_code ?f)"
    by code_simp+
  moreover have "fn_code ?f = leaf_code" "leaf_code \<noteq> []"
    by (simp_all add: plain_function_def leaf_code_def)
  moreover have "pc < length leaf_code \<and> int (op_pops (leaf_code ! pc)) \<le> d" if "enters leaf_code pc d" for pc d
    using flow [OF that] by (auto simp: leaf_code_def op_pops_def)
  ultimately show ?thesis
    using verified_has_depths [of ?f] by simp
qed

text \<open>
  C37. What the verifier leaves open: it accepts a function that pops from an empty stack, and one
  whose code ends without a return; running the first fails with a stack underflow, running the
  second fetches an instruction past the end of the code.
\<close>

definition pop_program :: Program where
  "pop_program = program_of [ConstUnit] [plain_function ''f'' 0 0 [Pop, PushConst 0, PushConst 0, Return]]"

definition open_program :: Program where
  "open_program = program_of [ConstUnit] [plain_function ''f'' 0 0 [PushConst 0]]"


section \<open>Refinements of closures\<close>

text \<open>
  C39. A refinement guards the same function or not depending on how it is called: a direct call
  with an argument outside the refinement is refused, and so is a call from a list operation, but a
  call through a closure value runs the body with that argument.
\<close>

definition refined_program :: Program where
  "refined_program = program_of [ConstInt (- 1), NodeId ''n'']
     [(plain_function ''pos'' 1 1 [LoadLocal 0, Return])
        \<lparr>fn_refinements := [Some \<lparr>rf_binding = ''x'', rf_predicate = sample_predicate\<rparr>]\<rparr>,
      plain_function ''direct'' 0 0 [PushConst 0, Call 0 1 1, Return],
      plain_function ''mapped'' 0 0 [PushConst 0, MakeList 1, MakeClosure 0 0, ListMap 1, Return],
      plain_function ''closure'' 0 0 [MakeClosure 0 0, PushConst 0, CallClosure 1 1, Return]]"

definition refined_run :: "string \<Rightarrow> (failure + Value) option" where
  "refined_run name = map_option (map_sum id snd)
     (call sample_env refined_program (run_to 20 sample_env refined_program) (with_handler refined_program ()) name [])"


end
