(* ===== verification/Bc_PeepholeSim.thy ===== *)
theory Bc_PeepholeSim
  imports Bc_PeepholeRun Bc_VmSafe
begin

text \<open>
  The simulation between a program and the program after the peephole passes, by induction on the
  fuel of the plain run: a window of plain instructions is matched by one superinstruction, and the
  instructions that call closures back rely on the contract \<open>related_loops\<close>.
\<close>

section \<open>Running through a window\<close>

text \<open>The failure that the comparison leaves out: a superinstruction takes fewer steps.\<close>

definition limited :: "failure \<Rightarrow> bool" where
  "limited e \<longleftrightarrow> (\<exists>name. e = VmErr (StepLimit name))"

lemma at_steps_twice [simp]: "at_steps a (at_steps b vm) = at_steps a vm" "at_steps (vm_steps vm) vm = vm"
  by (simp_all add: at_steps_def)

lemma transfers_callback: "callback op' \<Longrightarrow> transfers op'"
  by (cases op') (simp_all add: callback_def transfers_def)

lemma exec_plain_run:
  "\<not> transfers op' \<Longrightarrow> exec_op E P run b fid pc op' vm = exec_op E P run' b' fid pc op' vm"
  by (cases op') (simp_all add: transfers_def exec_op_def)

lemma exec_seq_steady:
  "list_all (\<lambda>op'. \<not> transfers op') ops \<Longrightarrow>
   exec_seq E P fid k ops (at_steps s vm) = restep s (exec_seq E P fid k ops vm)"
proof (induction ops arbitrary: k vm)
  case (Cons op' ops)
  then have "\<not> callback op'"
    using transfers_callback by auto
  then show ?case
    using Cons by (auto simp: exec_steady split: step_result.split)
qed simp

text \<open>Straight code goes on to the next slot, except perhaps at its end.\<close>

fun straight :: "nat \<Rightarrow> Op list \<Rightarrow> bool" where
  "straight k [] \<longleftrightarrow> True"
| "straight k [op'] \<longleftrightarrow> \<not> transfers op'"
| "straight k (op' # ops) \<longleftrightarrow> \<not> transfers op' \<and> op_next op' k = [k + 1] \<and> straight (Suc k) ops"

lemma straight_expansion: "straight k (expansion f)"
  by (cases f) (simp_all add: expansion_def transfers_def op_next_def)

lemma straight_plain: "straight k ops \<Longrightarrow> list_all (\<lambda>op'. \<not> transfers op') ops"
  by (induction k ops rule: straight.induct) auto

lemma step_plain:
  assumes "vm_frames vm = f # fs" "nth_opt (pg_functions P) (fr_fn_id f) = Some g"
    "nth_opt (fn_code g) (fr_pc f) = Some op'" "\<not> transfers op'" "vm_steps vm \<le> vm_step_limit vm"
  shows "step E P run b vm =
    restep (Suc (vm_steps vm)) (exec_op E P (\<lambda>_ _. None) 0 (fr_fn_id f) (fr_pc f) op' (set_pc (fr_pc f + 1) vm))"
proof -
  have "\<not> callback op'"
    using assms(4) transfers_callback by blast
  moreover have "set_pc (fr_pc f + 1) (vm\<lparr>vm_steps := Suc (vm_steps vm)\<rparr>) =
      at_steps (Suc (vm_steps vm)) (set_pc (fr_pc f + 1) vm)"
    by (simp add: at_steps_def set_pc_def split: list.split)
  ultimately show ?thesis
    using assms
    by (simp add: step_def orPanic_def exec_steady) (rule arg_cong [OF exec_plain_run [OF assms(4)]])
qed

lemma run_window:
  assumes "nth_opt (pg_functions P) fid = Some g"
  shows "straight k ops \<Longrightarrow> (\<And>i. i < length ops \<Longrightarrow> nth_opt (fn_code g) (k + i) = Some (ops ! i)) \<Longrightarrow>
    vm_frames vm = f # fs \<Longrightarrow> fr_fn_id f = fid \<Longrightarrow> (ops \<noteq> [] \<Longrightarrow> fr_pc f = k) \<Longrightarrow>
    run_to n E P vm b = Some r \<Longrightarrow> (\<And>e. r = Inl e \<Longrightarrow> \<not> limited e) \<Longrightarrow>
    (case exec_seq E P fid k ops vm of
       Next vm' \<Rightarrow> \<exists>n'. n = n' + length ops \<and> run_to n' E P (at_steps (vm_steps vm + length ops) vm') b = Some r
     | Fail e \<Rightarrow> r = Inl e
     | _ \<Rightarrow> False)"
proof (induction ops arbitrary: k vm f n)
  case Nil
  then show ?case by simp
next
  case (Cons op' ops)
  obtain n1 where n1: "n = Suc n1"
    using Cons.prems(6) by (cases n) auto
  have op': "\<not> transfers op'" "nth_opt (fn_code g) (fr_pc f) = Some op'" "fr_pc f = k"
    using Cons.prems(1,5) straight_plain [OF Cons.prems(1)] Cons.prems(2) [of 0] by auto
  have limit: "vm_steps vm \<le> vm_step_limit vm"
  proof (rule ccontr)
    assume "\<not> vm_steps vm \<le> vm_step_limit vm"
    then have "r = Inl (VmErr (StepLimit (fn_name g)))"
      using Cons.prems(3,4,6) n1 assms by (auto simp: step_def orPanic_def)
    then show False
      using Cons.prems(7) by (auto simp: limited_def)
  qed
  let ?r = "exec_op E P (\<lambda>_ _. None) 0 fid k op' (set_pc (k + 1) vm)"
  have step: "step E P run b vm = restep (Suc (vm_steps vm)) ?r" for run
    using step_plain [of vm f fs P g op'] Cons.prems(3,4) assms op' limit by simp
  have acts: "acts (op_pops op') (op_pushes op') (set (op_next op' k)) (set_pc (k + 1) vm) ?r"
    using Cons.prems(3) op'(1) by (intro acts_plain) auto
  show ?case
  proof (cases ?r)
    case (Next vm1)
    have run: "run_to n1 E P (at_steps (Suc (vm_steps vm)) vm1) b = Some r"
      using Cons.prems(6) n1 step Next by simp
    have kept: "keeps (set_pc (k + 1) vm) vm1" "fr_pc (hd (vm_frames vm1)) \<in> set (op_next op' k)"
      using acts Next by (auto simp: acts_def)
    obtain f1 where f1: "vm_frames vm1 = f1 # fs" "fr_fn_id f1 = fid"
      using kept(1) Cons.prems(3,4) same_frame_fields(1) by (fastforce simp: keeps_def set_pc_def)
    have rest: "straight (Suc k) ops" "ops \<noteq> [] \<Longrightarrow> fr_pc f1 = Suc k"
      using Cons.prems(1) kept(2) f1 by (cases ops; simp)+
    have "case exec_seq E P fid (Suc k) ops (at_steps (Suc (vm_steps vm)) vm1) of
        Next vm' \<Rightarrow> \<exists>n'. n1 = n' + length ops \<and>
          run_to n' E P (at_steps (Suc (vm_steps vm) + length ops) vm') b = Some r
      | Fail e \<Rightarrow> r = Inl e | _ \<Rightarrow> False"
      using Cons.IH [OF rest(1) _ _ f1(2) rest(2) run Cons.prems(7)] Cons.prems(2) [of "Suc _"] f1(1)
      by (simp cong: step_result.case_cong)
    then show ?thesis
      using Next n1 exec_seq_steady [OF straight_plain [OF rest(1)], of E P fid "Suc k" "Suc (vm_steps vm)" vm1]
      by (cases "exec_seq E P fid (Suc k) ops vm1") auto
  next
    case (Fail e)
    then show ?thesis
      using Cons.prems(6) n1 step by simp
  qed (use acts in \<open>simp_all add: acts_def\<close>)
qed

section \<open>Simulation\<close>

text \<open>Machines that differ in their step counts only, the second having taken no more steps.\<close>

definition sim :: "'h Vm \<Rightarrow> 'h Vm \<Rightarrow> bool" where
  "sim vm vm' \<longleftrightarrow> (\<exists>s \<le> vm_steps vm. vm' = at_steps s vm)"

lemma sim_refl [simp]: "sim vm vm"
  unfolding sim_def by (rule exI [of _ "vm_steps vm"]) simp

lemma sim_at_steps: "s \<le> vm_steps vm \<Longrightarrow> sim vm (at_steps s vm)"
  by (auto simp: sim_def)

definition sim_step :: "'h step_result \<Rightarrow> 'h step_result \<Rightarrow> bool" where
  "sim_step r r' \<longleftrightarrow>
     (case r of
        Next vm \<Rightarrow> \<exists>vm'. r' = Next vm' \<and> sim vm vm'
      | Done vm v \<Rightarrow> \<exists>vm'. r' = Done vm' v \<and> sim vm vm'
      | Fail e \<Rightarrow> limited e \<or> (\<exists>e'. r' = Fail e' \<and> shadows e e')
      | NoFuel \<Rightarrow> True)"

definition sim_result :: "(failure + 'h Vm \<times> 'a) option \<Rightarrow> (failure + 'h Vm \<times> 'a) option \<Rightarrow> bool" where
  "sim_result r r' \<longleftrightarrow>
     (case r of
        None \<Rightarrow> True
      | Some (Inl e) \<Rightarrow> limited e \<or> (\<exists>e'. r' = Some (Inl e') \<and> shadows e e')
      | Some (Inr (vm, v)) \<Rightarrow> \<exists>vm'. r' = Some (Inr (vm', v)) \<and> sim vm vm')"

lemma sim_simps [simp]:
  "sim_result None r'" "sim_result (Some (Inl e)) (Some (Inl e))"
  "sim_step NoFuel r''" "sim_step (Fail e) (Fail e)" "sim vm vm' \<Longrightarrow> sim_step (Next vm) (Next vm')"
  by (auto simp: sim_result_def sim_step_def)

lemma sim_pop:
  assumes "sim vm vm'" "\<And>v vm vm'. sim vm vm' \<Longrightarrow> sim_step (k v vm) (k' v vm')"
  shows "sim_step (pop vm k) (pop vm' k')"
proof -
  obtain s where s: "s \<le> vm_steps vm" "vm' = at_steps s vm"
    using assms(1) by (auto simp: sim_def)
  show ?thesis
    using s by (auto simp: pop_def intro!: assms(2) sim_at_steps split: list.split)
qed

lemma sim_push: "sim vm vm' \<Longrightarrow> sim (push v vm) (push v vm')"
  by (auto simp: sim_def push_def)

lemma sim_steady:
  assumes "\<not> callback op'" "sim vm vm'"
  shows "sim_step (exec_op E P run b fid pc op' vm) (exec_op E P run b fid pc op' vm')"
proof -
  obtain s where s: "s \<le> vm_steps vm" "vm' = at_steps s vm"
    using assms(2) by (auto simp: sim_def)
  have same: "exec_op E P run b fid pc op' vm = restep (vm_steps vm) (exec_op E P run b fid pc op' vm)"
    using exec_steady [OF assms(1), of E P run b fid pc "vm_steps vm" vm] by simp
  then have "vm_steps vm1 = vm_steps vm" if "exec_op E P run b fid pc op' vm = Next vm1 \<or>
      (\<exists>v. exec_op E P run b fid pc op' vm = Done vm1 v)" for vm1
    using that by (metis at_steps_select(4) restep_simps(1,2) step_result.inject(1,2))
  then show ?thesis
    using exec_steady [OF assms(1), of E P run b fid pc s vm] s
    by (cases "exec_op E P run b fid pc op' vm") (auto simp: sim_step_def intro!: sim_at_steps)
qed

definition plain_program :: "Program \<Rightarrow> bool" where
  "plain_program P \<longleftrightarrow> sequential P \<and> list_all (\<lambda>f. plain_ops (fn_code f)) (pg_functions P)"

text \<open>
  The contract of two loops, one over the program and one over the program after the passes: related
  machines have related results.
\<close>

locale related_loops =
  fixes E :: "'h env" and P :: Program and run run' :: "'h run"
  assumes related: "plain_program P \<Longrightarrow> sim vm vm' \<Longrightarrow> sim_result (run vm b) (run' vm' b)"
begin

lemma invoke_related:
  assumes "plain_program P" "sim vm vm'"
  shows "sim_result (invoke E P run vm fid args) (invoke E (peephole_program P) run' vm' fid args)"
proof -
  obtain s where s: "s \<le> vm_steps vm" "vm' = at_steps s vm"
    using assms(2) by (auto simp: sim_def)
  have run: "sim_result (run vm1 b) (run' (at_steps s vm1) b)"
    if "enter_function f fid args EntryFrame None vm = Inr vm1" for f vm1 b
  proof (rule related [OF assms(1) sim_at_steps])
    show "s \<le> vm_steps vm1"
      using that s(1) by (auto simp: enter_function_def Let_def push_frame_def split: if_splits)
  qed
  show ?thesis
    using run s(2) by (auto simp: invoke_def split: option.split sum.split)
qed

lemma invoke_closure_related:
  "plain_program P \<Longrightarrow> sim vm vm' \<Longrightarrow>
   sim_result (invoke_closure E P run vm c args) (invoke_closure E (peephole_program P) run' vm' c args)"
  using invoke_related by (auto simp: invoke_closure_def split: Value.split)

lemma each_call_related:
  assumes P: "plain_program P"
  shows "sim vm vm' \<Longrightarrow>
    sim_result (each_call (\<lambda>vm. invoke_closure E P run vm c) args upd vm xs acc)
      (each_call (\<lambda>vm. invoke_closure E (peephole_program P) run' vm c) args upd vm' xs acc)"
proof (induction xs arbitrary: vm vm' acc)
  case Nil
  then show ?case by (auto simp: sim_result_def)
next
  case (Cons x xs)
  have c: "sim_result (invoke_closure E P run vm c (args acc x))
      (invoke_closure E (peephole_program P) run' vm' c (args acc x))"
    by (rule invoke_closure_related [OF P Cons.prems])
  show ?case
  proof (cases "invoke_closure E P run vm c (args acc x)")
    case (Some r)
    show ?thesis
    proof (cases r)
      case (Inr p)
      obtain vm1 w where p: "p = (vm1, w)"
        by (cases p)
      then obtain vm1' where "invoke_closure E (peephole_program P) run' vm' c (args acc x) = Some (Inr (vm1', w))"
          "sim vm1 vm1'"
        using c Some Inr by (auto simp: sim_result_def)
      then show ?thesis
        using Some Inr p Cons.IH by (auto split: option.split)
    qed (use c Some in \<open>auto simp: sim_result_def\<close>)
  qed simp
qed

lemma finish_related:
  assumes "sim_result r r'"
  shows "sim_step (finish r f) (finish r' f)"
  using assms by (auto simp: sim_result_def sim_step_def finish_def intro: sim_push split: option.splits sum.splits)

lemma lists_related:
  assumes P: "plain_program P" and vm: "sim vm vm'"
  shows "sim_step (list_map_op E P run vm) (list_map_op E (peephole_program P) run' vm')"
    and "sim_step (list_filter_op E P run vm) (list_filter_op E (peephole_program P) run' vm')"
    and "sim_step (sort_by_key_op E P run vm) (sort_by_key_op E (peephole_program P) run' vm')"
    and "sim_step (list_fold_op E P run vm) (list_fold_op E (peephole_program P) run' vm')"
  unfolding list_map_op_def list_filter_op_def sort_by_key_op_def list_fold_op_def list_and_closure_def
  by (intro sim_pop vm; assumption?;
      auto intro!: finish_related each_call_related P split: Value.split)+

lemma exec_related:
  assumes "plain_program P" "sim vm vm'" "\<And>i. op' \<noteq> ParallelMap i"
  shows "sim_step (exec_op E P run b fid pc op' vm) (exec_op E (peephole_program P) run' b fid pc op' vm')"
proof (cases "callback op'")
  case True
  then show ?thesis
    using lists_related [OF assms(1,2)] assms(3)
    by (cases op') (auto simp: callback_def exec_op_def)
next
  case False
  then show ?thesis
    using sim_steady [OF False assms(2)] exec_code [OF False] by metis
qed

end

section \<open>The passes preserve runs\<close>

lemma expansion_not_nil: "expansion f \<noteq> []"
  by (cases f) (simp_all add: expansion_def)

text \<open>One turn of both loops, at an instruction the passes left alone and at a superinstruction.\<close>

lemma same_op_related:
  assumes "related_loops P (run_to n E P) (run_to m E (peephole_program P))" "plain_program P"
    and vm: "vm_frames vm = f # fs" "nth_opt (pg_functions P) (fr_fn_id f) = Some g" "s \<le> vm_steps vm"
      "vm_steps vm \<le> vm_step_limit vm"
    and op': "nth_opt (fn_code g) (fr_pc f) = Some op'" "nth_opt (peephole_code (pg_constants P) (fn_code g)) (fr_pc f) = Some op'"
  shows "sim_result (run_to (Suc n) E P vm b) (run_to (Suc m) E (peephole_program P) (at_steps s vm) b)"
proof -
  have "op' \<in> set (fn_code g)" "g \<in> set (pg_functions P)"
    using vm(2) op'(1) by (auto simp: nth_opt_def split: if_splits)
  then have nopar: "op' \<noteq> ParallelMap i" for i
    using assms(2) by (fastforce simp: plain_program_def sequential_def list_all_iff)
  let ?vm = "set_pc (fr_pc f + 1) (vm\<lparr>vm_steps := Suc (vm_steps vm)\<rparr>)"
  have vm': "set_pc (fr_pc f + 1) ((at_steps s vm)\<lparr>vm_steps := Suc s\<rparr>) = at_steps (Suc s) ?vm" "vm_steps ?vm = Suc (vm_steps vm)"
    by (simp_all add: at_steps_def set_pc_def split: list.split)
  have "sim_step (step E P (run_to n E P) b vm) (step E (peephole_program P) (run_to m E (peephole_program P)) b (at_steps s vm))"
    using related_loops.exec_related [OF assms(1,2) sim_at_steps [of "Suc s" ?vm] nopar, of E b "fr_fn_id f" "fr_pc f"]
      vm op' vm' by (simp add: step_def orPanic_def)
  then show ?thesis
    using related_loops.related [OF assms(1,2)]
    by (auto simp: sim_step_def sim_result_def split: step_result.splits)
qed

lemma window_related:
  assumes IH: "\<And>n'. n' < n \<Longrightarrow> related_loops P (run_to n' E P) (run_to m E (peephole_program P))" and P: "plain_program P"
    and vm: "vm_frames vm = f # fs" "nth_opt (pg_functions P) (fr_fn_id f) = Some g" "s \<le> vm_steps vm"
      "vm_steps vm \<le> vm_step_limit vm"
    and op': "stands_at (pg_constants P) fu (fn_code g) (fr_pc f)"
      "nth_opt (peephole_code (pg_constants P) (fn_code g)) (fr_pc f) = Some (Fused fu)"
    and run: "run_to n E P vm b = Some r" "\<And>e. r = Inl e \<Longrightarrow> \<not> limited e"
  shows "sim_result (Some r) (run_to (Suc m) E (peephole_program P) (at_steps s vm) b)"
proof -
  let ?k = "fr_pc f" and ?ops = "expansion fu"
  let ?fused = "exec_fused P (fr_fn_id f) ?k fu (set_pc (?k + 1) vm)"
  have raw: "nth_opt (fn_code g) (?k + i) = Some (?ops ! i)" if "i < length ?ops" for i
    using op'(1) that by (simp add: stands_at_def nth_opt_def)
  have seq: "case exec_seq E P (fr_fn_id f) ?k ?ops vm of
      Next vm' \<Rightarrow> \<exists>n'. n = n' + length ?ops \<and> run_to n' E P (at_steps (vm_steps vm + length ?ops) vm') b = Some r
    | Fail e \<Rightarrow> r = Inl e | _ \<Rightarrow> False"
    by (rule run_window [OF vm(2) straight_expansion raw vm(1) refl refl run])
  have agree: "agrees (exec_seq E P (fr_fn_id f) ?k ?ops vm) ?fused"
    using op'(1) by (intro agrees_expansion) (simp add: stands_at_def)
  have vm': "set_pc (?k + 1) ((at_steps s vm)\<lparr>vm_steps := Suc s\<rparr>) = at_steps (Suc s) (set_pc (?k + 1) vm)"
    by (simp add: at_steps_def set_pc_def split: list.split)
  have step: "step E (peephole_program P) run' b (at_steps s vm) = restep (Suc s) ?fused" for run'
    using vm op'(2) vm' by (simp add: step_def orPanic_def exec_op_def)
  show ?thesis
  proof (cases "exec_seq E P (fr_fn_id f) ?k ?ops vm")
    case (Next vm2)
    then obtain n' where n': "n = n' + length ?ops"
        "run_to n' E P (at_steps (vm_steps vm + length ?ops) vm2) b = Some r"
      using seq by auto
    have len: "0 < length ?ops"
      using expansion_not_nil by simp
    then have "Suc s \<le> vm_steps vm + length ?ops" "n' < n"
      using vm(3) n'(1) by linarith+
    note steps = this
    have "sim_result (run_to n' E P (at_steps (vm_steps vm + length ?ops) vm2) b)
        (run_to m E (peephole_program P) (at_steps (Suc s) (at_steps (vm_steps vm + length ?ops) vm2)) b)"
      using steps by (intro related_loops.related [OF IH P] sim_at_steps) simp_all
    then show ?thesis
      using n'(2) step agree Next by (simp add: agrees_def)
  qed (use seq step agree in \<open>auto simp: agrees_def sim_result_def\<close>)
qed

lemma peephole_code_length: "plain_ops raw \<Longrightarrow> length (peephole_code cs raw) = length raw"
  using peephole_code_from by (auto simp: fused_from_def)

lemma step_stuck:
  assumes "plain_program P" "s \<le> vm_steps vm"
    and "\<nexists>f fs g op'. vm_frames vm = f # fs \<and> nth_opt (pg_functions P) (fr_fn_id f) = Some g \<and>
      vm_steps vm \<le> vm_step_limit vm \<and> nth_opt (fn_code g) (fr_pc f) = Some op'"
  shows "\<exists>e. step E P run b vm = Fail e \<and>
    (limited e \<or> step E (peephole_program P) run' b (at_steps s vm) = Fail e)"
proof (cases "vm_frames vm")
  case (Cons f fs)
  show ?thesis
  proof (cases "nth_opt (pg_functions P) (fr_fn_id f)")
    case (Some g)
    have "g \<in> set (pg_functions P)"
      using Some by (auto simp: nth_opt_def split: if_splits)
    then have "length (peephole_code (pg_constants P) (fn_code g)) = length (fn_code g)"
      using assms(1) by (intro peephole_code_length) (auto simp: plain_program_def list_all_iff)
    then show ?thesis
      using assms(2,3) Cons Some
      by (cases "vm_steps vm > vm_step_limit vm")
        (auto simp: step_def orPanic_def limited_def nth_opt_def [of "fn_code g"]
          nth_opt_def [of "peephole_code (pg_constants P) (fn_code g)"] split: if_splits)
  qed (simp add: step_def orPanic_def Cons)
qed (simp add: step_def)

lemma run_to_related:
  "n \<le> m \<Longrightarrow> related_loops P (run_to n E P) (run_to m E (peephole_program P))"
proof (induction n arbitrary: m rule: less_induct)
  case (less n)
  show ?case
  proof
    fix vm vm' :: "'a Vm" and b
    assume P: "plain_program P" and "sim vm vm'"
    then obtain s where s: "s \<le> vm_steps vm" "vm' = at_steps s vm"
      by (auto simp: sim_def)
    show "sim_result (run_to n E P vm b) (run_to m E (peephole_program P) vm' b)"
    proof (cases "\<exists>r. run_to n E P vm b = Some r \<and> (\<forall>e. r = Inl e \<longrightarrow> \<not> limited e)")
      case True
      then obtain r where r: "run_to n E P vm b = Some r" "\<And>e. r = Inl e \<Longrightarrow> \<not> limited e"
        by blast
      then obtain n1 m1 where n1: "n = Suc n1" "m = Suc m1" "n1 \<le> m1"
        using less.prems by (cases n; cases m) auto
      show ?thesis
      proof (cases "\<exists>f fs g op'. vm_frames vm = f # fs \<and> nth_opt (pg_functions P) (fr_fn_id f) = Some g \<and>
          vm_steps vm \<le> vm_step_limit vm \<and> nth_opt (fn_code g) (fr_pc f) = Some op'")
        case True
        then obtain f fs g op' where at: "vm_frames vm = f # fs" "nth_opt (pg_functions P) (fr_fn_id f) = Some g"
            "vm_steps vm \<le> vm_step_limit vm" "nth_opt (fn_code g) (fr_pc f) = Some op'"
          by blast
        let ?code = "peephole_code (pg_constants P) (fn_code g)"
        have "g \<in> set (pg_functions P)"
          using at(2) by (auto simp: nth_opt_def split: if_splits)
        then have from_raw: "fused_from (pg_constants P) (fn_code g) ?code"
          using P by (intro peephole_code_from) (auto simp: plain_program_def list_all_iff)
        then have pc: "fr_pc f < length (fn_code g)" "length ?code = length (fn_code g)"
          using at(4) by (auto simp: nth_opt_def fused_from_def split: if_splits)
        show ?thesis
        proof (cases "?code ! fr_pc f = fn_code g ! fr_pc f")
          case True
          then have "nth_opt ?code (fr_pc f) = Some op'"
            using at(4) pc by (auto simp: nth_opt_def)
          then show ?thesis
            using same_op_related [OF less.IH [of n1 m1] P at(1,2) s(1) at(3,4)] n1 s(2) by simp
        next
          case False
          then obtain fu where "?code ! fr_pc f = Fused fu" "stands_at (pg_constants P) fu (fn_code g) (fr_pc f)"
            using from_raw pc by (auto simp: fused_from_def)
          then show ?thesis
            using window_related [OF less.IH P at(1,2) s(1) at(3) _ _ r, of m1 fu] n1 s(2) pc r(1)
            by (simp add: nth_opt_def)
        qed
      next
        case False
        then show ?thesis
          using step_stuck [OF P s(1), where E = E and b = b and run = "run_to n1 E P"
              and run' = "run_to m1 E (peephole_program P)"] r(1) n1(1,2) s(2)
          by (auto simp: sim_result_def)
      qed
    qed (auto simp: sim_result_def split: option.split sum.split)
  qed
qed

interpretation pp: related_loops E P "run_to n E P" "run_to (n + k) E (peephole_program P)" for E :: "'h env" and P n k
  by (rule run_to_related) simp

section \<open>Properties\<close>

text \<open>
  C25. The peephole passes preserve what programs do: for a program without parallel maps, when a
  call ends within its step limit on the plain code, the same call on the code after the passes ends
  too, with as much fuel or more. It returns the same value and leaves a machine that differs only in
  a step count that is no higher; or it fails with the same error, where a superinstruction that
  checks its operand and its cache slot first may report a host panic or a stack underflow in place
  of a type mismatch or a host panic.
\<close>

theorem peephole_preserves_calls:
  assumes "plain_program P"
    and "call E P (run_to n E P) vm name args = Some r"
    and "\<nexists>f. r = Inl (VmErr (StepLimit f))"
  shows "case r of
      Inr (vm1, v) \<Rightarrow> \<exists>s \<le> vm_steps vm1.
        call E (peephole_program P) (run_to (n + k) E (peephole_program P)) vm name args =
          Some (Inr (vm1\<lparr>vm_steps := s\<rparr>, v))
    | Inl e \<Rightarrow> \<exists>e'. call E (peephole_program P) (run_to (n + k) E (peephole_program P)) vm name args =
          Some (Inl e') \<and>
        (e' = e \<or> e \<in> {VmErr TypeMismatch, HostPanic} \<and> e' \<in> {HostPanic, VmErr StackUnderflow})"
proof -
  have "sim_result (call E P (run_to n E P) vm name args)
      (call E (peephole_program P) (run_to (n + k) E (peephole_program P)) vm name args)"
    using pp.invoke_related [OF assms(1) sim_refl] by (auto simp: call_def split: option.split)
  then show ?thesis
    using assms(2,3)
    by (auto simp: sim_result_def sim_def at_steps_def limited_def shadows_def split: sum.splits)
qed

definition match_code :: "Op list" where
  "match_code =
     [LoadLocal 0, StoreLocal 1, LoadLocal 1, PushConst 0, Prim IntEq, JumpIfNot 2, LoadLocal 0, Return,
      LoadLocal 0, PushConst 1, Prim IntAdd, Return]"

definition match_program :: Program where
  "match_program = program_of [ConstInt 0, ConstInt 1] [plain_function ''next'' 1 2 match_code]"

lemma match_code_fused:
  "peephole_code [ConstInt 0, ConstInt 1] match_code =
     [Fused (LoadLocalStoreEqIntConstJumpIfNot 0 1 0 2), StoreLocal 1,
      Fused (LoadLocalEqIntConstJumpIfNot 1 0 2), PushConst 0, Prim IntEq, JumpIfNot 2, LoadLocal 0, Return,
      Fused (LoadLocalAddIntConst 0 1), PushConst 1, Prim IntAdd, Return]"
  by code_simp

theorem peephole_preserves_calls_witness:
  "map fn_code (pg_functions (peephole_program match_program)) =
     [[Fused (LoadLocalStoreEqIntConstJumpIfNot 0 1 0 2), StoreLocal 1,
       Fused (LoadLocalEqIntConstJumpIfNot 1 0 2), PushConst 0, Prim IntEq, JumpIfNot 2, LoadLocal 0, Return,
       Fused (LoadLocalAddIntConst 0 1), PushConst 1, Prim IntAdd, Return]] \<and>
   (\<exists>vm'. call sample_env (peephole_program match_program) (run_to 20 sample_env (peephole_program match_program))
      (with_handler match_program ()) ''next'' [VInt 4] = Some (Inr (vm', VInt 5)))"
proof -
  let ?vm = "with_handler match_program ()"
  let ?r = "call sample_env match_program (run_to 20 sample_env match_program) ?vm ''next'' [VInt 4]"
  have "plain_program match_program"
    by code_simp
  moreover have "map_option (map_sum id snd) ?r = Some (Inr (VInt 5))"
    by code_simp
  then obtain z where "?r = Some z" "map_sum id snd z = Inr (VInt 5)"
    by auto
  then obtain vm1 where "?r = Some (Inr (vm1, VInt 5))"
    by (cases z) auto
  ultimately have "\<exists>vm'. call sample_env (peephole_program match_program)
      (run_to 20 sample_env (peephole_program match_program)) ?vm ''next'' [VInt 4] = Some (Inr (vm', VInt 5))"
    using peephole_preserves_calls [of match_program sample_env 20 ?vm "''next''" "[VInt 4]" "Inr (vm1, VInt 5)" 0]
    by auto
  moreover have "map fn_code (pg_functions (peephole_program match_program)) =
     [[Fused (LoadLocalStoreEqIntConstJumpIfNot 0 1 0 2), StoreLocal 1,
       Fused (LoadLocalEqIntConstJumpIfNot 1 0 2), PushConst 0, Prim IntEq, JumpIfNot 2, LoadLocal 0, Return,
       Fused (LoadLocalAddIntConst 0 1), PushConst 1, Prim IntAdd, Return]]"
    using match_code_fused by (simp add: match_program_def program_of_def plain_function_def)
  ultimately show ?thesis
    by blast
qed

end
