(* ===== verification/Cp_Pool.thy ===== *)
theory Cp_Pool
  imports Bc_Vm
begin

text \<open>
  The constant pool of the compiler, \<open>crates/lex-bytecode/src/compiler/constpool.rs\<close>, and the capture
  analysis of lambdas, \<open>free_vars.rs\<close>. Index maps are association lists in insertion order.
\<close>

section \<open>Narrow integers and decimal text\<close>

definition as_u16 :: "nat \<Rightarrow> nat" where
  "as_u16 n = n mod 2 ^ 16"

definition as_u32 :: "nat \<Rightarrow> nat" where
  "as_u32 n = n mod 2 ^ 32"

fun nat_text :: "nat \<Rightarrow> string" where
  "nat_text n = (if n < 10 then [char_of (48 + n)] else nat_text (n div 10) @ [char_of (48 + n mod 10)])"

declare nat_text.simps [simp del]

section \<open>The pool\<close>

record ConstPool =
  cp_pool :: "Const list"
  cp_fields :: "(string \<times> nat) list"
  cp_variants :: "(string \<times> nat) list"
  cp_node_ids :: "(string \<times> nat) list"
  cp_ints :: "(i64 \<times> nat) list"
  cp_bools :: "(bool \<times> nat) list"
  cp_strs :: "(string \<times> nat) list"
  cp_record_shapes :: "nat list list"
  cp_record_shape_dedup :: "(nat list \<times> nat) list"

definition pool_default :: ConstPool where
  "pool_default =
     \<lparr>cp_pool = [], cp_fields = [], cp_variants = [], cp_node_ids = [], cp_ints = [], cp_bools = [],
      cp_strs = [], cp_record_shapes = [], cp_record_shape_dedup = []\<rparr>"

text \<open>A constant that is not interned: its index is where it is pushed.\<close>

definition pool_push :: "Const \<Rightarrow> ConstPool \<Rightarrow> nat \<times> ConstPool" where
  "pool_push c p = (as_u32 (length (cp_pool p)), p\<lparr>cp_pool := cp_pool p @ [c]\<rparr>)"

definition pool_field :: "string \<Rightarrow> ConstPool \<Rightarrow> nat \<times> ConstPool" where
  "pool_field name p =
     (case map_of (cp_fields p) name of
        Some i \<Rightarrow> (i, p)
      | None \<Rightarrow> (let (i, p) = pool_push (FieldName name) p in (i, p\<lparr>cp_fields := imap_insert name i (cp_fields p)\<rparr>)))"

definition pool_variant :: "string \<Rightarrow> ConstPool \<Rightarrow> nat \<times> ConstPool" where
  "pool_variant name p =
     (case map_of (cp_variants p) name of
        Some i \<Rightarrow> (i, p)
      | None \<Rightarrow> (let (i, p) = pool_push (VariantName name) p in (i, p\<lparr>cp_variants := imap_insert name i (cp_variants p)\<rparr>)))"

definition pool_node_id :: "string \<Rightarrow> ConstPool \<Rightarrow> nat \<times> ConstPool" where
  "pool_node_id name p =
     (case map_of (cp_node_ids p) name of
        Some i \<Rightarrow> (i, p)
      | None \<Rightarrow> (let (i, p) = pool_push (NodeId name) p in (i, p\<lparr>cp_node_ids := imap_insert name i (cp_node_ids p)\<rparr>)))"

definition pool_int :: "i64 \<Rightarrow> ConstPool \<Rightarrow> nat \<times> ConstPool" where
  "pool_int n p =
     (case map_of (cp_ints p) n of
        Some i \<Rightarrow> (i, p)
      | None \<Rightarrow> (let (i, p) = pool_push (ConstInt n) p in (i, p\<lparr>cp_ints := imap_insert n i (cp_ints p)\<rparr>)))"

definition pool_bool :: "bool \<Rightarrow> ConstPool \<Rightarrow> nat \<times> ConstPool" where
  "pool_bool b p =
     (case map_of (cp_bools p) b of
        Some i \<Rightarrow> (i, p)
      | None \<Rightarrow> (let (i, p) = pool_push (ConstBool b) p in (i, p\<lparr>cp_bools := imap_insert b i (cp_bools p)\<rparr>)))"

definition pool_str :: "string \<Rightarrow> ConstPool \<Rightarrow> nat \<times> ConstPool" where
  "pool_str s p =
     (case map_of (cp_strs p) s of
        Some i \<Rightarrow> (i, p)
      | None \<Rightarrow> (let (i, p) = pool_push (ConstStr s) p in (i, p\<lparr>cp_strs := imap_insert s i (cp_strs p)\<rparr>)))"

definition pool_float :: "f64 \<Rightarrow> ConstPool \<Rightarrow> nat \<times> ConstPool" where
  "pool_float f = pool_push (ConstFloat f)"

definition pool_unit :: "ConstPool \<Rightarrow> nat \<times> ConstPool" where
  "pool_unit = pool_push ConstUnit"

definition pool_record_shape :: "nat list \<Rightarrow> ConstPool \<Rightarrow> nat \<times> ConstPool" where
  "pool_record_shape idxs p =
     (case map_of (cp_record_shape_dedup p) idxs of
        Some i \<Rightarrow> (i, p)
      | None \<Rightarrow>
          (let i = as_u32 (length (cp_record_shapes p)) in
           (i, p\<lparr>cp_record_shape_dedup := imap_insert idxs i (cp_record_shape_dedup p),
                 cp_record_shapes := cp_record_shapes p @ [idxs]\<rparr>)))"

section \<open>Free variables of a lambda body\<close>

fun pattern_binders :: "Pattern \<Rightarrow> string set \<Rightarrow> string set" where
  "pattern_binders (PLiteral l) bound = bound"
| "pattern_binders PWild bound = bound"
| "pattern_binders (PVar name) bound = insert name bound"
| "pattern_binders (PConstructor name args) bound = fold pattern_binders args bound"
| "pattern_binders (PRecord fs) bound = fold (\<lambda>f. pattern_binders (snd f)) fs bound"
| "pattern_binders (PTuple items) bound = fold pattern_binders items bound"

text \<open>
  The source adds a \<open>let\<close>-bound name to the set for the body and takes it out again unless it was there
  before, so every call leaves the set as it was; here the set is passed down.
\<close>

fun free_vars :: "CExpr \<Rightarrow> string set \<Rightarrow> string list \<Rightarrow> string list" where
  "free_vars (Literal l) bound out = out"
| "free_vars (Var name) bound out = (if name \<notin> bound \<and> name \<notin> set out then out @ [name] else out)"
| "free_vars (CCall callee args) bound out =
     fold (\<lambda>a out. free_vars a bound out) args (free_vars callee bound out)"
| "free_vars (CLet name ty v body) bound out = free_vars body (insert name bound) (free_vars v bound out)"
| "free_vars (CMatch scrutinee arms) bound out =
     fold (\<lambda>arm out. free_vars (snd arm) (pattern_binders (fst arm) bound) out) arms
       (free_vars scrutinee bound out)"
| "free_vars (CBlock statements result) bound out =
     free_vars result bound (fold (\<lambda>s out. free_vars s bound out) statements out)"
| "free_vars (Constructor name args) bound out = fold (\<lambda>a out. free_vars a bound out) args out"
| "free_vars (RecordLit fs) bound out = fold (\<lambda>f out. free_vars (snd f) bound out) fs out"
| "free_vars (TupleLit items) bound out = fold (\<lambda>it out. free_vars it bound out) items out"
| "free_vars (ListLit items) bound out = fold (\<lambda>it out. free_vars it bound out) items out"
| "free_vars (FieldAccess v field) bound out = free_vars v bound out"
| "free_vars (Lambda params ret effs rv body) bound out = free_vars body (bound \<union> set (map fst params)) out"
| "free_vars (BinOp op' lhs rhs) bound out = free_vars rhs bound (free_vars lhs bound out)"
| "free_vars (UnaryOp op' e) bound out = free_vars e bound out"
| "free_vars (CReturn v) bound out = free_vars v bound out"

end
