(* ===== verification/Cp_Emit.thy ===== *)
theory Cp_Emit
  imports Cp_Pool "HOL-Library.Monad_Syntax"
begin

text \<open>
  The state of the function compiler, \<open>FnCompiler\<close> of \<open>crates/lex-bytecode/src/compiler/mod.rs\<close>, and the
  code it emits in line for the higher-order operations of the standard library. A compiler panic
  (an argument that is not there, an unknown operator) is \<open>None\<close>. Slot numbers are \<open>u16\<close> and wrap
  around as in a release build; code positions are cast to \<open>i32\<close> where the source casts them.
\<close>

section \<open>State\<close>

datatype NumTy = NumInt | NumFloat | NumUnknown

record PendingLambda =
  pl_fn_id :: nat
  pl_capture_names :: "string list"
  pl_params :: "(string \<times> TypeExpr) list"
  pl_body :: CExpr

record FnCompiler =
  fc_code :: "Op list"
  fc_locals :: "(string \<times> nat) list"
  fc_next_local :: nat
  fc_peak_local :: nat
  fc_local_types :: "(string \<times> NumTy) list"
  fc_local_record_field_types :: "(string \<times> (string \<times> NumTy) list) list"
  fc_field_get_sites :: nat
  fc_pool :: ConstPool
  fc_pending_lambdas :: "PendingLambda list"    \<comment> \<open>the last pushed first\<close>
  fc_functions :: "Function list"               \<comment> \<open>\<open>next_fn_id\<close>, the function table\<close>

text \<open>
  What the compiler is given besides the source: the name tables, the decimal parser of the standard
  library, the digest of a function body, the results of the two allocation analyses, and the three
  environment switches.
\<close>

text \<open>The form in which an instruction enters the digest of a body.\<close>

datatype LegacyOp = LegacyMakeRecord "nat list" | LegacyGetField nat | SerdeOp Op

record CompileEnv =
  ce_function_names :: "(string \<times> nat) list"
  ce_module_aliases :: "(string \<times> string) list"
  ce_fpu :: fpu
  ce_digest :: "nat \<Rightarrow> nat \<Rightarrow> LegacyOp list \<Rightarrow> byte list"
  ce_escape_index :: "Function list \<Rightarrow> string \<times> nat \<Rightarrow> bool option"
  ce_arena_index :: "Function list \<Rightarrow> string \<times> nat \<Rightarrow> bool option"
  ce_no_stack_records :: bool
  ce_no_arena_records :: bool
  ce_no_take_locals :: bool

type_synonym action = "FnCompiler \<Rightarrow> FnCompiler option"

definition alloc_local :: "string \<Rightarrow> FnCompiler \<Rightarrow> nat \<times> FnCompiler" where
  "alloc_local name s =
     (let i = fc_next_local s; n = as_u16 (i + 1) in
      (i, s\<lparr>fc_locals := imap_insert name i (fc_locals s), fc_next_local := n,
            fc_peak_local := max n (fc_peak_local s)\<rparr>))"

definition emits :: "Op list \<Rightarrow> FnCompiler \<Rightarrow> FnCompiler" where
  "emits ops s = s\<lparr>fc_code := fc_code s @ ops\<rparr>"

definition here :: "FnCompiler \<Rightarrow> nat" where
  "here s = length (fc_code s)"

definition with_pool :: "(ConstPool \<Rightarrow> nat \<times> ConstPool) \<Rightarrow> FnCompiler \<Rightarrow> nat \<times> FnCompiler" where
  "with_pool f s = (let (i, p) = f (fc_pool s) in (i, s\<lparr>fc_pool := p\<rparr>))"

definition set_offset :: "int \<Rightarrow> Op \<Rightarrow> Op" where
  "set_offset off op' =
     (case op' of Jump _ \<Rightarrow> Jump off | JumpIf _ \<Rightarrow> JumpIf off | JumpIfNot _ \<Rightarrow> JumpIfNot off | _ \<Rightarrow> op')"

text \<open>\<open>target as i32 - (j as i32 + 1)\<close>\<close>

definition jump_offset :: "nat \<Rightarrow> nat \<Rightarrow> int" where
  "jump_offset j t = wrap32 (wrap32 (int t) - wrap32 (wrap32 (int j) + 1))"

definition patch_jump :: "nat \<Rightarrow> nat \<Rightarrow> FnCompiler \<Rightarrow> FnCompiler" where
  "patch_jump j t s = s\<lparr>fc_code := (fc_code s)[j := set_offset (jump_offset j t) (fc_code s ! j)]\<rparr>"

text \<open>\<open>self.compile_expr(&args[i], false)\<close>\<close>

definition arg :: "action list \<Rightarrow> nat \<Rightarrow> action" where
  "arg args i s = (case nth_opt args i of None \<Rightarrow> None | Some c \<Rightarrow> c s)"

text \<open>Compile an operand and keep it in a slot of its own.\<close>

definition arg_slot :: "action list \<Rightarrow> nat \<Rightarrow> string \<Rightarrow> FnCompiler \<Rightarrow> (nat \<times> FnCompiler) option" where
  "arg_slot args i name s =
     do { s \<leftarrow> arg args i s;
          let (slot, s) = alloc_local name s;
          Some (slot, emits [StoreLocal slot] s) }"

text \<open>Emit code for a value and keep it in a slot of its own.\<close>

definition store_new :: "Op list \<Rightarrow> string \<Rightarrow> FnCompiler \<Rightarrow> nat \<times> FnCompiler" where
  "store_new ops name s =
     (let s = emits ops s; (slot, s) = alloc_local name s in (slot, emits [StoreLocal slot] s))"

section \<open>The digest of a body\<close>

definition hash_form :: "nat list list \<Rightarrow> Op \<Rightarrow> LegacyOp option" where
  "hash_form shapes op' =
     (case op' of
        MakeRecord i _ \<Rightarrow> map_option LegacyMakeRecord (nth_opt shapes i)
      | AllocStackRecord i _ \<Rightarrow> map_option LegacyMakeRecord (nth_opt shapes i)
      | AllocArenaRecord i _ \<Rightarrow> map_option LegacyMakeRecord (nth_opt shapes i)
      | Fused f \<Rightarrow>
          Some (SerdeOp (LoadLocal
            (case f of
               LoadLocalAddIntConst l _ \<Rightarrow> l | LoadLocalAddIntConstStoreLocal l _ _ \<Rightarrow> l
             | LoadLocalAddLocal l _ \<Rightarrow> l | LoadLocalSubLocal l _ \<Rightarrow> l | LoadLocalMulLocal l _ \<Rightarrow> l
             | LoadLocalEqIntConstJumpIfNot l _ _ \<Rightarrow> l | LoadLocalStoreEqIntConstJumpIfNot l _ _ _ \<Rightarrow> l
             | LoadLocalGetFieldAdd l _ _ \<Rightarrow> l | LoadLocalGetFieldSub l _ _ \<Rightarrow> l
             | LoadLocalGetFieldMul l _ _ \<Rightarrow> l | LoadLocalGetField l _ _ \<Rightarrow> l)))
      | GetField n _ \<Rightarrow> Some (LegacyGetField n)
      | AllocStackTuple n \<Rightarrow> Some (SerdeOp (MakeTuple n))
      | AllocArenaTuple n \<Rightarrow> Some (SerdeOp (MakeTuple n))
      | TakeLocal i \<Rightarrow> Some (SerdeOp (LoadLocal i))
      | Prim p \<Rightarrow>
          Some (SerdeOp (Prim
            (case p of
               IntAdd \<Rightarrow> NumAdd | FloatAdd \<Rightarrow> NumAdd | IntSub \<Rightarrow> NumSub | FloatSub \<Rightarrow> NumSub
             | IntMul \<Rightarrow> NumMul | FloatMul \<Rightarrow> NumMul | IntDiv \<Rightarrow> NumDiv | FloatDiv \<Rightarrow> NumDiv
             | IntMod \<Rightarrow> NumMod | IntNeg \<Rightarrow> NumNeg | FloatNeg \<Rightarrow> NumNeg
             | IntEq \<Rightarrow> NumEq | FloatEq \<Rightarrow> NumEq | IntLt \<Rightarrow> NumLt | FloatLt \<Rightarrow> NumLt
             | IntLe \<Rightarrow> NumLe | FloatLe \<Rightarrow> NumLe | _ \<Rightarrow> p)))
      | _ \<Rightarrow> Some (SerdeOp op'))"

definition compute_body_hash ::
  "CompileEnv \<Rightarrow> nat \<Rightarrow> nat \<Rightarrow> Op list \<Rightarrow> nat list list \<Rightarrow> byte list option" where
  "compute_body_hash E arity locals code shapes =
     map_option (ce_digest E arity locals) (seq_all (map (hash_form shapes) code))"

definition ZERO_BODY_HASH :: "byte list" where
  "ZERO_BODY_HASH = replicate 16 0"

section \<open>Lists and results\<close>

definition emit_list_map :: "action list \<Rightarrow> action" where
  "emit_list_map args s =
     do { s \<leftarrow> arg args 0 s;
          s \<leftarrow> arg args 1 s;
          let (nid, s) = with_pool (pool_node_id ''n_list_map'') s;
          Some (emits [ListMap nid] s) }"

definition emit_list_par_map :: "action list \<Rightarrow> action" where
  "emit_list_par_map args s =
     do { s \<leftarrow> arg args 0 s;
          s \<leftarrow> arg args 1 s;
          let (nid, s) = with_pool (pool_node_id ''n_list_par_map'') s;
          Some (emits [ParallelMap nid] s) }"

definition emit_list_sort_by :: "action list \<Rightarrow> action" where
  "emit_list_sort_by args s =
     do { s \<leftarrow> arg args 0 s;
          s \<leftarrow> arg args 1 s;
          let (nid, s) = with_pool (pool_node_id ''n_list_sort_by'') s;
          Some (emits [SortByKey nid] s) }"

definition emit_list_filter :: "action list \<Rightarrow> action" where
  "emit_list_filter args s =
     do { s \<leftarrow> arg args 0 s;
          s \<leftarrow> arg args 1 s;
          let (nid, s) = with_pool (pool_node_id ''n_list_filter'') s;
          Some (emits [ListFilter nid] s) }"

definition emit_list_fold :: "action list \<Rightarrow> action" where
  "emit_list_fold args s =
     do { s \<leftarrow> arg args 0 s;
          s \<leftarrow> arg args 1 s;
          s \<leftarrow> arg args 2 s;
          let (nid, s) = with_pool (pool_node_id ''n_list_fold'') s;
          Some (emits [ListFold nid] s) }"

definition emit_variant_map :: "action list \<Rightarrow> string \<Rightarrow> bool \<Rightarrow> action" where
  "emit_variant_map args wrap_with wrap_result s =
     do { let (wrap_idx, s) = with_pool (pool_variant wrap_with) s;
          (val_slot, s) \<leftarrow> arg_slot args 0 ''__hov'' s;
          (f_slot, s) \<leftarrow> arg_slot args 1 ''__hof'' s;
          let s = emits [LoadLocal val_slot, Dup, TestVariant wrap_idx] s;
          let j_skip = here s;
          let (payload, s) = store_new [JumpIfNot 0, GetVariantArg 0] ''__hov_arg'' s;
          let s = emits [LoadLocal f_slot, LoadLocal payload] s;
          let (nid, s) = with_pool (pool_node_id ''n_hov'') s;
          let s = emits [CallClosure 1 nid] s;
          let s = emits (if wrap_result then [MakeVariant wrap_idx 1] else []) s;
          let j_end = here s;
          let s = emits [Jump 0] s;
          let s = patch_jump j_skip (here s) s;
          Some (patch_jump j_end (here s) s) }"

definition emit_variant_or_else :: "action list \<Rightarrow> string \<Rightarrow> nat \<Rightarrow> action" where
  "emit_variant_or_else args match_on closure_arity s =
     do { let (match_idx, s) = with_pool (pool_variant match_on) s;
          (val_slot, s) \<leftarrow> arg_slot args 0 ''__hoe'' s;
          (f_slot, s) \<leftarrow> arg_slot args 1 ''__hoe_f'' s;
          let s = emits [LoadLocal val_slot, Dup, TestVariant match_idx] s;
          let j_skip = here s;
          let s = emits [JumpIfNot 0, Pop, LoadLocal f_slot] s;
          let s = emits (if closure_arity = 1 then [LoadLocal val_slot, GetVariantArg 0] else []) s;
          let (nid, s) = with_pool (pool_node_id ''n_hoe'') s;
          let s = emits [CallClosure closure_arity nid] s;
          let j_end = here s;
          let s = emits [Jump 0] s;
          let s = patch_jump j_skip (here s) s;
          Some (patch_jump j_end (here s) s) }"

definition emit_option_unwrap_or_else :: "action list \<Rightarrow> action" where
  "emit_option_unwrap_or_else args s =
     do { let (some_idx, s) = with_pool (pool_variant ''Some'') s;
          (val_slot, s) \<leftarrow> arg_slot args 0 ''__uoe_val'' s;
          (f_slot, s) \<leftarrow> arg_slot args 1 ''__uoe_f'' s;
          let s = emits [LoadLocal val_slot, Dup, TestVariant some_idx] s;
          let j_none = here s;
          let s = emits [JumpIfNot 0, GetVariantArg 0] s;
          let j_end = here s;
          let s = emits [Jump 0] s;
          let s = patch_jump j_none (here s) s;
          let s = emits [Pop, LoadLocal f_slot] s;
          let (nid, s) = with_pool (pool_node_id ''n_uoe'') s;
          let s = emits [CallClosure 0 nid] s;
          Some (patch_jump j_end (here s) s) }"

definition emit_result_unwrap_or_else :: "action list \<Rightarrow> action" where
  "emit_result_unwrap_or_else args s =
     do { let (ok_idx, s) = with_pool (pool_variant ''Ok'') s;
          (val_slot, s) \<leftarrow> arg_slot args 0 ''__ruoe_val'' s;
          (f_slot, s) \<leftarrow> arg_slot args 1 ''__ruoe_f'' s;
          let s = emits [LoadLocal val_slot, Dup, TestVariant ok_idx] s;
          let j_err = here s;
          let s = emits [JumpIfNot 0, GetVariantArg 0] s;
          let j_end = here s;
          let s = emits [Jump 0] s;
          let s = patch_jump j_err (here s) s;
          let s = emits [Pop, LoadLocal f_slot, LoadLocal val_slot, GetVariantArg 0] s;
          let (nid, s) = with_pool (pool_node_id ''n_ruoe'') s;
          let s = emits [CallClosure 1 nid] s;
          Some (patch_jump j_end (here s) s) }"

section \<open>Iterators\<close>

definition emit_iter_from_list :: "action list \<Rightarrow> action" where
  "emit_iter_from_list args s =
     do { s \<leftarrow> arg args 0 s;
          let (zero, s) = with_pool (pool_int 0) s;
          let s = emits [PushConst zero] s;
          let (v, s) = with_pool (pool_variant ''__IterEager'') s;
          Some (emits [MakeVariant v 2] s) }"

definition emit_iter_next :: "action list \<Rightarrow> action" where
  "emit_iter_next args s =
     do { (it, s) \<leftarrow> arg_slot args 0 ''__in_it'' s;
          let s = emits [LoadLocal it, Dup] s;
          let (lazy_name, s) = with_pool (pool_variant ''__IterLazy'') s;
          let s = emits [TestVariant lazy_name] s;
          let j_to_check_cursor = here s;
          let (seed, s) = store_new [JumpIfNot 0, LoadLocal it, GetVariantArg 0] ''__in_seed'' s;
          let (step, s) = store_new [LoadLocal it, GetVariantArg 1] ''__in_step'' s;
          let (nid_lazy, s) = with_pool (pool_node_id ''n_iter_next_lazy'') s;
          let (opt, s) = store_new [LoadLocal step, LoadLocal seed, CallClosure 1 nid_lazy] ''__in_opt'' s;
          let s = emits [LoadLocal opt] s;
          let (some_name, s) = with_pool (pool_variant ''Some'') s;
          let s = emits [TestVariant some_name] s;
          let j_lazy_none = here s;
          let (pair, s) = store_new [JumpIfNot 0, LoadLocal opt, GetVariantArg 0] ''__in_pair'' s;
          let s = emits [LoadLocal pair, GetElem 0, LoadLocal pair, GetElem 1, LoadLocal step] s;
          let (lazy_v, s) = with_pool (pool_variant ''__IterLazy'') s;
          let s = emits [MakeVariant lazy_v 2, MakeTuple 2] s;
          let (some_v, s) = with_pool (pool_variant ''Some'') s;
          let s = emits [MakeVariant some_v 1] s;
          let j_after_lazy = here s;
          let s = emits [Jump 0] s;
          let s = patch_jump j_lazy_none (here s) s;
          let (none_v, s) = with_pool (pool_variant ''None'') s;
          let s = emits [MakeVariant none_v 0] s;
          let j_after_lazy_none = here s;
          let s = emits [Jump 0] s;
          let s = patch_jump j_to_check_cursor (here s) s;
          let s = emits [LoadLocal it, Dup] s;
          let (cursor_name, s) = with_pool (pool_variant ''__IterCursor'') s;
          let s = emits [TestVariant cursor_name] s;
          let j_to_eager = here s;
          let (handle, s) = store_new [JumpIfNot 0, LoadLocal it, GetVariantArg 0] ''__in_handle'' s;
          let (kind_idx, s) = with_pool (pool_str ''sql'') s;
          let (op_idx, s) = with_pool (pool_str ''cursor_next'') s;
          let (nid_cursor, s) = with_pool (pool_node_id ''n_iter_next_cursor'') s;
          let (cur_opt, s) = store_new [LoadLocal handle, EffectCall kind_idx op_idx 1 nid_cursor] ''__in_cur_opt'' s;
          let s = emits [LoadLocal cur_opt] s;
          let (some_c, s) = with_pool (pool_variant ''Some'') s;
          let s = emits [TestVariant some_c] s;
          let j_cursor_none = here s;
          let s = emits [JumpIfNot 0, LoadLocal cur_opt, GetVariantArg 0, LoadLocal handle] s;
          let (cursor_v, s) = with_pool (pool_variant ''__IterCursor'') s;
          let s = emits [MakeVariant cursor_v 1, MakeTuple 2] s;
          let (some_c2, s) = with_pool (pool_variant ''Some'') s;
          let s = emits [MakeVariant some_c2 1] s;
          let j_after_cursor = here s;
          let s = emits [Jump 0] s;
          let s = patch_jump j_cursor_none (here s) s;
          let (none_c, s) = with_pool (pool_variant ''None'') s;
          let s = emits [MakeVariant none_c 0] s;
          let j_after_cursor_none = here s;
          let s = emits [Jump 0] s;
          let s = patch_jump j_to_eager (here s) s;
          let (list, s) = store_new [LoadLocal it, GetVariantArg 0] ''__in_list'' s;
          let (idx, s) = store_new [LoadLocal it, GetVariantArg 1] ''__in_idx'' s;
          let s = emits [LoadLocal idx, LoadLocal list, GetListLen, Prim IntLt] s;
          let j_eager_else = here s;
          let s = emits [JumpIfNot 0, LoadLocal list, LoadLocal idx, GetListElemDyn, LoadLocal list, LoadLocal idx] s;
          let (one, s) = with_pool (pool_int 1) s;
          let s = emits [PushConst one, Prim IntAdd] s;
          let (eager_v, s) = with_pool (pool_variant ''__IterEager'') s;
          let s = emits [MakeVariant eager_v 2, MakeTuple 2] s;
          let (some_e, s) = with_pool (pool_variant ''Some'') s;
          let s = emits [MakeVariant some_e 1] s;
          let j_after_eager = here s;
          let s = emits [Jump 0] s;
          let s = patch_jump j_eager_else (here s) s;
          let (none_e, s) = with_pool (pool_variant ''None'') s;
          let s = emits [MakeVariant none_e 0] s;
          let s = patch_jump j_after_lazy (here s) s;
          let s = patch_jump j_after_lazy_none (here s) s;
          let s = patch_jump j_after_cursor (here s) s;
          let s = patch_jump j_after_cursor_none (here s) s;
          Some (patch_jump j_after_eager (here s) s) }"

definition emit_iter_unfold :: "action list \<Rightarrow> action" where
  "emit_iter_unfold args s =
     do { s \<leftarrow> arg args 0 s;
          s \<leftarrow> arg args 1 s;
          let (v, s) = with_pool (pool_variant ''__IterLazy'') s;
          Some (emits [MakeVariant v 2] s) }"

definition emit_iter_is_empty :: "action list \<Rightarrow> action" where
  "emit_iter_is_empty args s =
     do { (it, s) \<leftarrow> arg_slot args 0 ''__ie_it'' s;
          Some (emits [LoadLocal it, GetVariantArg 1, LoadLocal it, GetVariantArg 0, GetListLen, Prim IntLt,
            Prim BoolNot] s) }"

definition emit_iter_count :: "action list \<Rightarrow> action" where
  "emit_iter_count args s =
     do { (it, s) \<leftarrow> arg_slot args 0 ''__ic_it'' s;
          Some (emits [LoadLocal it, GetVariantArg 0, GetListLen, LoadLocal it, GetVariantArg 1, Prim IntSub] s) }"

definition emit_iter_take :: "action list \<Rightarrow> action" where
  "emit_iter_take args s =
     do { (it, s) \<leftarrow> arg_slot args 0 ''__itk_it'' s;
          (n, s) \<leftarrow> arg_slot args 1 ''__itk_n'' s;
          let (list, s) = store_new [LoadLocal it, GetVariantArg 0] ''__itk_list'' s;
          let (i, s) = store_new [LoadLocal it, GetVariantArg 1] ''__itk_i'' s;
          let (out, s) = store_new [MakeList 0] ''__itk_out'' s;
          let (zero, s) = with_pool (pool_int 0) s;
          let (cnt, s) = store_new [PushConst zero] ''__itk_cnt'' s;
          let loop_top = here s;
          let s = emits [LoadLocal cnt, LoadLocal n, Prim IntLt] s;
          let j_exit_n = here s;
          let s = emits [JumpIfNot 0, LoadLocal i, LoadLocal list, GetListLen, Prim IntLt] s;
          let j_exit_l = here s;
          let s = emits [JumpIfNot 0, LoadLocal out, LoadLocal list, LoadLocal i, GetListElemDyn, ListAppend,
            StoreLocal out] s;
          let (one, s) = with_pool (pool_int 1) s;
          let s = emits [LoadLocal i, PushConst one, Prim IntAdd, StoreLocal i,
            LoadLocal cnt, PushConst one, Prim IntAdd, StoreLocal cnt] s;
          let jback = here s;
          let s = emits [Jump (jump_offset jback loop_top)] s;
          let exit_t = here s;
          let s = patch_jump j_exit_n exit_t s;
          let s = patch_jump j_exit_l exit_t s;
          let s = emits [LoadLocal out, PushConst zero] s;
          let (eager_v, s) = with_pool (pool_variant ''__IterEager'') s;
          Some (emits [MakeVariant eager_v 2] s) }"

definition emit_iter_skip :: "action list \<Rightarrow> action" where
  "emit_iter_skip args s =
     do { (it, s) \<leftarrow> arg_slot args 0 ''__isk_it'' s;
          (n, s) \<leftarrow> arg_slot args 1 ''__isk_n'' s;
          let (list, s) = store_new [LoadLocal it, GetVariantArg 0] ''__isk_list'' s;
          let (idx, s) = store_new [LoadLocal it, GetVariantArg 1] ''__isk_idx'' s;
          let (raw, s) = store_new [LoadLocal idx, LoadLocal n, Prim IntAdd] ''__isk_raw'' s;
          let s = emits [LoadLocal raw, LoadLocal list, GetListLen, Prim IntLt] s;
          let j_use_raw = here s;
          let s = emits [JumpIf 0, LoadLocal list, GetListLen] s;
          let j_end = here s;
          let s = emits [Jump 0] s;
          let s = patch_jump j_use_raw (here s) s;
          let s = emits [LoadLocal raw] s;
          let s = patch_jump j_end (here s) s;
          let (new_idx, s) = store_new [] ''__isk_ni'' s;
          let s = emits [LoadLocal list, LoadLocal new_idx] s;
          let (eager_v, s) = with_pool (pool_variant ''__IterEager'') s;
          Some (emits [MakeVariant eager_v 2] s) }"

definition emit_iter_to_list :: "action list \<Rightarrow> action" where
  "emit_iter_to_list args s =
     do { (it, s) \<leftarrow> arg_slot args 0 ''__itl_it'' s;
          let (out, s) = store_new [MakeList 0] ''__itl_out'' s;
          let s = emits [LoadLocal it] s;
          let (lazy_name, s) = with_pool (pool_variant ''__IterLazy'') s;
          let s = emits [TestVariant lazy_name] s;
          let j_to_eager = here s;
          let (seed, s) = store_new [JumpIfNot 0, LoadLocal it, GetVariantArg 0] ''__itl_seed'' s;
          let (step, s) = store_new [LoadLocal it, GetVariantArg 1] ''__itl_step'' s;
          let lazy_loop = here s;
          let (nid_lazy, s) = with_pool (pool_node_id ''n_iter_to_list_lazy'') s;
          let (opt, s) = store_new [LoadLocal step, LoadLocal seed, CallClosure 1 nid_lazy] ''__itl_opt'' s;
          let s = emits [LoadLocal opt] s;
          let (some_name, s) = with_pool (pool_variant ''Some'') s;
          let s = emits [TestVariant some_name] s;
          let j_lazy_exit = here s;
          let (pair, s) = store_new [JumpIfNot 0, LoadLocal opt, GetVariantArg 0] ''__itl_pair'' s;
          let s = emits [LoadLocal out, LoadLocal pair, GetElem 0, ListAppend, StoreLocal out,
            LoadLocal pair, GetElem 1, StoreLocal seed] s;
          let jback_lazy = here s;
          let s = emits [Jump (jump_offset jback_lazy lazy_loop)] s;
          let s = patch_jump j_lazy_exit (here s) s;
          let j_after_lazy = here s;
          let s = emits [Jump 0] s;
          let s = patch_jump j_to_eager (here s) s;
          let (list, s) = store_new [LoadLocal it, GetVariantArg 0] ''__itl_list'' s;
          let (i, s) = store_new [LoadLocal it, GetVariantArg 1] ''__itl_i'' s;
          let loop_top = here s;
          let s = emits [LoadLocal i, LoadLocal list, GetListLen, Prim IntLt] s;
          let j_exit = here s;
          let s = emits [JumpIfNot 0, LoadLocal out, LoadLocal list, LoadLocal i, GetListElemDyn, ListAppend,
            StoreLocal out, LoadLocal i] s;
          let (one, s) = with_pool (pool_int 1) s;
          let s = emits [PushConst one, Prim IntAdd, StoreLocal i] s;
          let jback = here s;
          let s = emits [Jump (jump_offset jback loop_top)] s;
          let s = patch_jump j_exit (here s) s;
          let s = patch_jump j_after_lazy (here s) s;
          Some (emits [LoadLocal out] s) }"

definition emit_iter_map :: "action list \<Rightarrow> action" where
  "emit_iter_map args s =
     do { (it, s) \<leftarrow> arg_slot args 0 ''__im_it'' s;
          (f, s) \<leftarrow> arg_slot args 1 ''__im_f'' s;
          let (list, s) = store_new [LoadLocal it, GetVariantArg 0] ''__im_list'' s;
          let (i, s) = store_new [LoadLocal it, GetVariantArg 1] ''__im_i'' s;
          let (out, s) = store_new [MakeList 0] ''__im_out'' s;
          let loop_top = here s;
          let s = emits [LoadLocal i, LoadLocal list, GetListLen, Prim IntLt] s;
          let j_exit = here s;
          let s = emits [JumpIfNot 0] s;
          let (nid, s) = with_pool (pool_node_id ''n_iter_map'') s;
          let s = emits [LoadLocal out, LoadLocal f, LoadLocal list, LoadLocal i, GetListElemDyn, CallClosure 1 nid,
            ListAppend, StoreLocal out, LoadLocal i] s;
          let (one, s) = with_pool (pool_int 1) s;
          let s = emits [PushConst one, Prim IntAdd, StoreLocal i] s;
          let jback = here s;
          let s = emits [Jump (jump_offset jback loop_top)] s;
          let s = patch_jump j_exit (here s) s;
          let (zero, s) = with_pool (pool_int 0) s;
          let s = emits [LoadLocal out, PushConst zero] s;
          let (eager_v, s) = with_pool (pool_variant ''__IterEager'') s;
          Some (emits [MakeVariant eager_v 2] s) }"

definition emit_iter_filter :: "action list \<Rightarrow> action" where
  "emit_iter_filter args s =
     do { (it, s) \<leftarrow> arg_slot args 0 ''__if_it'' s;
          (f, s) \<leftarrow> arg_slot args 1 ''__if_f'' s;
          let (list, s) = store_new [LoadLocal it, GetVariantArg 0] ''__if_list'' s;
          let (i, s) = store_new [LoadLocal it, GetVariantArg 1] ''__if_i'' s;
          let (out, s) = store_new [MakeList 0] ''__if_out'' s;
          let loop_top = here s;
          let s = emits [LoadLocal i, LoadLocal list, GetListLen, Prim IntLt] s;
          let j_exit = here s;
          let (x, s) = store_new [JumpIfNot 0, LoadLocal list, LoadLocal i, GetListElemDyn] ''__if_x'' s;
          let (nid, s) = with_pool (pool_node_id ''n_iter_filter'') s;
          let s = emits [LoadLocal f, LoadLocal x, CallClosure 1 nid] s;
          let j_skip = here s;
          let s = emits [JumpIfNot 0, LoadLocal out, LoadLocal x, ListAppend, StoreLocal out] s;
          let s = patch_jump j_skip (here s) s;
          let s = emits [LoadLocal i] s;
          let (one, s) = with_pool (pool_int 1) s;
          let s = emits [PushConst one, Prim IntAdd, StoreLocal i] s;
          let jback = here s;
          let s = emits [Jump (jump_offset jback loop_top)] s;
          let s = patch_jump j_exit (here s) s;
          let (zero, s) = with_pool (pool_int 0) s;
          let s = emits [LoadLocal out, PushConst zero] s;
          let (eager_v, s) = with_pool (pool_variant ''__IterEager'') s;
          Some (emits [MakeVariant eager_v 2] s) }"

definition emit_iter_fold :: "action list \<Rightarrow> action" where
  "emit_iter_fold args s =
     do { (it, s) \<leftarrow> arg_slot args 0 ''__ifo_it'' s;
          (acc, s) \<leftarrow> arg_slot args 1 ''__ifo_acc'' s;
          (f, s) \<leftarrow> arg_slot args 2 ''__ifo_f'' s;
          let (list, s) = store_new [LoadLocal it, GetVariantArg 0] ''__ifo_list'' s;
          let (i, s) = store_new [LoadLocal it, GetVariantArg 1] ''__ifo_i'' s;
          let loop_top = here s;
          let s = emits [LoadLocal i, LoadLocal list, GetListLen, Prim IntLt] s;
          let j_exit = here s;
          let s = emits [JumpIfNot 0] s;
          let (nid, s) = with_pool (pool_node_id ''n_iter_fold'') s;
          let s = emits [LoadLocal f, LoadLocal acc, LoadLocal list, LoadLocal i, GetListElemDyn, CallClosure 2 nid,
            StoreLocal acc, LoadLocal i] s;
          let (one, s) = with_pool (pool_int 1) s;
          let s = emits [PushConst one, Prim IntAdd, StoreLocal i] s;
          let jback = here s;
          let s = emits [Jump (jump_offset jback loop_top)] s;
          let s = patch_jump j_exit (here s) s;
          Some (emits [LoadLocal acc] s) }"

definition emit_map_fold :: "action list \<Rightarrow> nat \<Rightarrow> action" where
  "emit_map_fold args node_id_idx s =
     do { s \<leftarrow> arg args 0 s;
          let (map_kind, s) = with_pool (pool_str ''map'') s;
          let (entries_op, s) = with_pool (pool_str ''entries'') s;
          let (xs, s) = store_new [EffectCall map_kind entries_op 1 node_id_idx] ''__mf_xs'' s;
          (acc, s) \<leftarrow> arg_slot args 1 ''__mf_acc'' s;
          (f, s) \<leftarrow> arg_slot args 2 ''__mf_f'' s;
          let (zero, s) = with_pool (pool_int 0) s;
          let (i, s) = store_new [PushConst zero] ''__mf_i'' s;
          let loop_top = here s;
          let s = emits [LoadLocal i, LoadLocal xs, GetListLen, Prim IntLt] s;
          let j_exit = here s;
          let (pair, s) = store_new [JumpIfNot 0, LoadLocal xs, LoadLocal i, GetListElemDyn] ''__mf_pair'' s;
          let (nid, s) = with_pool (pool_node_id ''n_map_fold'') s;
          let s = emits [LoadLocal f, LoadLocal acc, LoadLocal pair, GetElem 0, LoadLocal pair, GetElem 1,
            CallClosure 3 nid, StoreLocal acc, LoadLocal i] s;
          let (one, s) = with_pool (pool_int 1) s;
          let s = emits [PushConst one, Prim IntAdd, StoreLocal i] s;
          let jump_back = here s;
          let s = emits [Jump (jump_offset jump_back loop_top)] s;
          let s = patch_jump j_exit (here s) s;
          Some (emits [LoadLocal acc] s) }"

end
