(* ===== verification/Cp_Compile.thy ===== *)
theory Cp_Compile
  imports Cp_Emit
begin

text \<open>
  The compiler proper, \<open>crates/lex-bytecode/src/compiler/mod.rs\<close>: expressions, matches, lambdas, the
  trampolines of \<open>std.flow\<close> and the table of operations emitted in line. Node identifiers are passed
  down with the expression (\<open>lex_ast::expr_ids\<close> finds them by address): \<open>None\<close> is a body whose
  identifiers are not in the map.
\<close>

text \<open>Numbered children are smaller than the list they come from.\<close>

lemma enumerate_mem: "(i, x) \<in> set (enumerate n xs) \<Longrightarrow> x \<in> set xs"
  by (auto simp: in_set_enumerate_eq intro: nth_mem)

lemma enumerate_size [termination_simp]:
  assumes "(i, x) \<in> set (enumerate n xs)"
  shows "f x < Suc (size_list f xs)" and "f x \<le> size_list f xs"
proof -
  show "f x \<le> size_list f xs"
    using enumerate_mem [OF assms] by (intro size_list_estimation') auto
  then show "f x < Suc (size_list f xs)"
    by simp
qed

lemma enumerate_size_snd [termination_simp]:
  assumes "(i, x, y) \<in> set (enumerate n xs)"
  shows "f y < Suc (size_list (\<lambda>p. Suc (f (snd p))) xs + m)" and "f y < Suc (size_list (\<lambda>p. Suc (f (snd p))) xs)"
  using enumerate_size(2) [OF assms, of "\<lambda>p. Suc (f (snd p))"] by simp_all

section \<open>Numeric types\<close>

fun classify_type_expr :: "TypeExpr \<Rightarrow> NumTy" where
  "classify_type_expr (TNamed name args) =
     (if args = [] then (if name = ''Int'' then NumInt else if name = ''Float'' then NumFloat else NumUnknown)
      else NumUnknown)"
| "classify_type_expr (TRefined base b p) = classify_type_expr base"
| "classify_type_expr _ = NumUnknown"

text \<open>
  The field types of a record type, through aliases. The source does not guard against an alias that
  names itself; here every alias is followed at most once per table entry, and running out is the
  outer \<open>None\<close>.
\<close>

fun record_field_types ::
  "nat \<Rightarrow> (string \<times> TypeExpr) list \<Rightarrow> TypeExpr \<Rightarrow> (string \<times> NumTy) list option option" where
  "record_field_types n aliases (TRecord fs) =
     Some (Some (fold (\<lambda>f m. imap_insert (fst f) (classify_type_expr (snd f)) m) fs []))"
| "record_field_types n aliases (TRefined base b p) = record_field_types n aliases base"
| "record_field_types n aliases (TNamed name args) =
     (if args = [] then
        (case map_of aliases name of
           None \<Rightarrow> Some None
         | Some t \<Rightarrow> (case n of 0 \<Rightarrow> None | Suc m \<Rightarrow> record_field_types m aliases t))
      else Some None)"
| "record_field_types n aliases _ = Some None"

fun classify_expr :: "FnCompiler \<Rightarrow> CExpr \<Rightarrow> NumTy" where
  "classify_expr s (Literal (LInt _)) = NumInt"
| "classify_expr s (Literal (LFloat _)) = NumFloat"
| "classify_expr s (Var name) = (case map_of (fc_local_types s) name of Some t \<Rightarrow> t | None \<Rightarrow> NumUnknown)"
| "classify_expr s (BinOp op' lhs rhs) =
     (if op' \<in> {''+'', ''-'', ''*'', ''/'', ''%''} then
        (case (classify_expr s lhs, classify_expr s rhs) of
           (NumInt, NumInt) \<Rightarrow> NumInt
         | (NumFloat, NumFloat) \<Rightarrow> NumFloat
         | _ \<Rightarrow> NumUnknown)
      else NumUnknown)"
| "classify_expr s (UnaryOp op' e) = (if op' = ''-'' then classify_expr s e else NumUnknown)"
| "classify_expr s (FieldAccess (Var name) field) =
     (case map_of (fc_local_record_field_types s) name of
        Some ftypes \<Rightarrow> (case map_of ftypes field of Some t \<Rightarrow> t | None \<Rightarrow> NumUnknown)
      | None \<Rightarrow> NumUnknown)"
| "classify_expr s _ = NumUnknown"

section \<open>Literals and operators\<close>

text \<open>A bytes literal compiles to an empty byte string, whatever it holds.\<close>

definition compile_lit :: "CompileEnv \<Rightarrow> CLit \<Rightarrow> FnCompiler \<Rightarrow> FnCompiler" where
  "compile_lit E l s =
     (let (i, s) =
        with_pool
          (case l of
             LInt n \<Rightarrow> pool_int n
           | LBool b \<Rightarrow> pool_bool b
           | LFloat t \<Rightarrow> pool_float (case f_parse (ce_fpu E) t of Some f \<Rightarrow> f | None \<Rightarrow> 0)
           | LStr t \<Rightarrow> pool_str t
           | LBytes _ \<Rightarrow> pool_push (ConstBytes [])
           | LUnit \<Rightarrow> pool_unit) s
      in emits [PushConst i] s)"

definition emit_swap_top2 :: "FnCompiler \<Rightarrow> FnCompiler" where
  "emit_swap_top2 s =
     (let (a, s) = alloc_local ''__swap_a'' s; (b, s) = alloc_local ''__swap_b'' s
      in emits [StoreLocal b, StoreLocal a, LoadLocal b, LoadLocal a] s)"

definition by_type :: "NumTy \<Rightarrow> PrimOp \<Rightarrow> PrimOp \<Rightarrow> PrimOp \<Rightarrow> Op" where
  "by_type t i f n = Prim (case t of NumInt \<Rightarrow> i | NumFloat \<Rightarrow> f | NumUnknown \<Rightarrow> n)"

definition emit_binop :: "string \<Rightarrow> NumTy \<Rightarrow> action" where
  "emit_binop op' t s =
     (if op' = ''+'' then Some (emits [by_type t IntAdd FloatAdd NumAdd] s)
      else if op' = ''-'' then Some (emits [by_type t IntSub FloatSub NumSub] s)
      else if op' = ''*'' then Some (emits [by_type t IntMul FloatMul NumMul] s)
      else if op' = ''/'' then Some (emits [by_type t IntDiv FloatDiv NumDiv] s)
      else if op' = ''%'' then Some (emits [by_type t IntMod NumMod NumMod] s)
      else if op' = ''=='' then Some (emits [by_type t IntEq FloatEq NumEq] s)
      else if op' = ''!='' then Some (emits [by_type t IntEq FloatEq NumEq, Prim BoolNot] s)
      else if op' = ''<'' then Some (emits [by_type t IntLt FloatLt NumLt] s)
      else if op' = ''<='' then Some (emits [by_type t IntLe FloatLe NumLe] s)
      else if op' = ''>'' then Some (emits [by_type t IntLt FloatLt NumLt] (emit_swap_top2 s))
      else if op' = ''>='' then Some (emits [by_type t IntLe FloatLe NumLe] (emit_swap_top2 s))
      else if op' = ''and'' then Some (emits [Prim BoolAnd] s)
      else if op' = ''or'' then Some (emits [Prim BoolOr] s)
      else None)"

definition compile_binop :: "string \<Rightarrow> CExpr \<Rightarrow> CExpr \<Rightarrow> action \<Rightarrow> action \<Rightarrow> action" where
  "compile_binop op' lhs rhs lhs_act rhs_act s =
     do { let typed =
            (case (classify_expr s lhs, classify_expr s rhs) of
               (NumInt, NumInt) \<Rightarrow> NumInt
             | (NumFloat, NumFloat) \<Rightarrow> NumFloat
             | _ \<Rightarrow> NumUnknown);
          s \<leftarrow> lhs_act s;
          s \<leftarrow> rhs_act s;
          emit_binop op' typed s }"

definition emit_unary :: "string \<Rightarrow> action" where
  "emit_unary op' s =
     (if op' = ''-'' then Some (emits [Prim NumNeg] s)
      else if op' = ''not'' then Some (emits [Prim BoolNot] s)
      else None)"

section \<open>Patterns and matches\<close>

text \<open>
  Tests in sequence, each behind the code that brings its value to the top of the stack; the
  positions of the jumps to patch are collected.
\<close>

fun pattern_seq ::
  "((FnCompiler \<Rightarrow> FnCompiler) \<times> (FnCompiler \<Rightarrow> nat list \<times> FnCompiler)) list \<Rightarrow> nat list \<Rightarrow> FnCompiler \<Rightarrow>
   nat list \<times> FnCompiler" where
  "pattern_seq [] fails s = (fails, s)"
| "pattern_seq ((pre, test) # ts) fails s = (let (fs, s) = test (pre s) in pattern_seq ts (fails @ fs) s)"

definition get_field_site :: "nat \<Rightarrow> string \<Rightarrow> FnCompiler \<Rightarrow> FnCompiler" where
  "get_field_site slot name s =
     (let s = emits [LoadLocal slot] s;
          (name_idx, s) = with_pool (pool_field name) s;
          site_idx = fc_field_get_sites s;
          s = s\<lparr>fc_field_get_sites := as_u32 (site_idx + 1)\<rparr>
      in emits [GetField name_idx site_idx] s)"

definition literal_eq :: "CLit \<Rightarrow> PrimOp" where
  "literal_eq l = (case l of LStr _ \<Rightarrow> StrEq | LBytes _ \<Rightarrow> BytesEq | LInt _ \<Rightarrow> IntEq | LFloat _ \<Rightarrow> FloatEq | _ \<Rightarrow> NumEq)"

text \<open>
  The test of a constructor: a duplicate of the value is tested, and the failure path drops the
  value before it jumps. The positions of that jump and the state behind it.
\<close>

definition constructor_test :: "string \<Rightarrow> FnCompiler \<Rightarrow> nat \<times> FnCompiler" where
  "constructor_test name s =
     (let (name_idx, s) = with_pool (pool_variant name) s;
          s = emits [Dup, TestVariant name_idx] s;
          j_success = here s;
          s = emits [JumpIf 0, Pop] s;
          j_fail = here s;
          s = emits [Jump 0] s
      in (j_fail, patch_jump j_success (here s) s))"

fun compile_pattern_test :: "CompileEnv \<Rightarrow> Pattern \<Rightarrow> FnCompiler \<Rightarrow> nat list \<times> FnCompiler" where
  "compile_pattern_test E PWild s = ([], emits [Pop] s)"
| "compile_pattern_test E (PVar name) s = (let (slot, s) = store_new [] name s in ([], s))"
| "compile_pattern_test E (PLiteral l) s =
     (let s = emits [Prim (literal_eq l)] (compile_lit E l s); j = here s in ([j], emits [JumpIfNot 0] s))"
| "compile_pattern_test E (PConstructor name args) s =
     (let (j_fail, s) = constructor_test name s in
      case args of
        [] \<Rightarrow> ([j_fail], emits [Pop] s)
      | [a] \<Rightarrow> (let (fs, s) = compile_pattern_test E a (emits [GetVariantArg 0] s) in (j_fail # fs, s))
      | _ \<Rightarrow>
          let (slot, s) = store_new [] ''__variant'' s in
          pattern_seq (map (\<lambda>(i, a). (emits [LoadLocal slot, GetVariantArg (as_u16 i)], compile_pattern_test E a))
            (enumerate 0 args)) [j_fail] s)"
| "compile_pattern_test E (PRecord fs) s =
     (let (slot, s) = store_new [] ''__record'' s in
      pattern_seq (map (\<lambda>f. (get_field_site slot (fst f), compile_pattern_test E (snd f))) fs) [] s)"
| "compile_pattern_test E (PTuple items) s =
     (let (slot, s) = store_new [] ''__tuple'' s in
      pattern_seq (map (\<lambda>(i, a). (emits [LoadLocal slot, GetElem (as_u16 i)], compile_pattern_test E a))
        (enumerate 0 items)) [] s)"

fun patch_all :: "nat list \<Rightarrow> nat \<Rightarrow> FnCompiler \<Rightarrow> FnCompiler" where
  "patch_all [] t s = s"
| "patch_all (j # js) t s = patch_all js t (patch_jump j t s)"

text \<open>One arm: its names are gone after it; what is known about numeric types stays.\<close>

definition compile_arm :: "CompileEnv \<Rightarrow> nat \<Rightarrow> Pattern \<Rightarrow> action \<Rightarrow> FnCompiler \<Rightarrow> (nat \<times> FnCompiler) option" where
  "compile_arm E scrut_slot p body s =
     do { let arm_start_locals = fc_next_local s;
          let arm_start_locals_map = fc_locals s;
          let (fail_jumps, s) = compile_pattern_test E p (emits [LoadLocal scrut_slot] s);
          s \<leftarrow> body s;
          let j_end = here s;
          let s = emits [Jump 0] s;
          let s = patch_all fail_jumps (here s) s;
          Some (j_end, s\<lparr>fc_next_local := arm_start_locals, fc_locals := arm_start_locals_map\<rparr>) }"

fun compile_arms ::
  "CompileEnv \<Rightarrow> nat \<Rightarrow> (Pattern \<times> action) list \<Rightarrow> nat list \<Rightarrow> FnCompiler \<Rightarrow> (nat list \<times> FnCompiler) option" where
  "compile_arms E scrut_slot [] end_jumps s = Some (end_jumps, s)"
| "compile_arms E scrut_slot ((p, body) # arms) end_jumps s =
     do { (j_end, s) \<leftarrow> compile_arm E scrut_slot p body s;
          compile_arms E scrut_slot arms (end_jumps @ [j_end]) s }"

definition compile_match :: "CompileEnv \<Rightarrow> action \<Rightarrow> (Pattern \<times> action) list \<Rightarrow> action" where
  "compile_match E scrutinee arms s =
     do { s \<leftarrow> scrutinee s;
          let (scrut_slot, s) = store_new [] ''__scrut'' s;
          (end_jumps, s) \<leftarrow> compile_arms E scrut_slot arms [] s;
          let (panic_msg_idx, s) = with_pool (pool_str ''non-exhaustive match'') s;
          let s = emits [Panic panic_msg_idx] s;
          Some (patch_all end_jumps (here s) s) }"

section \<open>Lambdas and trampolines\<close>

definition compile_lambda :: "(string \<times> TypeExpr) list \<Rightarrow> CExpr \<Rightarrow> action" where
  "compile_lambda params body s =
     (let frees = free_vars body (set (map fst params)) [];
          captures = filter (\<lambda>n. map_of (fc_locals s) n \<noteq> None) frees;
          fn_id = as_u32 (length (fc_functions s));
          f = \<lparr>fn_name = ''__lambda_'' @ nat_text fn_id, fn_arity = as_u16 (length captures + length params),
               fn_locals_count = 0, fn_code = [], fn_effects = [], fn_body_hash = ZERO_BODY_HASH,
               fn_refinements = [], fn_field_ic_sites = 0\<rparr>;
          slots = map (\<lambda>c. the (map_of (fc_locals s) c)) captures;
          s = s\<lparr>fc_functions := fc_functions s @ [f]\<rparr>;
          s = emits (map LoadLocal slots) s;
          s = emits [MakeClosure fn_id (as_u16 (length captures))] s
      in Some (s\<lparr>fc_pending_lambdas :=
           \<lparr>pl_fn_id = fn_id, pl_capture_names = captures, pl_params = params, pl_body = body\<rparr> #
           fc_pending_lambdas s\<rparr>))"

definition install_trampoline ::
  "CompileEnv \<Rightarrow> string \<Rightarrow> nat \<Rightarrow> nat \<Rightarrow> Op list \<Rightarrow> FnCompiler \<Rightarrow> (nat \<times> FnCompiler) option" where
  "install_trampoline E name arity locals_count code s =
     do { let fn_id = as_u32 (length (fc_functions s));
          h \<leftarrow> compute_body_hash E arity locals_count code (cp_record_shapes (fc_pool s));
          let f = \<lparr>fn_name = name, fn_arity = arity, fn_locals_count = locals_count, fn_code = code,
                   fn_effects = [], fn_body_hash = h, fn_refinements = [], fn_field_ic_sites = 0\<rparr>;
          Some (fn_id, s\<lparr>fc_functions := fc_functions s @ [f]\<rparr>) }"

definition flow_sequential_code :: "nat \<Rightarrow> Op list" where
  "flow_sequential_code nid =
     [LoadLocal 0, LoadLocal 2, CallClosure 1 nid, StoreLocal 3, LoadLocal 1, LoadLocal 3, CallClosure 1 nid, Return]"

definition emit_flow_sequential :: "CompileEnv \<Rightarrow> action list \<Rightarrow> action" where
  "emit_flow_sequential E args s =
     do { s \<leftarrow> arg args 0 s;
          s \<leftarrow> arg args 1 s;
          let (nid, s) = with_pool (pool_node_id ''n_flow_sequential'') s;
          (fn_id, s) \<leftarrow> install_trampoline E ''__flow_sequential'' 3 4 (flow_sequential_code nid) s;
          Some (emits [MakeClosure fn_id 2] s) }"

definition flow_parallel_code :: "nat \<Rightarrow> Op list" where
  "flow_parallel_code nid =
     [LoadLocal 0, CallClosure 0 nid, LoadLocal 1, CallClosure 0 nid, MakeTuple 2, Return]"

definition emit_flow_parallel :: "CompileEnv \<Rightarrow> action list \<Rightarrow> action" where
  "emit_flow_parallel E args s =
     do { s \<leftarrow> arg args 0 s;
          s \<leftarrow> arg args 1 s;
          let (nid, s) = with_pool (pool_node_id ''n_flow_parallel'') s;
          (fn_id, s) \<leftarrow> install_trampoline E ''__flow_parallel'' 2 2 (flow_parallel_code nid) s;
          Some (emits [MakeClosure fn_id 2] s) }"

definition emit_flow_parallel_list :: "action list \<Rightarrow> action" where
  "emit_flow_parallel_list args s =
     do { (xs, s) \<leftarrow> arg_slot args 0 ''__fpl_xs'' s;
          let (out, s) = store_new [MakeList 0] ''__fpl_out'' s;
          let (zero, s) = with_pool (pool_int 0) s;
          let (i, s) = store_new [PushConst zero] ''__fpl_i'' s;
          let loop_top = here s;
          let s = emits [LoadLocal i, LoadLocal xs, GetListLen, Prim IntLt] s;
          let j_exit = here s;
          let s = emits [JumpIfNot 0] s;
          let (nid, s) = with_pool (pool_node_id ''n_flow_parallel_list'') s;
          let s = emits [LoadLocal out, LoadLocal xs, LoadLocal i, GetListElemDyn, CallClosure 0 nid, ListAppend,
            StoreLocal out, LoadLocal i] s;
          let (one, s) = with_pool (pool_int 1) s;
          let s = emits [PushConst one, Prim IntAdd, StoreLocal i] s;
          let jump_back = here s;
          let s = emits [Jump (jump_offset jump_back loop_top)] s;
          let s = patch_jump j_exit (here s) s;
          Some (emits [LoadLocal out] s) }"

definition flow_branch_code :: "nat \<Rightarrow> Op list" where
  "flow_branch_code nid =
     [LoadLocal 0, LoadLocal 3, CallClosure 1 nid, JumpIfNot (jump_offset 3 8),
      LoadLocal 1, LoadLocal 3, CallClosure 1 nid, Return,
      LoadLocal 2, LoadLocal 3, CallClosure 1 nid, Return]"

definition emit_flow_branch :: "CompileEnv \<Rightarrow> action list \<Rightarrow> action" where
  "emit_flow_branch E args s =
     do { s \<leftarrow> arg args 0 s;
          s \<leftarrow> arg args 1 s;
          s \<leftarrow> arg args 2 s;
          let (nid, s) = with_pool (pool_node_id ''n_flow_branch'') s;
          (fn_id, s) \<leftarrow> install_trampoline E ''__flow_branch'' 4 4 (flow_branch_code nid) s;
          Some (emits [MakeClosure fn_id 3] s) }"

definition flow_retry_code :: "nat \<Rightarrow> nat \<Rightarrow> nat \<Rightarrow> nat \<Rightarrow> Op list" where
  "flow_retry_code call_nid ok_idx zero one =
     [PushConst zero, StoreLocal 3,
      LoadLocal 3, LoadLocal 1, Prim IntLt, JumpIfNot (jump_offset 5 20),
      LoadLocal 0, LoadLocal 2, CallClosure 1 call_nid, StoreLocal 4,
      LoadLocal 4, TestVariant ok_idx, JumpIfNot (jump_offset 12 15), LoadLocal 4, Return,
      LoadLocal 3, PushConst one, Prim IntAdd, StoreLocal 3, Jump (jump_offset 19 2),
      LoadLocal 4, Return]"

definition emit_flow_retry :: "CompileEnv \<Rightarrow> action list \<Rightarrow> action" where
  "emit_flow_retry E args s =
     do { s \<leftarrow> arg args 0 s;
          s \<leftarrow> arg args 1 s;
          let (call_nid, s) = with_pool (pool_node_id ''n_flow_retry'') s;
          let (ok_idx, s) = with_pool (pool_variant ''Ok'') s;
          let (zero, s) = with_pool (pool_int 0) s;
          let (one, s) = with_pool (pool_int 1) s;
          (fn_id, s) \<leftarrow> install_trampoline E ''__flow_retry'' 3 5 (flow_retry_code call_nid ok_idx zero one) s;
          Some (emits [MakeClosure fn_id 2] s) }"

definition flow_retry_backoff_code ::
  "nat \<Rightarrow> nat \<Rightarrow> nat \<Rightarrow> nat \<Rightarrow> nat \<Rightarrow> nat \<Rightarrow> nat \<Rightarrow> nat \<Rightarrow> Op list" where
  "flow_retry_backoff_code call_nid sleep_nid kind_idx op_idx ok_idx zero one two =
     [LoadLocal 2, StoreLocal 6, PushConst zero, StoreLocal 4,
      LoadLocal 4, LoadLocal 1, Prim IntLt, JumpIfNot (jump_offset 7 33),
      PushConst zero, LoadLocal 4, Prim IntLt, JumpIfNot (jump_offset 11 19),
      LoadLocal 6, EffectCall kind_idx op_idx 1 sleep_nid, Pop,
      LoadLocal 6, PushConst two, Prim NumMul, StoreLocal 6,
      LoadLocal 0, LoadLocal 3, CallClosure 1 call_nid, StoreLocal 5,
      LoadLocal 5, TestVariant ok_idx, JumpIfNot (jump_offset 25 28), LoadLocal 5, Return,
      LoadLocal 4, PushConst one, Prim IntAdd, StoreLocal 4, Jump (jump_offset 32 4),
      LoadLocal 5, Return]"

definition emit_flow_retry_with_backoff :: "CompileEnv \<Rightarrow> action list \<Rightarrow> action" where
  "emit_flow_retry_with_backoff E args s =
     do { s \<leftarrow> arg args 0 s;
          s \<leftarrow> arg args 1 s;
          s \<leftarrow> arg args 2 s;
          let (call_nid, s) = with_pool (pool_node_id ''n_flow_retry_backoff'') s;
          let (sleep_nid, s) = with_pool (pool_node_id ''n_flow_retry_backoff_sleep'') s;
          let (kind_idx, s) = with_pool (pool_str ''time'') s;
          let (op_idx, s) = with_pool (pool_str ''sleep_ms'') s;
          let (ok_idx, s) = with_pool (pool_variant ''Ok'') s;
          let (zero, s) = with_pool (pool_int 0) s;
          let (one, s) = with_pool (pool_int 1) s;
          let (two, s) = with_pool (pool_int 2) s;
          (fn_id, s) \<leftarrow> install_trampoline E ''__flow_retry_backoff'' 4 7
            (flow_retry_backoff_code call_nid sleep_nid kind_idx op_idx ok_idx zero one two) s;
          Some (emits [MakeClosure fn_id 3] s) }"

section \<open>Calls\<close>

definition higher_order :: "CompileEnv \<Rightarrow> action list \<Rightarrow> nat \<Rightarrow> ((string \<times> string) \<times> action) list" where
  "higher_order E args node_id_idx =
     [((''result'', ''map''), emit_variant_map args ''Ok'' True),
      ((''result'', ''and_then''), emit_variant_map args ''Ok'' False),
      ((''result'', ''map_err''), emit_variant_map args ''Err'' True),
      ((''result'', ''or_else''), emit_variant_or_else args ''Err'' 1),
      ((''option'', ''map''), emit_variant_map args ''Some'' True),
      ((''option'', ''and_then''), emit_variant_map args ''Some'' False),
      ((''option'', ''or_else''), emit_variant_or_else args ''None'' 0),
      ((''option'', ''unwrap_or_else''), emit_option_unwrap_or_else args),
      ((''result'', ''unwrap_or_else''), emit_result_unwrap_or_else args),
      ((''list'', ''map''), emit_list_map args),
      ((''list'', ''par_map''), emit_list_par_map args),
      ((''list'', ''sort_by''), emit_list_sort_by args),
      ((''list'', ''filter''), emit_list_filter args),
      ((''list'', ''fold''), emit_list_fold args),
      ((''iter'', ''from_list''), emit_iter_from_list args),
      ((''iter'', ''unfold''), emit_iter_unfold args),
      ((''iter'', ''next''), emit_iter_next args),
      ((''iter'', ''is_empty''), emit_iter_is_empty args),
      ((''iter'', ''count''), emit_iter_count args),
      ((''iter'', ''take''), emit_iter_take args),
      ((''iter'', ''skip''), emit_iter_skip args),
      ((''iter'', ''to_list''), emit_iter_to_list args),
      ((''iter'', ''collect''), emit_iter_to_list args),
      ((''iter'', ''map''), emit_iter_map args),
      ((''iter'', ''filter''), emit_iter_filter args),
      ((''iter'', ''fold''), emit_iter_fold args),
      ((''map'', ''fold''), emit_map_fold args node_id_idx),
      ((''flow'', ''sequential''), emit_flow_sequential E args),
      ((''flow'', ''branch''), emit_flow_branch E args),
      ((''flow'', ''retry''), emit_flow_retry E args),
      ((''flow'', ''retry_with_backoff''), emit_flow_retry_with_backoff E args),
      ((''flow'', ''parallel''), emit_flow_parallel E args),
      ((''flow'', ''parallel_list''), emit_flow_parallel_list args)]"

definition try_emit_higher_order :: "CompileEnv \<Rightarrow> string \<Rightarrow> string \<Rightarrow> action list \<Rightarrow> nat \<Rightarrow> action option" where
  "try_emit_higher_order E module op_name args node_id_idx =
     map_of (higher_order E args node_id_idx) (module, op_name)"

fun run_all :: "action list \<Rightarrow> action" where
  "run_all [] s = Some s"
| "run_all (a # as) s = Option.bind (a s) (run_all as)"

text \<open>\<open>alias.op\<close> with \<open>alias\<close> an imported module.\<close>

definition module_callee :: "CompileEnv \<Rightarrow> CExpr \<Rightarrow> (string \<times> string) option" where
  "module_callee E callee =
     (case callee of
        FieldAccess (Var name) field \<Rightarrow> map_option (\<lambda>m. (m, field)) (map_of (ce_module_aliases E) name)
      | _ \<Rightarrow> None)"

definition call_value :: "action \<Rightarrow> action list \<Rightarrow> nat \<Rightarrow> action" where
  "call_value callee args node_id_idx s =
     do { s \<leftarrow> callee s;
          s \<leftarrow> run_all args s;
          Some (emits [CallClosure (as_u16 (length args)) node_id_idx] s) }"

definition compile_call ::
  "CompileEnv \<Rightarrow> string option \<Rightarrow> CExpr \<Rightarrow> action \<Rightarrow> action list \<Rightarrow> bool \<Rightarrow> action" where
  "compile_call E nid callee callee_act args tail s =
     (let (node_id_idx, s) = with_pool (pool_node_id (case nid of Some i \<Rightarrow> i | None \<Rightarrow> ''n_?'')) s;
          arity = as_u16 (length args) in
      case module_callee E callee of
        Some (module, field) \<Rightarrow>
          (case try_emit_higher_order E module field args node_id_idx of
             Some act \<Rightarrow> act s
           | None \<Rightarrow>
               do { s \<leftarrow> run_all args s;
                    let (kind_idx, s) = with_pool (pool_str module) s;
                    let (op_idx, s) = with_pool (pool_str field) s;
                    Some (emits [EffectCall kind_idx op_idx arity node_id_idx] s) })
      | None \<Rightarrow>
          (case callee of
             Var name \<Rightarrow>
               (case map_of (ce_function_names E) name of
                  Some fn_id \<Rightarrow>
                    do { s \<leftarrow> run_all args s;
                         Some (emits [if tail then TailCall fn_id arity node_id_idx
                                      else Call fn_id arity node_id_idx] s) }
                | None \<Rightarrow>
                    if name = ''todo'' then
                      (let (idx, s) = with_pool (pool_str ''todo() reached'') s in Some (emits [Panic idx] s))
                    else
                      (case map_of (fc_locals s) name of
                         Some slot \<Rightarrow> call_value (\<lambda>s. Some (emits [LoadLocal slot] s)) args node_id_idx s
                       | None \<Rightarrow> call_value callee_act args node_id_idx s))
           | _ \<Rightarrow> call_value callee_act args node_id_idx s))"

section \<open>Expressions\<close>

definition child :: "string option \<Rightarrow> nat \<Rightarrow> string option" where
  "child nid i = map_option (\<lambda>n. n @ ''.'' @ nat_text i) nid"

definition compile_var :: "CompileEnv \<Rightarrow> string \<Rightarrow> action" where
  "compile_var E name s =
     (case map_of (fc_locals s) name of
        Some slot \<Rightarrow> Some (emits [LoadLocal slot] s)
      | None \<Rightarrow>
          (case map_of (ce_function_names E) name of
             Some fn_id \<Rightarrow> Some (emits [MakeClosure fn_id 0] s)
           | None \<Rightarrow> None))"

text \<open>What a \<open>let\<close> learns about its right-hand side before that is compiled.\<close>

definition let_types :: "string \<Rightarrow> CExpr \<Rightarrow> FnCompiler \<Rightarrow> FnCompiler" where
  "let_types name v s =
     (case v of
        RecordLit fs \<Rightarrow>
          s\<lparr>fc_local_record_field_types :=
              imap_insert name (fold (\<lambda>f m. imap_insert (fst f) (classify_expr s (snd f)) m) fs [])
                (fc_local_record_field_types s)\<rparr>
      | _ \<Rightarrow> s)"

definition bind_let :: "string \<Rightarrow> NumTy \<Rightarrow> FnCompiler \<Rightarrow> FnCompiler" where
  "bind_let name nty s =
     (let (slot, s) = alloc_local name s;
          s = s\<lparr>fc_local_types := imap_insert name nty (fc_local_types s)\<rparr>
      in emits [StoreLocal slot] s)"

text \<open>The values of a record literal and the indices of their names, in turn.\<close>

fun compile_fields :: "(string \<times> action) list \<Rightarrow> nat list \<Rightarrow> FnCompiler \<Rightarrow> (nat list \<times> FnCompiler) option" where
  "compile_fields [] idxs s = Some (idxs, s)"
| "compile_fields ((name, v) # fs) idxs s =
     do { s \<leftarrow> v s;
          let (i, s) = with_pool (pool_field name) s;
          compile_fields fs (idxs @ [i]) s }"

text \<open>A statement, and dropping its value.\<close>

definition statement :: "action \<Rightarrow> action" where
  "statement a s = map_option (emits [Pop]) (a s)"

function compile_expr :: "CompileEnv \<Rightarrow> string option \<Rightarrow> CExpr \<Rightarrow> bool \<Rightarrow> action" where
  "compile_expr E nid (Literal l) tail s = Some (compile_lit E l s)"
| "compile_expr E nid (Var name) tail s = compile_var E name s"
| "compile_expr E nid (CLet name ty v body) tail s =
     do { let nty = (case ty of Some t \<Rightarrow> classify_type_expr t | None \<Rightarrow> classify_expr s v);
          s \<leftarrow> compile_expr E (child nid 0) v False (let_types name v s);
          compile_expr E (child nid 1) body tail (bind_let name nty s) }"
| "compile_expr E nid (CBlock statements result) tail s =
     do { s \<leftarrow> run_all (map (\<lambda>(i, e). statement (compile_expr E (child nid i) e False)) (enumerate 0 statements)) s;
          compile_expr E (child nid (length statements)) result tail s }"
| "compile_expr E nid (CCall callee args) tail s =
     compile_call E nid callee (compile_expr E (child nid 0) callee False)
       (map (\<lambda>(i, a). compile_expr E (child nid i) a False) (enumerate 1 args)) tail s"
| "compile_expr E nid (Constructor name args) tail s =
     do { s \<leftarrow> run_all (map (\<lambda>(i, a). compile_expr E (child nid i) a False) (enumerate 0 args)) s;
          let (name_idx, s) = with_pool (pool_variant name) s;
          Some (emits [MakeVariant name_idx (as_u16 (length args))] s) }"
| "compile_expr E nid (CMatch scrutinee arms) tail s =
     compile_match E (compile_expr E (child nid 0) scrutinee False)
       (map (\<lambda>(i, arm). (fst arm, compile_expr E (child nid (2 * i + 2)) (snd arm) tail)) (enumerate 0 arms)) s"
| "compile_expr E nid (RecordLit fs) tail s =
     do { (idxs, s) \<leftarrow>
            compile_fields (map (\<lambda>(i, f). (fst f, compile_expr E (child nid i) (snd f) False)) (enumerate 0 fs)) [] s;
          let (shape_idx, s) = with_pool (pool_record_shape idxs) s;
          Some (emits [MakeRecord shape_idx (as_u16 (length idxs))] s) }"
| "compile_expr E nid (TupleLit items) tail s =
     do { s \<leftarrow> run_all (map (\<lambda>(i, a). compile_expr E (child nid i) a False) (enumerate 0 items)) s;
          Some (emits [MakeTuple (as_u16 (length items))] s) }"
| "compile_expr E nid (ListLit items) tail s =
     do { s \<leftarrow> run_all (map (\<lambda>(i, a). compile_expr E (child nid i) a False) (enumerate 0 items)) s;
          Some (emits [MakeList (as_u32 (length items))] s) }"
| "compile_expr E nid (FieldAccess v field) tail s =
     do { s \<leftarrow> compile_expr E (child nid 0) v False s;
          let (name_idx, s) = with_pool (pool_field field) s;
          let site_idx = fc_field_get_sites s;
          let s = s\<lparr>fc_field_get_sites := as_u32 (site_idx + 1)\<rparr>;
          Some (emits [GetField name_idx site_idx] s) }"
| "compile_expr E nid (BinOp op' lhs rhs) tail s =
     compile_binop op' lhs rhs (compile_expr E (child nid 0) lhs False) (compile_expr E (child nid 1) rhs False) s"
| "compile_expr E nid (UnaryOp op' e) tail s =
     Option.bind (compile_expr E (child nid 0) e False s) (emit_unary op')"
| "compile_expr E nid (Lambda params ret effs rv body) tail s = compile_lambda params body s"
| "compile_expr E nid (CReturn v) tail s = map_option (emits [Return]) (compile_expr E (child nid 0) v True s)"
  by pat_completeness auto

termination
  by (relation "measure (\<lambda>(_, _, e, _, _). size e)") (auto simp: termination_simp)

declare compile_expr.simps [simp del]

end
