(* ===== verification/Cp_Code.thy ===== *)
theory Cp_Code
  imports Cp_Compile Bc_VmRun Bc_Peephole
begin

text \<open>
  The stack effect of code under construction. A piece of code is judged at the position it is
  emitted to: a table gives some of its instructions a depth, and the piece goes on only inside
  itself or to its end. Jumps that are still to be patched are holes, each with the depth its target
  must have. Depths are relative, so a piece can be used on a deeper stack.
\<close>

section \<open>Pieces of code\<close>

definition hole_ok :: "Op \<Rightarrow> nat \<Rightarrow> nat \<Rightarrow> nat option \<Rightarrow> bool" where
  "hole_ok op' d dh after \<longleftrightarrow>
     (case op' of Jump _ \<Rightarrow> d = dh | JumpIfNot _ \<Rightarrow> d = Suc dh \<and> after = Some dh | _ \<Rightarrow> False)"

definition op_ok :: "nat \<Rightarrow> nat \<Rightarrow> nat option list \<Rightarrow> Op \<Rightarrow> nat \<Rightarrow> nat \<Rightarrow> bool" where
  "op_ok n len ds op' pc d \<longleftrightarrow>
     op_pops op' \<le> d \<and>
     list_all (\<lambda>t. n \<le> t \<and> t - n \<le> len \<and> ds ! (t - n) = Some (d - op_pops op' + op_pushes op')) (op_next op' pc)"

definition flows :: "nat \<Rightarrow> Op list \<Rightarrow> (nat \<rightharpoonup> nat) \<Rightarrow> nat option list \<Rightarrow> bool" where
  "flows n seg H ds \<longleftrightarrow>
     plain_ops seg \<and> length ds = Suc (length seg) \<and>
     (\<forall>i < length seg. \<forall>d. ds ! i = Some d \<longrightarrow>
        (case H (n + i) of
           Some dh \<Rightarrow> hole_ok (seg ! i) d dh (ds ! Suc i)
         | None \<Rightarrow> op_ok n (length seg) ds (seg ! i) (n + i) d))"

definition runs :: "nat \<Rightarrow> Op list \<Rightarrow> (nat \<rightharpoonup> nat) \<Rightarrow> nat \<Rightarrow> nat \<Rightarrow> bool" where
  "runs n seg H a b \<longleftrightarrow> (\<exists>ds. flows n seg H ds \<and> ds ! 0 = Some a \<and> ds ! length seg \<in> {None, Some b})"

lemma runs_cong:
  assumes "\<And>i. i < length seg \<Longrightarrow> H (n + i) = H' (n + i)"
  shows "runs n seg H a b \<longleftrightarrow> runs n seg H' a b"
  using assms by (simp add: runs_def flows_def cong: conj_cong)

lemma plain_ops_simps [simp]:
  "plain_ops []" "plain_ops (op' # ops) \<longleftrightarrow> (\<forall>f. op' \<noteq> Fused f) \<and> plain_ops ops"
  "plain_ops (xs @ ys) \<longleftrightarrow> plain_ops xs \<and> plain_ops ys"
  by (auto simp: plain_ops_def list_all_iff split: Op.splits)

lemma plain_ops_nth: "plain_ops ops \<longleftrightarrow> (\<forall>i < length ops. \<forall>f. ops ! i \<noteq> Fused f)"
  by (auto simp: plain_ops_def list_all_length split: Op.splits)

lemma runs_plain: "runs n seg H a b \<Longrightarrow> plain_ops seg"
  by (auto simp: runs_def flows_def)

lemma runs_Nil [simp]: "runs n [] H a a"
  unfolding runs_def flows_def by (intro exI [of _ "[Some a]"]) simp

text \<open>Code that is never reached has no depths.\<close>

lemma flows_dead: "plain_ops seg \<Longrightarrow> flows n seg H (replicate (Suc (length seg)) None)"
  by (simp add: flows_def nth_replicate del: replicate_Suc)

lemma op_ok_frame:
  assumes "op_ok n len ds op' pc d" "length ds = Suc len"
  shows "op_ok n len (map (map_option (\<lambda>x. x + k)) ds) op' pc (d + k)"
  using assms by (auto simp: op_ok_def list_all_iff nth_map le_imp_less_Suc)

lemma runs_frame:
  assumes "runs n seg H a b"
  shows "runs n seg (\<lambda>j. map_option (\<lambda>x. x + k) (H j)) (a + k) (b + k)"
proof -
  obtain ds where ds: "flows n seg H ds" "ds ! 0 = Some a" "ds ! length seg \<in> {None, Some b}"
    using assms by (auto simp: runs_def)
  let ?ds = "map (map_option (\<lambda>x. x + k)) ds"
  have len: "length ds = Suc (length seg)"
    using ds(1) by (simp add: flows_def)
  have "flows n seg (\<lambda>j. map_option (\<lambda>x. x + k) (H j)) ?ds"
    unfolding flows_def
  proof (intro conjI allI impI)
    fix i e assume i: "i < length seg" "?ds ! i = Some e"
    then obtain d where d: "ds ! i = Some d" "e = d + k"
      using len by (auto simp: nth_map)
    have nxt: "?ds ! Suc i = map_option (\<lambda>x. x + k) (ds ! Suc i)"
      using i(1) len by simp
    show "case map_option (\<lambda>x. x + k) (H (n + i)) of
            Some dh \<Rightarrow> hole_ok (seg ! i) e dh (?ds ! Suc i)
          | None \<Rightarrow> op_ok n (length seg) ?ds (seg ! i) (n + i) e"
    proof (cases "H (n + i)")
      case None
      then show ?thesis
        using ds(1) i(1) d op_ok_frame [OF _ len, of n _ _ d k] by (auto simp: flows_def)
    next
      case (Some dh)
      then have "hole_ok (seg ! i) d dh (ds ! Suc i)"
        using ds(1) i(1) d by (auto simp: flows_def)
      then show ?thesis
        using Some d(2) nxt by (auto simp: hole_ok_def split: Op.splits)
    qed
  qed (use len ds(1) in \<open>simp_all add: flows_def\<close>)
  then show ?thesis
    unfolding runs_def using ds(2,3) len by (intro exI [of _ ?ds]) (auto simp: nth_map)
qed

lemma flows_append:
  assumes "flows n s1 H ds1" "flows (n + length s1) s2 H ds2" "ds1 ! length s1 = ds2 ! 0"
  shows "flows n (s1 @ s2) H (butlast ds1 @ ds2)"
proof -
  have len: "length ds1 = Suc (length s1)" "length ds2 = Suc (length s2)"
    using assms by (simp_all add: flows_def)
  let ?ds = "butlast ds1 @ ds2"
  have at1: "?ds ! i = ds1 ! i" if "i \<le> length s1" for i
    using that len assms(3) by (cases "i = length s1") (auto simp: nth_append nth_butlast)
  have at2: "?ds ! (length s1 + i) = ds2 ! i" for i
    using len by (simp add: nth_append)
  show ?thesis
    unfolding flows_def
  proof (intro conjI allI impI)
    fix i d assume i: "i < length (s1 @ s2)" and d: "?ds ! i = Some d"
    show "case H (n + i) of Some dh \<Rightarrow> hole_ok ((s1 @ s2) ! i) d dh (?ds ! Suc i)
        | None \<Rightarrow> op_ok n (length (s1 @ s2)) ?ds ((s1 @ s2) ! i) (n + i) d"
    proof (cases "i < length s1")
      case True
      then have old: "case H (n + i) of Some dh \<Rightarrow> hole_ok (s1 ! i) d dh (ds1 ! Suc i)
          | None \<Rightarrow> op_ok n (length s1) ds1 (s1 ! i) (n + i) d"
        using assms(1) d at1 [of i] by (simp add: flows_def)
      have nth: "(s1 @ s2) ! i = s1 ! i"
        using True by (simp add: nth_append)
      have nxt: "?ds ! Suc i = ds1 ! Suc i"
        using True at1 [of "Suc i"] by simp
      have go: "list_all (\<lambda>t. n \<le> t \<and> t - n \<le> length s1 \<and> ds1 ! (t - n) = x) ts \<Longrightarrow>
          list_all (\<lambda>t. n \<le> t \<and> t - n \<le> length s1 + length s2 \<and> ?ds ! (t - n) = x) ts" for ts x
        unfolding list_all_iff by (simp add: at1 trans_le_add1)
      show ?thesis
        using old unfolding nth nxt by (auto simp: op_ok_def split: option.splits intro!: go)
    next
      case False
      then obtain j where j: "i = length s1 + j" "j < length s2"
        using i by (metis add_diff_inverse_nat length_append nat_add_left_cancel_less)
      then have old: "case H (n + length s1 + j) of Some dh \<Rightarrow> hole_ok (s2 ! j) d dh (ds2 ! Suc j)
          | None \<Rightarrow> op_ok (n + length s1) (length s2) ds2 (s2 ! j) (n + length s1 + j) d"
        using assms(2) d at2 [of j] by (simp add: flows_def)
      have go: "list_all (\<lambda>t. n + length s1 \<le> t \<and> t - (n + length s1) \<le> length s2 \<and> ds2 ! (t - (n + length s1)) = x) ts \<Longrightarrow>
          list_all (\<lambda>t. n \<le> t \<and> t - n \<le> length s1 + length s2 \<and> ?ds ! (t - n) = x) ts" for ts x
      proof (rule list.pred_mono_strong, assumption)
        fix t assume t: "n + length s1 \<le> t \<and> t - (n + length s1) \<le> length s2 \<and> ds2 ! (t - (n + length s1)) = x"
        then have "t - n = length s1 + (t - (n + length s1))"
          by simp
        then show "n \<le> t \<and> t - n \<le> length s1 + length s2 \<and> ?ds ! (t - n) = x"
          using t at2 [of "t - (n + length s1)"] by auto
      qed
      have nxt: "?ds ! Suc i = ds2 ! Suc j"
        using at2 [of "Suc j"] j by simp
      have nth: "(s1 @ s2) ! i = s2 ! j" and pc: "n + i = n + length s1 + j"
        using j by simp_all
      show ?thesis
        using old unfolding nxt nth pc by (auto simp: op_ok_def split: option.splits intro!: go)
    qed
  qed (use len assms in \<open>simp_all add: flows_def\<close>)
qed

lemma runs_append:
  assumes "runs n s1 H a b" "runs (n + length s1) s2 H b c"
  shows "runs n (s1 @ s2) H a c"
proof -
  obtain ds1 where ds1: "flows n s1 H ds1" "ds1 ! 0 = Some a" "ds1 ! length s1 \<in> {None, Some b}"
    using assms(1) by (auto simp: runs_def)
  obtain ds where ds: "flows (n + length s1) s2 H ds" "ds ! 0 = Some b" "ds ! length s2 \<in> {None, Some c}"
    using assms(2) by (auto simp: runs_def)
  let ?dead = "replicate (Suc (length s2)) None"
  obtain ds2 where ds2: "flows (n + length s1) s2 H ds2" "ds1 ! length s1 = ds2 ! 0" "ds2 ! length s2 \<in> {None, Some c}"
  proof (cases "ds1 ! length s1")
    case None
    then show ?thesis
      using flows_dead [OF runs_plain [OF assms(2)], of "n + length s1" H] that [of ?dead] by (simp del: replicate_Suc)
  next
    case (Some _)
    then show ?thesis
      using ds ds1(3) that [of ds] by simp
  qed
  have len: "length ds1 = Suc (length s1)"
    using ds1(1) by (simp add: flows_def)
  have "(butlast ds1 @ ds2) ! 0 = Some a"
    using ds1(2) ds2(2) len by (cases s1) (auto simp: nth_append nth_butlast)
  moreover have "(butlast ds1 @ ds2) ! length (s1 @ s2) = ds2 ! length s2"
    using len by (simp add: nth_append)
  ultimately show ?thesis
    unfolding runs_def using flows_append [OF ds1(1) ds2(1,2)] ds2(3) by (intro exI) auto
qed

section \<open>Straight code, tables and patches\<close>

fun depth_after :: "Op list \<Rightarrow> nat \<Rightarrow> nat option" where
  "depth_after [] d = Some d"
| "depth_after (op' # ops) d =
     (if op_pops op' \<le> d \<and> op_next op' 0 = [1] \<and> jump_offset_of op' = None \<and> (\<forall>f. op' \<noteq> Fused f)
      then depth_after ops (d - op_pops op' + op_pushes op') else None)"

lemma op_next_straight:
  assumes "op_next op' 0 = [1]" "jump_offset_of op' = None" "\<forall>f. op' \<noteq> Fused f"
  shows "op_next op' pc = [Suc pc]"
  using assms by (cases op') (simp_all add: op_next_def jump_offset_of_def)

lemma runs_one:
  assumes "op_next op' n = [Suc n]" "op_pops op' \<le> a" "H n = None" "\<forall>f. op' \<noteq> Fused f"
  shows "runs n [op'] H a (a - op_pops op' + op_pushes op')"
  unfolding runs_def flows_def using assms
  by (intro exI [of _ "[Some a, Some (a - op_pops op' + op_pushes op')]"]) (auto simp: op_ok_def)

lemma runs_stop:
  assumes "op_next op' n = []" "op_pops op' \<le> a" "H n = None" "\<forall>f. op' \<noteq> Fused f"
  shows "runs n [op'] H a b"
  unfolding runs_def flows_def using assms by (intro exI [of _ "[Some a, None]"]) (auto simp: op_ok_def)

lemma runs_straight:
  assumes "depth_after ops a = Some b" "\<And>i. i < length ops \<Longrightarrow> H (n + i) = None"
  shows "runs n ops H a b"
  using assms
proof (induction ops arbitrary: a n)
  case (Cons op' ops)
  have first: "op_pops op' \<le> a" "op_next op' 0 = [1]" "jump_offset_of op' = None" "\<forall>f. op' \<noteq> Fused f"
    and rest: "depth_after ops (a - op_pops op' + op_pushes op') = Some b"
    using Cons.prems(1) by (simp_all split: if_splits)
  have "runs n [op'] H a (a - op_pops op' + op_pushes op')"
    using runs_one [OF op_next_straight [OF first(2-4)] first(1) _ first(4)] Cons.prems(2) [of 0] by simp
  moreover have "runs (Suc n) ops H (a - op_pops op' + op_pushes op') b"
    using Cons.IH [OF rest, of "Suc n"] Cons.prems(2) by force
  ultimately show ?case
    using runs_append [of n "[op']" H a _ ops b] by simp
qed simp

lemma jump_lands:
  assumes "j < 2 ^ 16" "t < 2 ^ 16"
  shows "jump_target (Suc j) (jump_offset j t) = t"
proof -
  have "jump_offset j t = int t - int j - 1"
    using assms by (simp add: jump_offset_def wrap32_id)
  then show ?thesis
    using assms by (simp add: jump_target_def wrap32_id i32_as_usize_def)
qed

text \<open>A table of depths for a whole piece without holes, checked instruction by instruction.\<close>

fun table_ok :: "nat \<Rightarrow> nat option list \<Rightarrow> nat \<Rightarrow> Op list \<Rightarrow> nat option list \<Rightarrow> bool" where
  "table_ok n ds pc (op' # ops) (d # rest) \<longleftrightarrow>
     (\<forall>f. op' \<noteq> Fused f) \<and> (case d of None \<Rightarrow> True | Some d \<Rightarrow> op_ok n (length ds - 1) ds op' pc d) \<and> table_ok n ds (Suc pc) ops rest"
| "table_ok n ds pc [] rest \<longleftrightarrow> length rest = 1"
| "table_ok n ds pc _ [] \<longleftrightarrow> False"

lemma table_ok_nth:
  "table_ok n ds pc seg rest \<Longrightarrow>
   plain_ops seg \<and> length rest = Suc (length seg) \<and>
   (\<forall>i < length seg. \<forall>d. rest ! i = Some d \<longrightarrow> op_ok n (length ds - 1) ds (seg ! i) (pc + i) d)"
proof (induction n ds pc seg rest rule: table_ok.induct)
  case (1 n ds pc op' ops d rest)
  then have IH: "length rest = Suc (length ops)"
    "\<forall>i < length ops. \<forall>d. rest ! i = Some d \<longrightarrow> op_ok n (length ds - 1) ds (ops ! i) (Suc pc + i) d"
    and now: "case d of None \<Rightarrow> True | Some d \<Rightarrow> op_ok n (length ds - 1) ds op' pc d" and plain: "plain_ops (op' # ops)"
    by simp_all
  have "op_ok n (length ds - 1) ds ((op' # ops) ! i) (pc + i) e"
    if "i < length (op' # ops)" "(d # rest) ! i = Some e" for i e
    using that IH(2) now by (cases i) auto
  then show ?case
    using IH(1) plain by simp
qed simp_all

lemma runs_table:
  assumes "table_ok n ds n seg ds" "ds ! 0 = Some a" "last ds = None \<or> last ds = Some b"
  shows "runs n seg Map.empty a b"
proof -
  have *: "plain_ops seg" "length ds = Suc (length seg)"
    "\<forall>i < length seg. \<forall>d. ds ! i = Some d \<longrightarrow> op_ok n (length seg) ds (seg ! i) (n + i) d"
    using table_ok_nth [OF assms(1)] by auto
  then have "last ds = ds ! length seg"
    by (subst last_conv_nth) auto
  then show ?thesis
    unfolding runs_def flows_def using assms * by (intro exI [of _ ds]) auto
qed

text \<open>Patching holes of one depth to the end of the piece.\<close>

fun patched :: "nat list \<Rightarrow> nat \<Rightarrow> Op list \<Rightarrow> Op list" where
  "patched [] t code = code"
| "patched (j # js) t code = patched js t (code[j := set_offset (jump_offset j t) (code ! j)])"

lemma fc_code_patch_all: "fc_code (patch_all js t s) = patched js t (fc_code s)"
  by (induction js arbitrary: s) (simp_all add: patch_jump_def)

lemma length_patched [simp]: "length (patched js t code) = length code"
  by (induction js arbitrary: code) simp_all

lemma patched_append:
  "\<forall>j \<in> set js. length pre \<le> j \<and> j < length pre + length code \<Longrightarrow>
   patched js t (pre @ code) = pre @ drop (length pre) (patched js t (pre @ code))"
proof (induction js arbitrary: code)
  case (Cons j js)
  let ?op = "set_offset (jump_offset j t) ((pre @ code) ! j)"
  have "(pre @ code)[j := ?op] = pre @ code[j - length pre := ?op]"
    using Cons.prems by (simp add: list_update_append)
  then show ?case
    using Cons.IH [of "code[j - length pre := ?op]"] Cons.prems by simp
qed simp

lemma set_offset_twice: "set_offset b (set_offset a op') = set_offset b op'"
  by (cases op') (simp_all add: set_offset_def)

lemma nth_patched:
  "i < length code \<Longrightarrow>
   patched js t code ! i = (if i \<in> set js then set_offset (jump_offset i t) (code ! i) else code ! i)"
proof (induction js arbitrary: code)
  case (Cons j js)
  then show ?case
    by (cases "j = i") (auto simp: set_offset_twice)
qed simp

lemma patched_hole_ok:
  assumes "hole_ok op' d dh (ds ! Suc i)" "n + len < 2 ^ 16" "i < len" "ds ! len = Some dh"
  shows "op_ok n len ds (set_offset (jump_offset (n + i) (n + len)) op') (n + i) d"
proof -
  have "jump_target (Suc (n + i)) (jump_offset (n + i) (n + len)) = n + len"
    using assms(2,3) by (intro jump_lands) simp_all
  then show ?thesis
    using assms by (cases op')
      (auto simp: hole_ok_def op_ok_def set_offset_def op_next_def op_pops_def op_pushes_def Suc_diff_le)
qed

lemma runs_patched:
  assumes run: "runs n seg H a d" and len: "length pre = n" "n + length seg < 2 ^ 16"
    and js: "\<forall>j \<in> set js. n \<le> j \<and> j < n + length seg \<and> H j = Some d"
  shows "runs n (drop n (patched js (n + length seg) (pre @ seg))) (\<lambda>j. if j \<in> set js then None else H j) a d"
proof -
  let ?seg = "drop n (patched js (n + length seg) (pre @ seg))"
  obtain ds where ds: "flows n seg H ds" "ds ! 0 = Some a" "ds ! length seg \<in> {None, Some d}"
    using run by (auto simp: runs_def)
  have lends: "length ds = Suc (length seg)"
    using ds(1) by (simp add: flows_def)
  let ?ds = "ds[length seg := Some d]"
  have at: "?seg ! i = (if n + i \<in> set js then set_offset (jump_offset (n + i) (n + length seg)) (seg ! i) else seg ! i)"
    if "i < length seg" for i
    using that len(1) by (auto simp: nth_patched nth_append)
  have keep: "op_ok n (length seg) ds op' pc e \<Longrightarrow> op_ok n (length seg) ?ds op' pc e" for op' pc e
    using ds(3) lends by (auto simp: op_ok_def list_all_iff nth_list_update)
  have seg: "length ?seg = length seg"
    using len(1) by simp
  have "flows n ?seg (\<lambda>j. if j \<in> set js then None else H j) ?ds"
    unfolding flows_def seg
  proof (intro conjI allI impI)
    fix i e assume i: "i < length seg" "?ds ! i = Some e"
    then have old: "case H (n + i) of Some dh \<Rightarrow> hole_ok (seg ! i) e dh (ds ! Suc i)
        | None \<Rightarrow> op_ok n (length seg) ds (seg ! i) (n + i) e"
      using ds(1) by (auto simp: flows_def)
    have hole: "hole_ok op' e dh (ds ! Suc i) \<Longrightarrow> hole_ok op' e dh (?ds ! Suc i)" for op' dh
      using ds(3) lends i(1) by (auto simp: hole_ok_def nth_list_update split: Op.splits)
    show "case if n + i \<in> set js then None else H (n + i) of
          Some dh \<Rightarrow> hole_ok (?seg ! i) e dh (?ds ! Suc i)
        | None \<Rightarrow> op_ok n (length seg) ?ds (?seg ! i) (n + i) e"
    proof (cases "n + i \<in> set js")
      case True
      then have "hole_ok (seg ! i) e d (?ds ! Suc i)"
        using old js by (auto intro: hole)
      then show ?thesis
        using True at [OF i(1)] patched_hole_ok [of "seg ! i" e d ?ds i n "length seg"] i(1) len lends by simp
    next
      case False
      then show ?thesis
        using old at [OF i(1)] by (auto split: option.splits intro: keep hole)
    qed
  next
    show "plain_ops ?seg"
      using ds(1) at len(1) by (auto simp: flows_def plain_ops_nth seg set_offset_def split: Op.splits)
  qed (use lends in simp)
  then show ?thesis
    unfolding runs_def seg using ds(2,3) lends by (intro exI [of _ ?ds]) (auto simp: nth_list_update)
qed

end
