(* ===== verification/Cp_Emitters.thy ===== *)
theory Cp_Emitters
  imports Cp_Code
begin

text \<open>
  What the compiler emits keeps the stack: every expression leaves one value more than it found, on
  every path that goes on. The compilation of an operand is an action with a contract; the code
  emitted in line for the standard library is checked against a depth table.
\<close>

section \<open>The contract of an action\<close>

text \<open>
  \<open>iter.next\<close> is left out: its code leaves different numbers of values behind on its three paths.
\<close>

fun no_iter_next :: "CompileEnv \<Rightarrow> CExpr \<Rightarrow> bool" where
  "no_iter_next E (Literal l) \<longleftrightarrow> True"
| "no_iter_next E (Var name) \<longleftrightarrow> True"
| "no_iter_next E (CCall callee args) \<longleftrightarrow>
     module_callee E callee \<noteq> Some (''iter'', ''next'') \<and> no_iter_next E callee \<and> list_all (no_iter_next E) args"
| "no_iter_next E (CLet name ty v body) \<longleftrightarrow> no_iter_next E v \<and> no_iter_next E body"
| "no_iter_next E (CMatch scrutinee arms) \<longleftrightarrow> no_iter_next E scrutinee \<and> list_all (\<lambda>arm. no_iter_next E (snd arm)) arms"
| "no_iter_next E (CBlock statements result) \<longleftrightarrow> list_all (no_iter_next E) statements \<and> no_iter_next E result"
| "no_iter_next E (Constructor name args) \<longleftrightarrow> list_all (no_iter_next E) args"
| "no_iter_next E (RecordLit fs) \<longleftrightarrow> list_all (\<lambda>f. no_iter_next E (snd f)) fs"
| "no_iter_next E (TupleLit items) \<longleftrightarrow> list_all (no_iter_next E) items"
| "no_iter_next E (ListLit items) \<longleftrightarrow> list_all (no_iter_next E) items"
| "no_iter_next E (FieldAccess v field) \<longleftrightarrow> no_iter_next E v"
| "no_iter_next E (Lambda params ret effs rv body) \<longleftrightarrow> no_iter_next E body"
| "no_iter_next E (BinOp op' lhs rhs) \<longleftrightarrow> no_iter_next E lhs \<and> no_iter_next E rhs"
| "no_iter_next E (UnaryOp op' e) \<longleftrightarrow> no_iter_next E e"
| "no_iter_next E (CReturn v) \<longleftrightarrow> no_iter_next E v"

definition balanced_code :: "Op list \<Rightarrow> bool" where
  "balanced_code code \<longleftrightarrow> plain_ops code \<and> (\<exists>ds. well_stacked code ds)"

text \<open>
  How the tables grow: new lambdas wait with bodies smaller than \<open>k\<close>, and every new function is
  balanced or waits for its body. The balance is claimed where an environment is given, for
  expressions without \<open>iter.next\<close>; how the tables grow is claimed in any case.
\<close>

definition grown :: "CompileEnv option \<Rightarrow> nat \<Rightarrow> FnCompiler \<Rightarrow> FnCompiler \<Rightarrow> bool" where
  "grown E k s s' \<longleftrightarrow>
     (\<exists>new fns. fc_pending_lambdas s' = new @ fc_pending_lambdas s \<and> fc_functions s' = fc_functions s @ fns \<and>
        (\<forall>pl \<in> set new. size (pl_body pl) < k \<and> pred_option (\<lambda>E. no_iter_next E (pl_body pl)) E) \<and>
        (\<forall>i < length fns. balanced_code (fn_code (fns ! i)) \<or>
           (\<exists>pl \<in> set new. pl_fn_id pl = as_u32 (length (fc_functions s) + i))))"

definition same_tables :: "FnCompiler \<Rightarrow> FnCompiler \<Rightarrow> bool" where
  "same_tables s s' \<longleftrightarrow> fc_pending_lambdas s' = fc_pending_lambdas s \<and> fc_functions s' = fc_functions s"

lemma grown_same: "same_tables s s' \<Longrightarrow> grown E k s s'"
  by (auto simp: grown_def same_tables_def)

lemma grown_mono: "grown E k s s' \<Longrightarrow> k \<le> m \<Longrightarrow> grown E m s s'"
  unfolding grown_def by (meson order_less_le_trans)

lemma grown_trans:
  assumes "grown E k s s1" "grown E k s1 s2"
  shows "grown E k s s2"
proof -
  obtain new1 fns1 where 1: "fc_pending_lambdas s1 = new1 @ fc_pending_lambdas s" "fc_functions s1 = fc_functions s @ fns1"
    "\<forall>pl \<in> set new1. size (pl_body pl) < k \<and> pred_option (\<lambda>E. no_iter_next E (pl_body pl)) E"
    "\<forall>i < length fns1. balanced_code (fn_code (fns1 ! i)) \<or>
       (\<exists>pl \<in> set new1. pl_fn_id pl = as_u32 (length (fc_functions s) + i))"
    using assms(1) by (auto simp: grown_def)
  obtain new2 fns2 where 2: "fc_pending_lambdas s2 = new2 @ fc_pending_lambdas s1" "fc_functions s2 = fc_functions s1 @ fns2"
    "\<forall>pl \<in> set new2. size (pl_body pl) < k \<and> pred_option (\<lambda>E. no_iter_next E (pl_body pl)) E"
    "\<forall>i < length fns2. balanced_code (fn_code (fns2 ! i)) \<or>
       (\<exists>pl \<in> set new2. pl_fn_id pl = as_u32 (length (fc_functions s1) + i))"
    using assms(2) by (auto simp: grown_def)
  have "balanced_code (fn_code ((fns1 @ fns2) ! i)) \<or>
      (\<exists>pl \<in> set (new2 @ new1). pl_fn_id pl = as_u32 (length (fc_functions s) + i))"
    if "i < length (fns1 @ fns2)" for i
  proof (cases "i < length fns1")
    case True
    then show ?thesis
      using 1(4) by (auto simp: nth_append)
  next
    case False
    then show ?thesis
      using 2(4) [rule_format, of "i - length fns1"] that 1(2) by (auto simp: nth_append)
  qed
  then show ?thesis
    unfolding grown_def using 1(1-3) 2(1-3) by (intro exI [of _ "new2 @ new1"] exI [of _ "fns1 @ fns2"]) auto
qed

definition reach :: "CompileEnv option \<Rightarrow> nat \<Rightarrow> nat \<Rightarrow> nat \<Rightarrow> FnCompiler \<Rightarrow> FnCompiler \<Rightarrow> bool" where
  "reach E k a b s s' \<longleftrightarrow>
     grown E k s s' \<and>
     (\<exists>seg. fc_code s' = fc_code s @ seg \<and>
        (E \<noteq> None \<longrightarrow> length (fc_code s') < 2 ^ 16 \<longrightarrow> runs (length (fc_code s)) seg Map.empty a b))"

definition action_ok :: "CompileEnv option \<Rightarrow> nat \<Rightarrow> nat \<Rightarrow> action \<Rightarrow> bool" where
  "action_ok E k n act \<longleftrightarrow> (\<forall>a s s'. act s = Some s' \<longrightarrow> reach E k a (a + n) s s')"

lemma reach_refl: "reach E k a a s s"
  by (simp add: reach_def grown_same same_tables_def)

lemma reach_trans: "reach E k a b s s1 \<Longrightarrow> reach E k b c s1 s2 \<Longrightarrow> reach E k a c s s2"
  unfolding reach_def using grown_trans runs_append by fastforce

lemma reach_frame: "reach E k a b s s' \<Longrightarrow> reach E k (a + d) (b + d) s s'"
  unfolding reach_def using runs_frame [where H = Map.empty] by fastforce

lemma reach_mono: "reach E k a b s s' \<Longrightarrow> k \<le> m \<Longrightarrow> reach E m a b s s'"
  unfolding reach_def using grown_mono by blast

lemma action_okI:
  assumes "\<And>s s'. act s = Some s' \<Longrightarrow> reach E k 0 n s s'"
  shows "action_ok E k n act"
  unfolding action_ok_def using reach_frame [OF assms, of _ _] by (force simp: add.commute)

lemma action_ok_mono: "action_ok E k n act \<Longrightarrow> k \<le> m \<Longrightarrow> action_ok E m n act"
  unfolding action_ok_def using reach_mono by blast

section \<open>The steps of the emitters\<close>

lemma code_of [simp]:
  "fc_code (emits ops s) = fc_code s @ ops" "fc_code (snd (alloc_local name s)) = fc_code s"
  "fc_code (snd (with_pool f s)) = fc_code s"
  "fc_code (snd (store_new ops name s)) = fc_code s @ ops @ [StoreLocal (fst (store_new ops name s))]"
  "fc_code (patch_jump j t s) = (fc_code s)[j := set_offset (jump_offset j t) (fc_code s ! j)]"
  by (simp_all add: emits_def alloc_local_def with_pool_def store_new_def patch_jump_def Let_def split_def)

lemma tables_of [simp]:
  "fc_pending_lambdas (emits ops s) = fc_pending_lambdas s" "fc_functions (emits ops s) = fc_functions s"
  "fc_pending_lambdas (snd (alloc_local name s)) = fc_pending_lambdas s"
  "fc_functions (snd (alloc_local name s)) = fc_functions s"
  "fc_pending_lambdas (snd (with_pool f s)) = fc_pending_lambdas s" "fc_functions (snd (with_pool f s)) = fc_functions s"
  "fc_pending_lambdas (snd (store_new ops name s)) = fc_pending_lambdas s"
  "fc_functions (snd (store_new ops name s)) = fc_functions s"
  "fc_pending_lambdas (patch_jump j t s) = fc_pending_lambdas s" "fc_functions (patch_jump j t s) = fc_functions s"
  by (simp_all add: emits_def alloc_local_def with_pool_def store_new_def patch_jump_def Let_def split_def)

lemma reach_act:
  assumes "act s1 = Some s2" "action_ok E k n act" "reach E k a c s s1"
  shows "reach E k a (c + n) s s2"
  using assms reach_trans by (auto simp: action_ok_def)

lemma reach_step:
  assumes "reach E k a c s s1" "same_tables s1 s2" "fc_code s2 = fc_code s1 @ ops" "depth_after ops c = Some b"
  shows "reach E k a b s s2"
  by (rule reach_trans [OF assms(1)])
    (use assms in \<open>auto simp: reach_def intro: grown_same runs_straight\<close>)

lemma reach_emits: "reach E k a c s s1 \<Longrightarrow> depth_after ops c = Some b \<Longrightarrow> reach E k a b s (emits ops s1)"
  by (erule reach_step [where ops = ops]) (simp_all add: same_tables_def)

lemma reach_pool: "reach E k a b s s1 \<Longrightarrow> reach E k a b s (snd (with_pool f s1))"
  by (erule reach_step [where ops = "[]"]) (simp_all add: same_tables_def)

lemma reach_store:
  "reach E k a c s s1 \<Longrightarrow> depth_after (ops @ [StoreLocal (fst (store_new ops name s1))]) c = Some b \<Longrightarrow>
   reach E k a b s (snd (store_new ops name s1))"
  by (erule reach_step [where ops = "ops @ [StoreLocal (fst (store_new ops name s1))]"]) (simp_all add: same_tables_def)

lemma reach_tail:
  assumes "take (length (fc_code s1)) (fc_code s2) = fc_code s1" "same_tables s1 s2"
    and "ds ! 0 = Some a" "last ds = None \<or> last ds = Some b"
    and "length (fc_code s2) < 2 ^ 16 \<Longrightarrow>
      table_ok (length (fc_code s1)) ds (length (fc_code s1)) (drop (length (fc_code s1)) (fc_code s2)) ds"
  shows "reach E k a b s1 s2"
proof -
  let ?seg = "drop (length (fc_code s1)) (fc_code s2)"
  have "fc_code s2 = fc_code s1 @ ?seg"
    using assms(1) by (metis append_take_drop_id)
  then show ?thesis
    unfolding reach_def using assms(2-) by (auto intro!: grown_same runs_table [where ds = ds] exI [of _ ?seg])
qed

lemma reach_arg:
  assumes args: "\<forall>x \<in> set args. action_ok E k 1 x" and "arg args i s1 = Some s2" "reach E k a c s s1"
  shows "reach E k a (Suc c) s s2"
  using assms reach_act [of _ s1 s2 E k 1 a c s]
  by (auto simp: arg_def nth_opt_def split: option.splits if_splits)

lemmas op_shape = op_pops_def op_pushes_def op_next_def jump_offset_of_def prim_pops_def prim_delta_def

lemma reach_arg_slot:
  assumes args: "\<forall>x \<in> set args. action_ok E k 1 x"
    and "arg_slot args i name s1 = Some (v, s2)" "reach E k a c s s1"
  shows "reach E k a c s s2"
proof -
  obtain s3 where s3: "arg args i s1 = Some s3" "s2 = emits [StoreLocal (fst (alloc_local name s3))] (snd (alloc_local name s3))"
    using assms(2) by (auto simp: arg_slot_def bind_eq_Some_conv split_def Let_def)
  show ?thesis
    unfolding s3(2)
    by (rule reach_step [OF reach_arg [OF args s3(1) assms(3)], where ops = "[StoreLocal (fst (alloc_local name s3))]"])
      (simp_all add: same_tables_def op_shape)
qed

section \<open>The code of the standard library\<close>

text \<open>Walking through an emitter: what each of its steps leaves of the code and the tables.\<close>

definition ends :: "(FnCompiler \<Rightarrow> bool) \<Rightarrow> FnCompiler option \<Rightarrow> bool" where
  "ends Q m \<longleftrightarrow> (\<forall>s'. m = Some s' \<longrightarrow> Q s')"

definition extends :: "FnCompiler \<Rightarrow> Op list \<Rightarrow> FnCompiler \<Rightarrow> bool" where
  "extends s code s' \<longleftrightarrow> fc_code s' = code \<and> same_tables s s'"

lemma extends_steps:
  "extends s (fc_code s) (snd (with_pool f s))"
  "extends s (fc_code s @ ops @ [StoreLocal (fst (store_new ops name s))]) (snd (store_new ops name s))"
  "extends s (fc_code s @ ops) (emits ops s)"
  "extends s ((fc_code s)[j := set_offset (jump_offset j t) (fc_code s ! j)]) (patch_jump j t s)"
  by (simp_all add: extends_def same_tables_def)

lemma ends_steps:
  "(\<And>i s1. extends s (fc_code s) s1 \<Longrightarrow> ends Q (g i s1)) \<Longrightarrow> ends Q (Let (with_pool f s) (case_prod g))"
  "(\<And>i s1. extends s (fc_code s @ ops @ [StoreLocal i]) s1 \<Longrightarrow> ends Q (g i s1)) \<Longrightarrow>
     ends Q (Let (store_new ops name s) (case_prod g))"
  "(\<And>s1. extends s (fc_code s @ ops) s1 \<Longrightarrow> ends Q (h s1)) \<Longrightarrow> ends Q (Let (emits ops s) h)"
  "(\<And>j. j = length (fc_code s) \<Longrightarrow> ends Q (h' j)) \<Longrightarrow> ends Q (Let (here s) h')"
  "(\<And>s1. extends s ((fc_code s)[j := set_offset (jump_offset j t) (fc_code s ! j)]) s1 \<Longrightarrow> ends Q (h s1)) \<Longrightarrow>
     ends Q (Let (patch_jump j t s) h)"
  "(\<And>v s1. arg_slot args n name s = Some (v, s1) \<Longrightarrow> ends Q (g v s1)) \<Longrightarrow>
     ends Q (Option.bind (arg_slot args n name s) (case_prod g))"
  "(\<And>s1. arg args n s = Some s1 \<Longrightarrow> ends Q (k s1)) \<Longrightarrow> ends Q (Option.bind (arg args n s) k)"
  by (simp_all add: Let_def split_def extends_steps here_def) (auto simp: ends_def bind_eq_Some_conv)

lemma ends_last:
  "(\<And>s1. extends s (fc_code s @ ops) s1 \<Longrightarrow> Q s1) \<Longrightarrow> ends Q (Some (emits ops s))"
  "(\<And>s1. extends s ((fc_code s)[j := set_offset (jump_offset j t) (fc_code s ! j)]) s1 \<Longrightarrow> Q s1) \<Longrightarrow>
     ends Q (Some (patch_jump j t s))"
  by (simp_all add: ends_def extends_steps)

lemma action_ok_ends: "(\<And>s. ends (reach E k 0 n s) (act s)) \<Longrightarrow> action_ok E k n act"
  by (auto simp: ends_def intro: action_okI)

text \<open>Straight code moves the base of the judgement along.\<close>

lemma ends_rebase: "reach E k a c s s1 \<Longrightarrow> ends (reach E k c b s1) m \<Longrightarrow> ends (reach E k a b s) m"
  by (auto simp: ends_def intro: reach_trans)

lemma reach_extends:
  assumes "extends s (fc_code s @ ops) s1" "depth_after ops a = Some b"
  shows "reach E k a b s s1"
  using assms reach_step [OF reach_refl, of s s1 ops] by (auto simp: extends_def)

lemma ends_pool:
  assumes "\<And>i s1. ends (reach E k a b s1) (g i s1)"
  shows "ends (reach E k a b s) (Let (with_pool f s) (case_prod g))"
  by (rule ends_steps, rule ends_rebase [OF reach_extends [where ops = "[]"] assms]) simp_all

lemma ends_emits:
  assumes "\<And>s1. ends (reach E k (the (depth_after ops a)) b s1) (h s1)" "depth_after ops a \<noteq> None"
  shows "ends (reach E k a b s) (Let (emits ops s) h)"
  by (rule ends_steps, rule ends_rebase [OF reach_extends [where ops = ops] assms(1)]) (use assms(2) in auto)

lemma ends_store:
  assumes "\<And>i s1. ends (reach E k (the (depth_after (ops @ [StoreLocal 0]) a)) b s1) (g i s1)"
    and "depth_after (ops @ [StoreLocal 0]) a \<noteq> None"
  shows "ends (reach E k a b s) (Let (store_new ops name s) (case_prod g))"
proof -
  have any: "depth_after (ops @ [StoreLocal i]) a = depth_after (ops @ [StoreLocal 0]) a" for i
    by (induction ops arbitrary: a) (auto simp: op_shape)
  show ?thesis
    by (rule ends_steps, rule ends_rebase [OF reach_extends [where ops = "ops @ [StoreLocal _]"] assms(1)])
      (use assms(2) any in auto)
qed

lemma ends_emitted: "depth_after ops a = Some b \<Longrightarrow> ends (reach E k a b s) (Some (emits ops s))"
  by (rule ends_last, rule reach_extends)

lemma ends_arg:
  assumes "\<forall>x \<in> set args. action_ok E k 1 x" "\<And>s1. ends (reach E k (Suc a) b s1) (h s1)"
  shows "ends (reach E k a b s) (Option.bind (arg args n s) h)"
  by (rule ends_steps, rule ends_rebase [OF reach_arg [OF assms(1) _ reach_refl] assms(2)])

lemma ends_arg_slot:
  assumes "\<forall>x \<in> set args. action_ok E k 1 x" "\<And>v s1. ends (reach E k a b s1) (g v s1)"
  shows "ends (reach E k a b s) (Option.bind (arg_slot args n name s) (case_prod g))"
  by (rule ends_steps, rule ends_rebase [OF reach_arg_slot [OF assms(1) _ reach_refl] assms(2)])

lemma emit_lists_ok:
  assumes args: "\<forall>x \<in> set args. action_ok E k 1 x"
  shows "action_ok E k 1 (emit_list_map args)" "action_ok E k 1 (emit_list_par_map args)"
    "action_ok E k 1 (emit_list_sort_by args)" "action_ok E k 1 (emit_list_filter args)"
    "action_ok E k 1 (emit_list_fold args)" "action_ok E k 1 (emit_iter_from_list args)"
    "action_ok E k 1 (emit_iter_unfold args)" "action_ok E k 1 (emit_iter_is_empty args)"
    "action_ok E k 1 (emit_iter_count args)"
  unfolding emit_list_map_def emit_list_par_map_def emit_list_sort_by_def emit_list_filter_def emit_list_fold_def
    emit_iter_from_list_def emit_iter_unfold_def emit_iter_is_empty_def emit_iter_count_def
  by (rule action_ok_ends, (rule ends_pool ends_emits ends_store ends_emitted ends_arg [OF args] ends_arg_slot [OF args])+;
      simp add: op_shape)+

text \<open>Branches and loops: the operands first, then a closed piece of code with its depths.\<close>

lemmas emitted_code = extends_def here_def list_update_append nth_append set_offset_def
lemmas table_check = same_tables_def op_ok_def op_shape jump_lands

lemmas walk_straight = ends_pool ends_emits ends_store ends_emitted

lemma emit_variant_map_wrap_ok:
  assumes args: "\<forall>x \<in> set args. action_ok E k 1 x"
  shows "action_ok E k 1 (emit_variant_map args w True)"
  unfolding emit_variant_map_def if_True
  by (rule action_ok_ends, (rule walk_straight ends_arg [OF args] ends_arg_slot [OF args])+, (rule ends_steps ends_last)+,
      rule reach_tail [where ds = "map Some [2, 1, 1, 0, 1, 2, 1, 1, 1]"],
      simp add: emitted_code, simp add: emitted_code same_tables_def, simp add: op_shape, simp add: op_shape,
      simp add: emitted_code, simp add: table_check) (simp_all add: op_shape)

lemma emit_variant_map_plain_ok:
  assumes args: "\<forall>x \<in> set args. action_ok E k 1 x"
  shows "action_ok E k 1 (emit_variant_map args w False)"
  unfolding emit_variant_map_def if_False
  by (rule action_ok_ends, (rule walk_straight ends_arg [OF args] ends_arg_slot [OF args])+, (rule ends_steps ends_last)+,
      rule reach_tail [where ds = "map Some [2, 1, 1, 0, 1, 2, 1, 1]"],
      simp add: emitted_code, simp add: emitted_code same_tables_def, simp add: op_shape, simp add: op_shape,
      simp add: emitted_code, simp add: table_check) (simp_all add: op_shape)

lemma emit_variant_or_else_1_ok:
  assumes args: "\<forall>x \<in> set args. action_ok E k 1 x"
  shows "action_ok E k 1 (emit_variant_or_else args w 1)"
  unfolding emit_variant_or_else_def simp_thms if_True
  by (rule action_ok_ends, (rule walk_straight ends_arg [OF args] ends_arg_slot [OF args])+, (rule ends_steps ends_last)+,
      rule reach_tail [where ds = "map Some [2, 1, 0, 1, 2, 2, 1, 1]"],
      simp add: emitted_code, simp add: emitted_code same_tables_def, simp add: op_shape, simp add: op_shape,
      simp add: emitted_code, simp add: table_check) (simp_all add: op_shape)

lemma emit_variant_or_else_0_ok:
  assumes args: "\<forall>x \<in> set args. action_ok E k 1 x"
  shows "action_ok E k 1 (emit_variant_or_else args w 0)"
  unfolding emit_variant_or_else_def zero_neq_one if_False
  by (rule action_ok_ends, (rule walk_straight ends_arg [OF args] ends_arg_slot [OF args])+, (rule ends_steps ends_last)+,
      rule reach_tail [where ds = "map Some [2, 1, 0, 1, 1, 1]"],
      simp add: emitted_code, simp add: emitted_code same_tables_def, simp add: op_shape, simp add: op_shape,
      simp add: emitted_code, simp add: table_check) (simp_all add: op_shape)

lemma emit_option_unwrap_or_else_ok:
  assumes args: "\<forall>x \<in> set args. action_ok E k 1 x"
  shows "action_ok E k 1 (emit_option_unwrap_or_else args)"
  unfolding emit_option_unwrap_or_else_def
  by (rule action_ok_ends, (rule walk_straight ends_arg [OF args] ends_arg_slot [OF args])+, (rule ends_steps ends_last)+,
      rule reach_tail [where ds = "map Some [2, 1, 1, 1, 0, 1, 1]"],
      simp add: emitted_code, simp add: emitted_code same_tables_def, simp add: op_shape, simp add: op_shape,
      simp add: emitted_code, simp add: table_check) (simp_all add: op_shape)

lemma emit_result_unwrap_or_else_ok:
  assumes args: "\<forall>x \<in> set args. action_ok E k 1 x"
  shows "action_ok E k 1 (emit_result_unwrap_or_else args)"
  unfolding emit_result_unwrap_or_else_def
  by (rule action_ok_ends, (rule walk_straight ends_arg [OF args] ends_arg_slot [OF args])+, (rule ends_steps ends_last)+,
      rule reach_tail [where ds = "map Some [2, 1, 1, 1, 0, 1, 2, 2, 1]"],
      simp add: emitted_code, simp add: emitted_code same_tables_def, simp add: op_shape, simp add: op_shape,
      simp add: emitted_code, simp add: table_check) (simp_all add: op_shape)

lemma emit_iter_take_ok:
  assumes args: "\<forall>x \<in> set args. action_ok E k 1 x"
  shows "action_ok E k 1 (emit_iter_take args)"
  unfolding emit_iter_take_def
  by (rule action_ok_ends, (rule walk_straight ends_arg [OF args] ends_arg_slot [OF args])+, (rule ends_steps ends_last)+,
      rule reach_tail [where ds = "map Some [0, 1, 2, 1, 0, 1, 2, 2, 1, 0, 1, 2, 3, 2, 1, 0, 1, 2, 1, 0, 1, 2, 1, 0, 0, 1, 2, 1]"],
      simp add: emitted_code, simp add: emitted_code same_tables_def, simp add: op_shape, simp add: op_shape,
      simp add: emitted_code, simp add: table_check) (simp_all add: op_shape)

lemma emit_iter_skip_ok:
  assumes args: "\<forall>x \<in> set args. action_ok E k 1 x"
  shows "action_ok E k 1 (emit_iter_skip args)"
  unfolding emit_iter_skip_def
  by (rule action_ok_ends, (rule walk_straight ends_arg [OF args] ends_arg_slot [OF args])+, (rule ends_steps ends_last)+,
      rule reach_tail [where ds = "map Some [1, 0, 1, 1, 0, 1, 0, 1, 2, 1]"],
      simp add: emitted_code, simp add: emitted_code same_tables_def, simp add: op_shape, simp add: op_shape,
      simp add: emitted_code, simp add: table_check) (simp_all add: op_shape)

lemma emit_iter_to_list_ok:
  assumes args: "\<forall>x \<in> set args. action_ok E k 1 x"
  shows "action_ok E k 1 (emit_iter_to_list args)"
  unfolding emit_iter_to_list_def
  by (rule action_ok_ends, (rule walk_straight ends_arg [OF args] ends_arg_slot [OF args])+, (rule ends_steps ends_last)+,
      rule reach_tail [where ds = "map Some [1, 0, 1, 1, 0, 1, 1, 0, 1, 2, 1, 0, 1, 1, 0, 1, 1, 0, 1, 2, 2, 1, 0, 1, 1, 0, 0, 0, 1, 1,
        0, 1, 1, 0, 1, 2, 2, 1, 0, 1, 2, 3, 2, 1, 0, 1, 2, 1, 0, 0, 1]"],
      simp add: emitted_code, simp add: emitted_code same_tables_def, simp add: op_shape, simp add: op_shape,
      simp add: emitted_code, simp add: table_check) (simp_all add: op_shape)

lemma emit_iter_map_ok:
  assumes args: "\<forall>x \<in> set args. action_ok E k 1 x"
  shows "action_ok E k 1 (emit_iter_map args)"
  unfolding emit_iter_map_def
  by (rule action_ok_ends, (rule walk_straight ends_arg [OF args] ends_arg_slot [OF args])+, (rule ends_steps ends_last)+,
      rule reach_tail [where ds = "map Some [0, 1, 2, 2, 1, 0, 1, 2, 3, 4, 3, 2, 1, 0, 1, 2, 1, 0, 0, 1, 2, 1]"],
      simp add: emitted_code, simp add: emitted_code same_tables_def, simp add: op_shape, simp add: op_shape,
      simp add: emitted_code, simp add: table_check) (simp_all add: op_shape)

lemma emit_iter_filter_ok:
  assumes args: "\<forall>x \<in> set args. action_ok E k 1 x"
  shows "action_ok E k 1 (emit_iter_filter args)"
  unfolding emit_iter_filter_def
  by (rule action_ok_ends, (rule walk_straight ends_arg [OF args] ends_arg_slot [OF args])+, (rule ends_steps ends_last)+,
      rule reach_tail [where ds = "map Some [0, 1, 2, 2, 1, 0, 1, 2, 1, 0, 1, 2, 1, 0, 1, 2, 1, 0, 1, 2, 1, 0, 0, 1, 2, 1]"],
      simp add: emitted_code, simp add: emitted_code same_tables_def, simp add: op_shape, simp add: op_shape,
      simp add: emitted_code, simp add: table_check) (simp_all add: op_shape)

lemma emit_iter_fold_ok:
  assumes args: "\<forall>x \<in> set args. action_ok E k 1 x"
  shows "action_ok E k 1 (emit_iter_fold args)"
  unfolding emit_iter_fold_def
  by (rule action_ok_ends, (rule walk_straight ends_arg [OF args] ends_arg_slot [OF args])+, (rule ends_steps ends_last)+,
      rule reach_tail [where ds = "map Some [0, 1, 2, 2, 1, 0, 1, 2, 3, 4, 3, 1, 0, 1, 2, 1, 0, 0, 1]"],
      simp add: emitted_code, simp add: emitted_code same_tables_def, simp add: op_shape, simp add: op_shape,
      simp add: emitted_code, simp add: table_check) (simp_all add: op_shape)

lemma emit_map_fold_ok:
  assumes args: "\<forall>x \<in> set args. action_ok E k 1 x"
  shows "action_ok E k 1 (emit_map_fold args nid)"
  unfolding emit_map_fold_def
  by (rule action_ok_ends, (rule walk_straight ends_arg [OF args] ends_arg_slot [OF args])+, (rule ends_steps ends_last)+,
      rule reach_tail [where ds = "map Some [0, 1, 2, 2, 1, 0, 1, 2, 1, 0, 1, 2, 3, 3, 4, 4, 1, 0, 1, 2, 1, 0, 0, 1]"],
      simp add: emitted_code, simp add: emitted_code same_tables_def, simp add: op_shape, simp add: op_shape,
      simp add: emitted_code, simp add: table_check) (simp_all add: op_shape)

lemma emit_flow_parallel_list_ok:
  assumes args: "\<forall>x \<in> set args. action_ok E k 1 x"
  shows "action_ok E k 1 (emit_flow_parallel_list args)"
  unfolding emit_flow_parallel_list_def
  by (rule action_ok_ends, (rule walk_straight ends_arg [OF args] ends_arg_slot [OF args])+, (rule ends_steps ends_last)+,
      rule reach_tail [where ds = "map Some [0, 1, 2, 2, 1, 0, 1, 2, 3, 2, 2, 1, 0, 1, 2, 1, 0, 0, 1]"],
      simp add: emitted_code, simp add: emitted_code same_tables_def, simp add: op_shape, simp add: op_shape,
      simp add: emitted_code, simp add: table_check) (simp_all add: op_shape)

text \<open>\<open>iter.next\<close> only adds to the code and the tables.\<close>

lemma reach_unclaimed:
  assumes "take (length (fc_code s1)) (fc_code s2) = fc_code s1" "same_tables s1 s2"
  shows "reach None k a b s1 s2"
proof -
  have "fc_code s2 = fc_code s1 @ drop (length (fc_code s1)) (fc_code s2)"
    using assms(1) by (metis append_take_drop_id)
  then show ?thesis
    unfolding reach_def using assms(2) by (auto intro!: grown_same exI [of _ "drop (length (fc_code s1)) (fc_code s2)"])
qed

lemma emit_iter_next_grows:
  assumes args: "\<forall>x \<in> set args. action_ok None k 1 x"
  shows "action_ok None k 1 (emit_iter_next args)"
  unfolding emit_iter_next_def
  by (rule action_ok_ends, rule ends_arg_slot [OF args], (rule ends_steps)+, rule ends_last, rule reach_unclaimed)
   (simp_all add: emitted_code same_tables_def)
end
