(* ===== verification/Cp_Balance.thy ===== *)
theory Cp_Balance
  imports Cp_Emitters
begin

text \<open>
  The balance of the larger pieces of compiled code: the trampolines of \<open>std.flow\<close>, patterns, and
  arms and matches with their patched jumps.
\<close>

section \<open>Complete code\<close>

lemma flows_balanced:
  assumes "flows 0 code Map.empty ds" "ds ! 0 = Some 0" "ds ! length code = None"
  shows "balanced_code code"
proof -
  have len: "length ds = Suc (length code)" and
    ok: "\<And>i d. i < length code \<Longrightarrow> ds ! i = Some d \<Longrightarrow> op_ok 0 (length code) ds (code ! i) i d"
    using assms(1) by (auto simp: flows_def)
  have plain: "plain_ops code"
    using assms(1) by (simp add: flows_def)
  have ne: "code \<noteq> []"
    using assms by auto
  have at: "butlast ds ! i = ds ! i" if "i < length code" for i
    using that len by (simp add: nth_butlast)
  have "well_stacked code (butlast ds)"
    unfolding well_stacked_def
  proof (intro conjI allI impI)
    show "butlast ds ! 0 = Some 0"
      using at [of 0] ne assms(2) by simp
    fix pc assume pc: "pc < length code"
    have inside: "t < length code" if "t \<le> length code" "ds ! t = Some x" for t x
      using that assms(3) by (cases "t = length code") auto
    show "case butlast ds ! pc of None \<Rightarrow> True | Some d \<Rightarrow> op_pops (code ! pc) \<le> d \<and>
        list_all (\<lambda>pc'. pc' < length code \<and> butlast ds ! pc' = Some (d - op_pops (code ! pc) + op_pushes (code ! pc)))
          (op_next (code ! pc) pc)"
      using ok [OF pc] at [OF pc] inside at by (auto simp: op_ok_def list_all_iff split: option.splits)
  qed (use ne len in simp_all)
  then show ?thesis
    using plain by (auto simp: balanced_code_def)
qed

lemma table_balanced:
  assumes "table_ok 0 ds 0 code ds" "ds ! 0 = Some 0" "last ds = None"
  shows "balanced_code code"
proof -
  have *: "plain_ops code" "length ds = Suc (length code)"
    "\<forall>i < length code. \<forall>d. ds ! i = Some d \<longrightarrow> op_ok 0 (length code) ds (code ! i) i d"
    using table_ok_nth [OF assms(1)] by auto
  then have "last ds = ds ! length code"
    by (subst last_conv_nth) auto
  then show ?thesis
    using assms * by (intro flows_balanced [of code ds]) (auto simp: flows_def)
qed

lemma runs_return_balanced:
  assumes "runs 0 seg Map.empty 0 1"
  shows "balanced_code (seg @ [Return])"
proof -
  obtain ds where ds: "flows 0 seg Map.empty ds" "ds ! 0 = Some 0" "ds ! length seg \<in> {None, Some 1}"
    using assms by (auto simp: runs_def)
  have len: "length ds = Suc (length seg)"
    using ds(1) by (simp add: flows_def)
  let ?ds = "butlast ds @ [ds ! length seg, None]"
  have "flows (length seg) [Return] Map.empty [ds ! length seg, None]"
    using ds(3) by (auto simp: flows_def op_ok_def op_shape)
  then have "flows 0 (seg @ [Return]) Map.empty ?ds"
    using ds(1) by (intro flows_append) simp_all
  moreover have "?ds ! 0 = Some 0"
    using ds(2) len by (cases seg) (auto simp: nth_append nth_butlast)
  moreover have "?ds ! length (seg @ [Return]) = None"
    using len by (simp add: nth_append)
  ultimately show ?thesis
    by (rule flows_balanced)
qed

section \<open>Trampolines\<close>

lemmas jump_lands_here = jump_target_def wrap32_def i32_as_usize_def jump_offset_def

lemma trampolines_balanced:
  "balanced_code (flow_sequential_code nid)" "balanced_code (flow_parallel_code nid)"
  "balanced_code (flow_branch_code nid)" "balanced_code (flow_retry_code nid okv zero one)"
  "balanced_code (flow_retry_backoff_code nid snid kind op_idx okv zero one two)"
  unfolding flow_sequential_code_def flow_parallel_code_def flow_branch_code_def flow_retry_code_def
    flow_retry_backoff_code_def
  subgoal
    by (rule table_balanced [where ds = "map Some [0, 1, 2, 1, 0, 1, 2, 1] @ [None]"])
      (simp_all add: op_ok_def op_shape)
  subgoal
    by (rule table_balanced [where ds = "map Some [0, 1, 1, 2, 2, 1] @ [None]"]) (simp_all add: op_ok_def op_shape)
  subgoal
    by (rule table_balanced [where ds = "map Some [0, 1, 2, 1, 0, 1, 2, 1, 0, 1, 2, 1] @ [None]"])
      (simp_all add: op_ok_def op_shape jump_lands_here)
  subgoal
    by (rule table_balanced [where ds = "map Some [0, 1, 0, 1, 2, 1, 0, 1, 2, 1, 0, 1, 1, 0, 1, 0, 1, 2, 1, 0, 0, 1] @ [None]"])
      (simp_all add: op_ok_def op_shape jump_lands_here)
  subgoal
    by (rule table_balanced [where ds = "map Some [0, 1, 0, 1, 0, 1, 2, 1, 0, 1, 2, 1, 0, 1, 1, 0, 1, 2, 1, 0, 1, 2, 1, 0,
        1, 1, 0, 1, 0, 1, 2, 1, 0, 0, 1] @ [None]"])
      (simp_all add: op_ok_def op_shape jump_lands_here)
  done

lemma ends_trampoline:
  assumes "balanced_code code" "\<And>fid s1. ends (reach E k a b s1) (g fid s1)"
  shows "ends (reach E k a b s) (Option.bind (install_trampoline E' name arity locals code s) (case_prod g))"
proof -
  have "reach E k a a s s1" if installed: "install_trampoline E' name arity locals code s = Some (fid, s1)" for fid s1
  proof -
    obtain f where f: "s1 = s\<lparr>fc_functions := fc_functions s @ [f]\<rparr>" "fn_code f = code"
      using installed by (auto simp: install_trampoline_def bind_eq_Some_conv Let_def)
    have "grown E k s s1"
      unfolding grown_def using f assms(1) by (intro exI [of _ "[]"] exI [of _ "[f]"]) simp
    then show ?thesis
      using f by (simp add: reach_def)
  qed
  then show ?thesis
    using ends_rebase [OF _ assms(2)] by (cases "install_trampoline E' name arity locals code s") (auto simp: ends_def)
qed

lemma emit_flows_ok:
  assumes args: "\<forall>x \<in> set args. action_ok E k 1 x"
  shows "action_ok E k 1 (emit_flow_sequential E' args)" "action_ok E k 1 (emit_flow_parallel E' args)"
    "action_ok E k 1 (emit_flow_branch E' args)" "action_ok E k 1 (emit_flow_retry E' args)"
    "action_ok E k 1 (emit_flow_retry_with_backoff E' args)"
  unfolding emit_flow_sequential_def emit_flow_parallel_def emit_flow_branch_def emit_flow_retry_def
    emit_flow_retry_with_backoff_def
  by (rule action_ok_ends, (rule walk_straight ends_arg [OF args] ends_trampoline [OF trampolines_balanced(1)]
        ends_trampoline [OF trampolines_balanced(2)] ends_trampoline [OF trampolines_balanced(3)]
        ends_trampoline [OF trampolines_balanced(4)] ends_trampoline [OF trampolines_balanced(5)])+;
      simp add: op_shape)+

lemma higher_order_ok:
  assumes args: "\<forall>x \<in> set args. action_ok E k 1 x"
    and "try_emit_higher_order E' module op_name args nid = Some act" "E \<noteq> None \<Longrightarrow> (module, op_name) \<noteq> (''iter'', ''next'')"
  shows "action_ok E k 1 act"
proof -
  have "list_all (\<lambda>x. fst x = (''iter'', ''next'') \<or> action_ok E k 1 (snd x)) (higher_order E' args nid)"
    unfolding higher_order_def list.pred_inject(2) fst_conv snd_conv
    by (rule conjI list.pred_inject(1) disjI1 [OF refl] disjI2 emit_lists_ok [OF args] emit_flows_ok [OF args] emit_variant_map_wrap_ok [OF args]
        emit_variant_map_plain_ok [OF args] emit_variant_or_else_1_ok [OF args] emit_variant_or_else_0_ok [OF args]
        emit_option_unwrap_or_else_ok [OF args] emit_result_unwrap_or_else_ok [OF args] emit_iter_take_ok [OF args]
        emit_iter_skip_ok [OF args] emit_iter_to_list_ok [OF args] emit_iter_map_ok [OF args]
        emit_iter_filter_ok [OF args] emit_iter_fold_ok [OF args] emit_map_fold_ok [OF args]
        emit_flow_parallel_list_ok [OF args])+
  moreover have "((module, op_name), act) \<in> set (higher_order E' args nid)"
    using assms(2) by (auto simp: try_emit_higher_order_def dest: map_of_SomeD)
  ultimately have "fst ((module, op_name), act) = (''iter'', ''next'') \<and> E = None \<or> action_ok E k 1 act"
    using assms(3) by (cases E) (auto simp: list_all_iff)
  moreover have "act = emit_iter_next args" if "(module, op_name) = (''iter'', ''next'')"
    using assms(2) that by (auto simp: try_emit_higher_order_def higher_order_def)
  ultimately show ?thesis
    using emit_iter_next_grows [of args k] args by auto
qed

section \<open>Patterns\<close>

text \<open>
  The test of a pattern takes the value off the stack; on failure it leaves by a jump to be patched,
  with nothing left of the value.
\<close>

definition holes :: "nat \<Rightarrow> nat list \<Rightarrow> nat \<rightharpoonup> nat" where
  "holes d fs j = (if j \<in> set fs then Some d else None)"

definition piece :: "CompileEnv option \<Rightarrow> nat \<Rightarrow> nat \<Rightarrow> nat \<Rightarrow> nat \<Rightarrow> nat list \<Rightarrow> FnCompiler \<Rightarrow> FnCompiler \<Rightarrow> bool" where
  "piece E k d a b fs s s' \<longleftrightarrow>
     grown E k s s' \<and>
     (\<exists>seg. fc_code s' = fc_code s @ seg \<and>
        (\<forall>j \<in> set fs. length (fc_code s) \<le> j \<and> j < length (fc_code s')) \<and>
        (E \<noteq> None \<longrightarrow> length (fc_code s') < 2 ^ 16 \<longrightarrow> runs (length (fc_code s)) seg (holes d fs) a b))"

lemma holes_Nil [simp]: "holes d [] = Map.empty"
  by (simp add: holes_def fun_eq_iff)

lemma piece_reach: "piece E k d a b [] s s' \<longleftrightarrow> reach E k a b s s'"
  by (simp add: piece_def reach_def)

lemma piece_trans:
  assumes "piece E k d a b fs s s1" "piece E k d b c gs s1 s2"
  shows "piece E k d a c (fs @ gs) s s2"
proof -
  obtain p q where p: "fc_code s1 = fc_code s @ p" "\<forall>j \<in> set fs. length (fc_code s) \<le> j \<and> j < length (fc_code s1)"
      "E \<noteq> None \<Longrightarrow> length (fc_code s1) < 2 ^ 16 \<Longrightarrow> runs (length (fc_code s)) p (holes d fs) a b"
    and q: "fc_code s2 = fc_code s1 @ q" "\<forall>j \<in> set gs. length (fc_code s1) \<le> j \<and> j < length (fc_code s2)"
      "E \<noteq> None \<Longrightarrow> length (fc_code s2) < 2 ^ 16 \<Longrightarrow> runs (length (fc_code s1)) q (holes d gs) b c"
    using assms by (auto simp: piece_def)
  have "runs (length (fc_code s)) p (holes d (fs @ gs)) a b = runs (length (fc_code s)) p (holes d fs) a b"
    using p q by (intro runs_cong) (auto simp: holes_def)
  moreover have "runs (length (fc_code s1)) q (holes d (fs @ gs)) b c = runs (length (fc_code s1)) q (holes d gs) b c"
    using p q by (intro runs_cong) (auto simp: holes_def)
  ultimately have "E \<noteq> None \<Longrightarrow> length (fc_code s2) < 2 ^ 16 \<Longrightarrow> runs (length (fc_code s)) (p @ q) (holes d (fs @ gs)) a c"
    using p(1,3) q(1,3) by (auto intro!: runs_append)
  then show ?thesis
    unfolding piece_def using assms p(1,2) q(1,2) grown_trans by (auto simp: piece_def)
qed

lemma piece_extends:
  assumes "extends s (fc_code s @ ops) s'" "depth_after ops a = Some b"
  shows "piece E k d a b [] s s'"
  using assms by (auto simp: piece_def extends_def holes_def intro: runs_straight grown_same)

lemma piece_extends_trans:
  assumes "extends s (fc_code s @ ops) s1" "depth_after ops a = Some b" "piece E k d b c fs s1 s2"
  shows "piece E k d a c fs s s2"
  using piece_trans [OF piece_extends [OF assms(1,2)] assms(3)] by simp

lemma piece_table:
  assumes "extends s (fc_code s @ seg) s'" "\<forall>j \<in> set fs. length (fc_code s) \<le> j \<and> j < length (fc_code s')"
    and "length (fc_code s') < 2 ^ 16 \<Longrightarrow> flows (length (fc_code s)) seg (holes d fs) ds"
    and "ds ! 0 = Some a" "ds ! length seg = Some b"
  shows "piece E k d a b fs s s'"
  using assms by (auto simp: piece_def extends_def runs_def intro: grown_same)

lemma constructor_test_ok:
  assumes "constructor_test name s = (j, s')"
  shows "piece E k 0 1 1 [j] s s'"
proof (rule piece_table [where ds = "map Some [1, 2, 2, 1, 0, 1]"])
  let ?n = "length (fc_code s)"
  have j: "j = ?n + 4" and "extends s (fc_code s @ [Dup, TestVariant (fst (with_pool (pool_variant name) s)),
      JumpIf (jump_offset (?n + 2) (?n + 5)), Pop, Jump 0]) s'"
    using assms by (auto simp: constructor_test_def Let_def split_def here_def extends_def same_tables_def
        list_update_append nth_append set_offset_def eval_nat_numeral)
  then show ext: "extends s (fc_code s @ [Dup, TestVariant (fst (with_pool (pool_variant name) s)),
      JumpIf (jump_offset (?n + 2) (?n + 5)), Pop, Jump 0]) s'"
    by simp
  then show "\<forall>j \<in> set [j]. ?n \<le> j \<and> j < length (fc_code s')"
    using j by (simp add: extends_def)
  show "flows ?n [Dup, TestVariant (fst (with_pool (pool_variant name) s)),
      JumpIf (jump_offset (?n + 2) (?n + 5)), Pop, Jump 0] (holes 0 [j]) (map Some [1, 2, 2, 1, 0, 1])"
    if "length (fc_code s') < 2 ^ 16"
  proof -
    have *: "jump_target (Suc (Suc (Suc ?n))) (jump_offset (Suc (Suc ?n)) (?n + 5)) = ?n + 5"
      using jump_lands [of "?n + 2" "?n + 5"] that ext by (simp add: extends_def)
    show ?thesis
      unfolding flows_def by (auto simp: less_Suc_eq holes_def j op_ok_def op_shape hole_ok_def *)
  qed
qed simp_all

lemma literal_test_ok:
  "piece E k 0 1 0 [length (fc_code s) + 2] s (emits [JumpIfNot 0] (emits [Prim (literal_eq l)] (compile_lit E' l s)))"
proof -
  obtain i where "extends s (fc_code s @ [PushConst i, Prim (literal_eq l), JumpIfNot 0])
      (emits [JumpIfNot 0] (emits [Prim (literal_eq l)] (compile_lit E' l s)))"
    by (auto simp: compile_lit_def Let_def split_def extends_def same_tables_def)
  then show ?thesis
    by (rule piece_table [where ds = "map Some [1, 2, 1, 0]"])
      (auto simp: flows_def less_Suc_eq holes_def op_ok_def op_shape hole_ok_def literal_eq_def extends_def
        compile_lit_def Let_def split_def split: CLit.splits)
qed

lemma pattern_seq_ok:
  assumes "\<forall>(pre, test) \<in> set ts. (\<forall>s. piece E k 0 0 1 [] s (pre s)) \<and> (\<forall>s. piece E k 0 1 0 (fst (test s)) s (snd (test s)))"
  shows "\<exists>fs. fst (pattern_seq ts fails s) = fails @ fs \<and> piece E k 0 0 0 fs s (snd (pattern_seq ts fails s))"
  using assms
proof (induction ts fails s rule: pattern_seq.induct)
  case (1 fails s)
  then show ?case
    using piece_extends [of s "[]" s] by (simp add: extends_def same_tables_def)
next
  case (2 pre test ts fails s)
  let ?r = "test (pre s)"
  obtain fs where fs: "fst (pattern_seq ts (fails @ fst ?r) (snd ?r)) = (fails @ fst ?r) @ fs"
    "piece E k 0 0 0 fs (snd ?r) (snd (pattern_seq ts (fails @ fst ?r) (snd ?r)))"
    using "2.IH" [of ?r "fst ?r" "snd ?r"] "2.prems" by auto
  have "piece E k 0 0 0 ([] @ fst ?r @ fs) s (snd (pattern_seq ts (fails @ fst ?r) (snd ?r)))"
    using 2(2) fs(2) by (intro piece_trans) auto
  then show ?case
    using fs(1) by (auto simp: split_def Let_def)
qed

lemma piece_store: "piece E k 0 1 0 [] s (snd (store_new [] name s))"
  by (rule piece_extends [OF extends_steps(2)]) (simp add: op_shape)

lemma piece_pre: "piece E k 0 0 1 [] s (emits [LoadLocal slot, GetElem i] s)"
    "piece E k 0 0 1 [] s (emits [LoadLocal slot, GetVariantArg i] s)"
    "piece E k 0 0 1 [] s (get_field_site slot name s)"
proof -
  have "\<exists>n k. extends s (fc_code s @ [LoadLocal slot, GetField n k]) (get_field_site slot name s)"
    by (auto simp: get_field_site_def Let_def split_def extends_def same_tables_def)
  then show "piece E k 0 0 1 [] s (get_field_site slot name s)"
    by (auto intro!: piece_extends simp: op_shape)
qed (rule piece_extends [OF extends_steps(3)], simp add: op_shape)+

lemma compile_pattern_test_ok:
  "piece E k 0 1 0 (fst (compile_pattern_test E' p s)) s (snd (compile_pattern_test E' p s))"
proof (induction p arbitrary: s)
  case (PLiteral l)
  then show ?case
    using literal_test_ok [of E k s l E'] by (simp add: Let_def here_def compile_lit_def split_def)
next
  case PWild
  then show ?case
    using piece_extends [OF extends_steps(3)] by (simp add: op_shape)
next
  case (PVar name)
  then show ?case
    using piece_store by (simp add: split_def)
next
  case (PConstructor name args)
  obtain j s1 where c: "constructor_test name s = (j, s1)"
    by fastforce
  note first = constructor_test_ok [OF c]
  consider "args = []" | a where "args = [a]" | a b r where "args = a # b # r"
    by (metis list.exhaust)
  then show ?case
  proof cases
    case 1
    then show ?thesis
      using piece_trans [OF first piece_extends [OF extends_steps(3)]] c by (simp add: op_shape)
  next
    case 2
    then show ?thesis
      using piece_trans [OF first piece_extends_trans [OF extends_steps(3) _ PConstructor.IH]] c
      by (simp add: op_shape split_def Let_def)
  next
    case 3
    let ?slot = "fst (store_new [] ''__variant'' s1)" and ?s2 = "snd (store_new [] ''__variant'' s1)"
    let ?ts = "map (\<lambda>(i, a). (emits [LoadLocal ?slot, GetVariantArg (as_u16 i)], compile_pattern_test E' a)) (enumerate 0 args)"
    have "\<exists>fs. fst (pattern_seq ?ts [j] ?s2) = [j] @ fs \<and> piece E k 0 0 0 fs ?s2 (snd (pattern_seq ?ts [j] ?s2))"
      by (rule pattern_seq_ok) (auto intro: piece_pre PConstructor.IH dest: enumerate_mem simp del: One_nat_def)
    then have "piece E k 0 1 0 (fst (pattern_seq ?ts [j] ?s2)) s (snd (pattern_seq ?ts [j] ?s2))"
      using piece_trans [OF first piece_trans [OF piece_store]] by force
    then show ?thesis
      using 3 c by (simp add: split_def Let_def)
  qed
next
  case (PRecord fs)
  let ?slot = "fst (store_new [] ''__record'' s)" and ?s2 = "snd (store_new [] ''__record'' s)"
  let ?ts = "map (\<lambda>f. (get_field_site ?slot (fst f), compile_pattern_test E' (snd f))) fs"
  have "\<exists>fs. fst (pattern_seq ?ts [] ?s2) = [] @ fs \<and> piece E k 0 0 0 fs ?s2 (snd (pattern_seq ?ts [] ?s2))"
    by (rule pattern_seq_ok) (auto intro: piece_pre PRecord.IH simp: snds.simps simp del: One_nat_def)
  then show ?case
    using piece_trans [OF piece_store] by (force simp: split_def Let_def)
next
  case (PTuple items)
  let ?slot = "fst (store_new [] ''__tuple'' s)" and ?s2 = "snd (store_new [] ''__tuple'' s)"
  let ?ts = "map (\<lambda>(i, a). (emits [LoadLocal ?slot, GetElem (as_u16 i)], compile_pattern_test E' a)) (enumerate 0 items)"
  have "\<exists>fs. fst (pattern_seq ?ts [] ?s2) = [] @ fs \<and> piece E k 0 0 0 fs ?s2 (snd (pattern_seq ?ts [] ?s2))"
    by (rule pattern_seq_ok) (auto intro: piece_pre PTuple.IH dest: enumerate_mem simp del: One_nat_def)
  then show ?case
    using piece_trans [OF piece_store] by (force simp: split_def Let_def)
qed

section \<open>Matches\<close>

text \<open>Patching every jump of a piece to its end closes the piece.\<close>

lemma patch_all_tables [simp]:
  "fc_pending_lambdas (patch_all js t s) = fc_pending_lambdas s" "fc_functions (patch_all js t s) = fc_functions s"
  by (induction js arbitrary: s) simp_all

lemma patched_split:
  assumes "\<forall>j \<in> set js. length pre \<le> j \<and> j < length pre + length seg"
  obtains seg' where "patched js t (pre @ seg) = pre @ seg'" "length seg' = length seg"
    "seg' = drop (length pre) (patched js t (pre @ seg))"
  using patched_append [OF assms, of t] by (metis length_patched length_append add_left_cancel)

lemma piece_close:
  assumes "piece E k d a d js s s1" "same_tables s1 s2" "fc_code s2 = patched js (length (fc_code s1)) (fc_code s1)"
  shows "reach E k a d s s2"
proof -
  obtain seg where seg: "fc_code s1 = fc_code s @ seg"
      "\<forall>j \<in> set js. length (fc_code s) \<le> j \<and> j < length (fc_code s) + length seg"
      "E \<noteq> None \<Longrightarrow> length (fc_code s1) < 2 ^ 16 \<Longrightarrow> runs (length (fc_code s)) seg (holes d js) a d"
    and grown: "grown E k s s1"
    using assms(1) by (auto simp: piece_def)
  obtain seg' where seg': "fc_code s2 = fc_code s @ seg'" "length seg' = length seg"
      "seg' = drop (length (fc_code s)) (patched js (length (fc_code s) + length seg) (fc_code s @ seg))"
    using patched_split [OF seg(2)] assms(3) seg(1) by (metis length_append)
  have "(\<lambda>j. if j \<in> set js then None else holes d js j) = Map.empty"
    by (auto simp: holes_def fun_eq_iff)
  then have "runs (length (fc_code s)) seg' Map.empty a d" if "length (fc_code s2) < 2 ^ 16" "E \<noteq> None"
    using runs_patched [OF seg(3) refl, of js] seg(1,2) seg' that by (simp add: holes_def)
  then show ?thesis
    unfolding reach_def using seg'(1) grown_trans [OF grown grown_same [OF assms(2)]] by auto
qed

text \<open>An arm ends with a jump over the others; where its test fails it falls through to the next.\<close>

lemma arm_runs:
  assumes "runs n p (holes 0 fs) 0 0" "runs (n + length p) q Map.empty 0 1"
    and "\<forall>j \<in> set fs. n \<le> j \<and> j < n + length p"
  shows "runs n ((p @ q) @ [Jump 0]) (\<lambda>i. if i = n + length (p @ q) then Some 1 else holes 0 fs i) 0 0" (is "runs n _ ?H 0 0")
proof -
  have "runs n p ?H 0 0 = runs n p (holes 0 fs) 0 0"
    by (rule runs_cong) simp
  moreover have "runs (n + length p) q ?H 0 1 = runs (n + length p) q Map.empty 0 1"
    using assms(3) by (intro runs_cong) (auto simp: holes_def)
  moreover have "runs (n + length (p @ q)) [Jump 0] ?H 1 0"
    unfolding runs_def flows_def by (intro exI [of _ "[Some 1, None]"]) (simp add: hole_ok_def)
  ultimately show ?thesis
    using assms(1,2) runs_append by blast
qed

lemma compile_arm_ok:
  assumes body: "action_ok E k 1 body" and arm: "compile_arm E' slot p body s = Some (j, s')"
  shows "piece E k 1 0 0 [j] s s'"
proof -
  obtain fs s2 s3 where s2: "compile_pattern_test E' p (emits [LoadLocal slot] s) = (fs, s2)" and s3: "body s2 = Some s3"
    and j: "j = length (fc_code s3)" and tables: "same_tables s3 s'"
    and code: "fc_code s' = patched fs (length (fc_code s3) + 1) (fc_code s3 @ [Jump 0])"
    using arm by (auto simp: compile_arm_def Let_def bind_eq_Some_conv fc_code_patch_all here_def same_tables_def
        split: prod.splits)
  have test: "piece E k 0 0 0 fs s s2"
    using piece_extends_trans [OF extends_steps(3) _ compile_pattern_test_ok, of "[LoadLocal slot]" 0 E k E' p s] s2
    by (simp add: op_shape)
  have run: "reach E k 0 1 s2 s3"
    using body s3 by (auto simp: action_ok_def)
  let ?n = "length (fc_code s)"
  obtain p q where p: "fc_code s2 = fc_code s @ p" "\<forall>j \<in> set fs. ?n \<le> j \<and> j < ?n + length p"
      "E \<noteq> None \<Longrightarrow> length (fc_code s2) < 2 ^ 16 \<Longrightarrow> runs ?n p (holes 0 fs) 0 0"
    and q: "fc_code s3 = fc_code s2 @ q" "E \<noteq> None \<Longrightarrow> length (fc_code s3) < 2 ^ 16 \<Longrightarrow> runs (?n + length p) q Map.empty 0 1"
    using test run by (auto simp: piece_def reach_def)
  let ?seg = "(p @ q) @ [Jump 0]"
  have seg: "fc_code s3 @ [Jump 0] = fc_code s @ ?seg" "length (fc_code s3) + 1 = ?n + length ?seg"
    using p q by simp_all
  have inside: "\<forall>j \<in> set fs. ?n \<le> j \<and> j < ?n + length ?seg"
    using p(2) by auto
  obtain seg' where seg': "fc_code s' = fc_code s @ seg'" "length seg' = length ?seg"
      "seg' = drop ?n (patched fs (?n + length ?seg) (fc_code s @ ?seg))"
    using patched_split [OF inside, of "?n + length ?seg"] unfolding code seg by blast
  have H: "(\<lambda>i. if i \<in> set fs then None else if i = ?n + length (p @ q) then Some 1 else holes 0 fs i) = holes 1 [j]"
    using p q j by (auto simp: holes_def fun_eq_iff)
  have "runs ?n seg' (holes 1 [j]) 0 0" if small: "length (fc_code s') < 2 ^ 16" and some: "E \<noteq> None"
    unfolding seg'(3) H [symmetric]
    by (rule runs_patched [OF arm_runs]) (use small some p q seg' in \<open>auto simp: holes_def\<close>)
  moreover have "grown E k s s'"
    using test run grown_same [OF tables] grown_trans by (meson piece_def reach_def)
  ultimately show ?thesis
    using seg' p q j by (auto simp: piece_def)
qed

lemma compile_arms_ok:
  assumes "\<forall>arm \<in> set arms. action_ok E k 1 (snd arm)" "compile_arms E' slot arms js s = Some (js', s')"
  shows "\<exists>fs. js' = js @ fs \<and> piece E k 1 0 0 fs s s'"
  using assms
proof (induction E' slot arms js s rule: compile_arms.induct)
  case (1 E' slot js s)
  then show ?case
    by (auto simp: piece_reach reach_refl)
next
  case (2 E' slot p body arms js s)
  then obtain j s1 where "compile_arm E' slot p body s = Some (j, s1)" "compile_arms E' slot arms (js @ [j]) s1 = Some (js', s')"
    by (auto simp: bind_eq_Some_conv)
  then show ?case
    using "2.IH" [of "(j, s1)" j s1] "2.prems"(1) compile_arm_ok [of E k body E' slot p s j s1] piece_trans by fastforce
qed

lemma compile_match_ok:
  assumes "action_ok E k 1 scrutinee" "\<forall>arm \<in> set arms. action_ok E k 1 (snd arm)"
  shows "action_ok E k 1 (compile_match E' scrutinee arms)"
proof (rule action_okI)
  fix s s' assume "compile_match E' scrutinee arms s = Some s'"
  then obtain s1 js s2 i where s1: "scrutinee s = Some s1"
    and s2: "compile_arms E' (fst (store_new [] ''__scrut'' s1)) arms [] (snd (store_new [] ''__scrut'' s1)) = Some (js, s2)"
    and s': "s' = patch_all js (length (fc_code s2) + 1) (emits [Panic i] (snd (with_pool (pool_str ''non-exhaustive match'') s2)))"
    by (auto simp: compile_match_def bind_eq_Some_conv split_def Let_def here_def)
  let ?s3 = "emits [Panic i] (snd (with_pool (pool_str ''non-exhaustive match'') s2))"
  have "piece E k 1 0 1 [] s s1"
    using s1 assms(1) by (auto simp: piece_reach action_ok_def)
  then have "piece E k 1 0 0 [] s (snd (store_new [] ''__scrut'' s1))"
    using piece_trans [OF _ piece_extends [OF extends_steps(2)]] by (fastforce simp: op_shape)
  moreover have "piece E k 1 0 0 js (snd (store_new [] ''__scrut'' s1)) s2"
    using compile_arms_ok [OF assms(2) s2] by auto
  moreover have "piece E k 1 0 1 [] s2 ?s3"
    by (auto simp: piece_reach reach_def grown_same same_tables_def intro!: runs_stop simp: op_shape)
  ultimately have "piece E k 1 0 1 ([] @ js @ []) s ?s3"
    by (intro piece_trans)
  then have "piece E k 1 0 1 js s ?s3"
    by simp
  then show "reach E k 0 1 s s'"
    by (rule piece_close) (simp_all add: s' fc_code_patch_all same_tables_def)
qed

end
