(* ===== verification/Cp_Balanced.thy ===== *)
theory Cp_Balanced
  imports Cp_Balance
begin

text \<open>The balance of compiled expressions: operators, calls, lambdas, and the induction over expressions.\<close>

section \<open>Sequences of actions\<close>

lemma reach_bounded_step:
  assumes "reach E k a c s s1" "extends s1 (fc_code s1 @ ops) s2"
    and "E \<noteq> None \<Longrightarrow> length (fc_code s2) < 2 ^ 16 \<Longrightarrow> runs (length (fc_code s1)) ops Map.empty c b"
  shows "reach E k a b s s2"
proof (rule reach_trans [OF assms(1)])
  show "reach E k c b s1 s2"
    using assms(2,3) by (auto simp: reach_def extends_def grown_same)
qed

lemma ends_act:
  assumes "action_ok E k n act" "\<And>s1. act s = Some s1 \<Longrightarrow> ends (reach E k (a + n) b s1) (h s1)"
  shows "ends (reach E k a b s) (Option.bind (act s) h)"
proof -
  have "ends (reach E k a b s) (h s1)" if "act s = Some s1" for s1
    using that assms by (intro ends_rebase [of E k a "a + n" s s1]) (auto simp: action_ok_def)
  then show ?thesis
    by (auto simp: ends_def bind_eq_Some_conv)
qed

lemma reach_grows:
  assumes "reach E k a b s s'"
  shows "length (fc_code s) \<le> length (fc_code s')"
    and "a \<noteq> b \<Longrightarrow> E \<noteq> None \<Longrightarrow> length (fc_code s') < 2 ^ 16 \<Longrightarrow> length (fc_code s) < length (fc_code s')"
  using assms by (auto simp: reach_def runs_def)

lemma run_all_ok:
  assumes "\<forall>x \<in> set steps. action_ok E k n x" "run_all steps s = Some s'"
  shows "reach E k a (a + n * length steps) s s' \<and>
    (E \<noteq> None \<longrightarrow> length (fc_code s') < 2 ^ 16 \<longrightarrow> 0 < n \<longrightarrow> length steps + length (fc_code s) \<le> length (fc_code s'))"
  using assms
proof (induction steps s arbitrary: a rule: run_all.induct)
  case (1 s)
  then show ?case
    by (simp add: reach_refl)
next
  case (2 act steps s)
  then obtain s1 where s1: "act s = Some s1" "run_all steps s1 = Some s'"
    by (auto simp: bind_eq_Some_conv)
  have first: "reach E k a (a + n) s s1"
    using 2 s1(1) by (auto simp: action_ok_def)
  have rest: "reach E k (a + n) (a + n + n * length steps) s1 s' \<and>
    (E \<noteq> None \<longrightarrow> length (fc_code s') < 2 ^ 16 \<longrightarrow> 0 < n \<longrightarrow> length steps + length (fc_code s1) \<le> length (fc_code s'))"
    using 2 s1 by simp
  then show ?case
    using reach_trans [OF first] reach_grows [OF first] reach_grows(1) [of E k "a + n" "a + n + n * length steps" s1 s']
    by (auto simp: algebra_simps)
qed

text \<open>An instruction that takes the values of all the operands.\<close>

lemma ends_run_all:
  assumes "\<forall>x \<in> set steps. action_ok E k 1 x"
    and "\<And>s1. (E \<noteq> None \<Longrightarrow> length (fc_code s1) < 2 ^ 16 \<Longrightarrow> length steps < 2 ^ 16) \<Longrightarrow> ends (reach E k (a + length steps) b s1) (h s1)"
  shows "ends (reach E k a b s) (Option.bind (run_all steps s) h)"
proof -
  have "ends (reach E k (a + length steps) b s1) (h s1)" and "reach E k a (a + length steps) s s1"
    if "run_all steps s = Some s1" for s1
    using run_all_ok [OF assms(1) that, of a] assms(2) [of s1] by auto
  then show ?thesis
    by (auto simp: ends_def bind_eq_Some_conv intro: reach_trans)
qed

lemma ends_statements:
  assumes "\<forall>x \<in> set steps. action_ok E k 0 x" "\<And>s1. ends (reach E k a b s1) (h s1)"
  shows "ends (reach E k a b s) (Option.bind (run_all steps s) h)"
proof -
  have "ends (reach E k a b s) (h s1)" if "run_all steps s = Some s1" for s1
    using run_all_ok [OF assms(1) that, of a] by (intro ends_rebase [OF _ assms(2)]) simp
  then show ?thesis
    by (auto simp: ends_def bind_eq_Some_conv)
qed

lemma ends_gather:
  assumes "E \<noteq> None \<Longrightarrow> length (fc_code s) < 2 ^ 16 \<Longrightarrow> op_pops op' \<le> a \<and> op_next op' (length (fc_code s)) = [Suc (length (fc_code s))] \<and>
      b = a - op_pops op' + op_pushes op'" and "\<forall>f. op' \<noteq> Fused f"
  shows "ends (reach E k a b s) (Some (emits [op'] s))"
proof (rule ends_last)
  fix s1 assume s1: "extends s (fc_code s @ [op']) s1"
  then show "reach E k a b s s1"
    using assms runs_one [of op' "length (fc_code s)" a Map.empty]
    by (intro reach_bounded_step [OF reach_refl s1]) (auto simp: extends_def)
qed

lemma ends_gather_later:
  assumes "extends s (fc_code s) s1"
    and "E \<noteq> None \<Longrightarrow> length (fc_code s) < 2 ^ 16 \<Longrightarrow> op_pops op' \<le> a \<and> op_next op' (length (fc_code s)) = [Suc (length (fc_code s))] \<and>
      b = a - op_pops op' + op_pushes op'" and "\<forall>f. op' \<noteq> Fused f"
  shows "ends (reach E k a b s) (Some (emits [op'] s1))"
  by (rule ends_rebase [OF reach_extends [where ops = "[]"]], use assms(1) in simp, simp, rule ends_gather)
    (use assms in \<open>auto simp: extends_def\<close>)

lemma ends_stop:
  assumes "E \<noteq> None \<Longrightarrow> length (fc_code s) < 2 ^ 16 \<Longrightarrow> op_pops op' \<le> a" "\<And>n. op_next op' n = []" "\<forall>f. op' \<noteq> Fused f"
  shows "ends (reach E k a b s) (Some (emits [op'] s))"
proof (rule ends_last)
  fix s1 assume s1: "extends s (fc_code s @ [op']) s1"
  then show "reach E k a b s s1"
    using assms runs_stop [of op' "length (fc_code s)" a Map.empty]
    by (intro reach_bounded_step [OF reach_refl s1]) (auto simp: extends_def)
qed

section \<open>Operators and variables\<close>

lemma reach_emitted: "depth_after ops a = Some b \<Longrightarrow> reach E k a b s (emits ops s)"
  by (rule reach_emits [OF reach_refl])

lemma compile_lit_ok: "action_ok E k 1 (\<lambda>s. Some (compile_lit E' l s))"
  by (rule action_okI) (auto simp: compile_lit_def Let_def split_def op_shape intro!: reach_emits [OF reach_pool [OF reach_refl]])

lemma compile_var_ok: "action_ok E k 1 (compile_var E' name)"
  by (rule action_okI) (auto simp: compile_var_def op_shape intro!: reach_emitted split: option.splits)

lemma reach_swap: "reach E k 2 2 s (emit_swap_top2 s)"
proof -
  obtain i j where code: "fc_code (emit_swap_top2 s) = fc_code s @ [StoreLocal j, StoreLocal i, LoadLocal j, LoadLocal i]"
    by (auto simp: emit_swap_top2_def Let_def split_def)
  have tables: "same_tables s (emit_swap_top2 s)"
    by (simp add: emit_swap_top2_def Let_def split_def same_tables_def)
  show ?thesis
    by (rule reach_step [OF reach_refl tables code]) (simp add: op_shape eval_nat_numeral)
qed

lemma binop_depth:
  "depth_after [by_type t IntAdd FloatAdd NumAdd] 2 = Some 1" "depth_after [by_type t IntSub FloatSub NumSub] 2 = Some 1"
  "depth_after [by_type t IntMul FloatMul NumMul] 2 = Some 1" "depth_after [by_type t IntDiv FloatDiv NumDiv] 2 = Some 1"
  "depth_after [by_type t IntMod NumMod NumMod] 2 = Some 1" "depth_after [by_type t IntEq FloatEq NumEq] 2 = Some 1"
  "depth_after [by_type t IntEq FloatEq NumEq, Prim BoolNot] 2 = Some 1"
  "depth_after [by_type t IntLt FloatLt NumLt] 2 = Some 1" "depth_after [by_type t IntLe FloatLe NumLe] 2 = Some 1"
  "depth_after [Prim BoolAnd] 2 = Some 1" "depth_after [Prim BoolOr] 2 = Some 1"
  by (cases t; simp add: by_type_def op_shape)+

lemma ends_if: "ends Q m1 \<Longrightarrow> ends Q m2 \<Longrightarrow> ends Q (if c then m1 else m2)"
  by simp

lemma ends_swapped: "depth_after ops 2 = Some b \<Longrightarrow> ends (reach E k 2 b s) (Some (emits ops (emit_swap_top2 s)))"
  by (simp add: ends_def reach_emits [OF reach_swap])

lemma ends_None: "ends Q None"
  by (simp add: ends_def)

lemma emit_binop_ends: "ends (reach E k 2 1 s) (emit_binop op' t s)"
  unfolding emit_binop_def by (rule ends_if ends_None ends_swapped ends_emitted binop_depth)+

lemma compile_binop_ok:
  assumes "action_ok E k 1 l" "action_ok E k 1 r"
  shows "action_ok E k 1 (compile_binop op' lhs rhs l r)"
  unfolding compile_binop_def Let_def
  by (rule action_ok_ends, rule ends_act [OF assms(1)], rule ends_act [OF assms(2)])
    (use emit_binop_ends in \<open>simp add: numeral_2_eq_2\<close>)

lemma emit_unary_ends: "ends (reach E k 1 1 s) (emit_unary op' s)"
  by (auto simp: emit_unary_def op_shape ends_def intro!: reach_emitted split: if_splits)

section \<open>Calls\<close>

lemma call_value_ok:
  assumes "action_ok E k 1 callee" "\<forall>x \<in> set args. action_ok E k 1 x"
  shows "action_ok E k 1 (call_value callee args nid)"
  unfolding call_value_def
  by (rule action_ok_ends, rule ends_act [OF assms(1)], rule ends_run_all [OF assms(2)], rule ends_gather)
    (simp_all add: op_shape as_u16_def)

lemma ends_action: "action_ok E k 1 act \<Longrightarrow> ends (reach E k 0 1 s) (act s)"
  by (auto simp: ends_def action_ok_def)

lemma load_ok: "action_ok E k 1 (\<lambda>s. Some (emits [LoadLocal slot] s))"
  by (rule action_okI) (auto simp: op_shape intro!: reach_emitted)

lemma compile_call_ok:
  assumes callee: "action_ok E k 1 callee_act" and args: "\<forall>x \<in> set args. action_ok E k 1 x"
    and next': "E \<noteq> None \<Longrightarrow> module_callee E' callee \<noteq> Some (''iter'', ''next'')"
  shows "action_ok E k 1 (compile_call E' nid callee callee_act args tail)"
proof -
  note called = ends_action [OF call_value_ok [OF callee args]] ends_action [OF call_value_ok [OF load_ok args]]
  have inline: "ends (reach E k 0 1 s) (act s)"
    if "try_emit_higher_order E' module field args i = Some act" "module_callee E' callee = Some (module, field)"
    for module field act i s
    using higher_order_ok [OF args that(1)] that(2) next' by (auto intro: ends_action simp del: One_nat_def)
  have effect: "ends (reach E k 0 1 s) (Option.bind (run_all args s) (\<lambda>s.
      let (kind_idx, s) = with_pool (pool_str module) s; (op_idx, s) = with_pool (pool_str field) s
      in Some (emits [EffectCall kind_idx op_idx (as_u16 (length args)) i] s)))" for module field i s
    by (rule ends_run_all [OF args], (rule ends_steps(1))+, rule ends_gather_later)
      (auto simp: op_shape as_u16_def extends_def same_tables_def)
  have direct: "ends (reach E k 0 1 s) (Option.bind (run_all args s) (\<lambda>s.
      Some (emits [if tail then TailCall f (as_u16 (length args)) i else Call f (as_u16 (length args)) i] s)))" for f i s
  proof (rule ends_run_all [OF args])
    fix s1 :: FnCompiler assume "E \<noteq> None \<Longrightarrow> length (fc_code s1) < 2 ^ 16 \<Longrightarrow> length args < 2 ^ 16"
    then show "ends (reach E k (0 + length args) 1 s1)
        (Some (emits [if tail then TailCall f (as_u16 (length args)) i else Call f (as_u16 (length args)) i] s1))"
      using ends_stop [of E s1 "TailCall f (as_u16 (length args)) i"] ends_gather [of E s1 "Call f (as_u16 (length args)) i"]
      by (cases tail) (auto simp: op_shape as_u16_def)
  qed
  have todo: "ends (reach E k 0 1 s) (let (idx, s) = with_pool (pool_str m) s in Some (emits [Panic idx] s))" for m s
    by (rule ends_pool, rule ends_stop) (simp_all add: op_shape)
  show ?thesis
    unfolding compile_call_def Let_def [of "as_u16 (length args)"]
    by (rule action_ok_ends, rule ends_pool)
      (use inline effect direct todo called in \<open>auto split: option.splits CExpr.splits\<close>)
qed

section \<open>Records and lambdas\<close>

lemma compile_fields_ok:
  assumes "\<forall>f \<in> set fs. action_ok E k 1 (snd f)" "compile_fields fs idxs s = Some (idxs', s')"
  shows "reach E k a (a + length fs) s s' \<and> length idxs' = length idxs + length fs \<and>
    (E \<noteq> None \<longrightarrow> length (fc_code s') < 2 ^ 16 \<longrightarrow> length fs + length (fc_code s) \<le> length (fc_code s'))"
  using assms
proof (induction fs idxs s arbitrary: a rule: compile_fields.induct)
  case (1 idxs s)
  then show ?case
    by (simp add: reach_refl)
next
  case (2 name v fs idxs s)
  then obtain s1 where s1: "v s = Some s1"
    "compile_fields fs (idxs @ [fst (with_pool (pool_field name) s1)]) (snd (with_pool (pool_field name) s1)) = Some (idxs', s')"
    by (auto simp: bind_eq_Some_conv split_def Let_def)
  have first: "reach E k a (Suc a) s (snd (with_pool (pool_field name) s1))"
    using 2 s1(1) by (auto simp: action_ok_def intro: reach_pool)
  have rest: "reach E k (Suc a) (Suc a + length fs) (snd (with_pool (pool_field name) s1)) s' \<and>
    length idxs' = length idxs + 1 + length fs \<and>
    (E \<noteq> None \<longrightarrow> length (fc_code s') < 2 ^ 16 \<longrightarrow>
      length fs + length (fc_code (snd (with_pool (pool_field name) s1))) \<le> length (fc_code s'))"
    using "2.IH" [OF s1(1) refl prod.collapse _ s1(2), of "Suc a"] 2(2) by auto
  then show ?case
    using reach_trans [OF first] reach_grows(2) [OF first] reach_grows(1) [of E k "Suc a" _ "snd (with_pool (pool_field name) s1)" s']
    by auto
qed

lemma depth_after_append: "depth_after (xs @ ys) d = Option.bind (depth_after xs d) (depth_after ys)"
  by (induction xs arbitrary: d) auto

lemma depth_after_loads: "depth_after (map LoadLocal slots) d = Some (d + length slots)"
  by (induction slots arbitrary: d) (auto simp: op_shape)

lemma compile_lambda_ok:
  assumes "size body < k" "pred_option (\<lambda>E. no_iter_next E body) E"
  shows "action_ok E k 1 (compile_lambda params body)"
proof (rule action_okI)
  fix s s' assume c: "compile_lambda params body s = Some s'"
  let ?slots = "map (\<lambda>c. the (map_of (fc_locals s) c))
    (filter (\<lambda>n. map_of (fc_locals s) n \<noteq> None) (free_vars body (set (map fst params)) []))"
  let ?id = "as_u32 (length (fc_functions s))"
  have code: "fc_code s' = fc_code s @ map LoadLocal ?slots @ [MakeClosure ?id (as_u16 (length ?slots))]"
    and "\<exists>f. fc_functions s' = fc_functions s @ [f]"
    and "\<exists>pl. fc_pending_lambdas s' = pl # fc_pending_lambdas s \<and> pl_body pl = body \<and> pl_fn_id pl = ?id"
    using c by (auto simp: compile_lambda_def Let_def)
  then obtain f pl where s': "fc_functions s' = fc_functions s @ [f]" "fc_pending_lambdas s' = pl # fc_pending_lambdas s"
      "pl_body pl = body" "pl_fn_id pl = ?id"
    by auto
  have "grown E k s s'"
    unfolding grown_def using s' assms by (intro exI [of _ "[pl]"] exI [of _ "[f]"]) simp
  moreover have "depth_after (map LoadLocal ?slots @ [MakeClosure ?id (as_u16 (length ?slots))]) 0 = Some 1"
    if "length (fc_code s') < 2 ^ 16"
    using that code by (simp add: depth_after_append depth_after_loads op_shape as_u16_def del: map_map)
  ultimately show "reach E k 0 1 s s'"
    unfolding reach_def code by (auto intro: runs_straight)
qed

section \<open>Expressions\<close>

text \<open>A compiled expression leaves one value more than it found, on every path that reaches its end.\<close>

lemma bind_let_reach: "reach E k 1 0 s (bind_let name t s)"
  by (rule reach_step [OF reach_refl, where ops = "[StoreLocal (fst (alloc_local name s))]"])
    (simp_all add: bind_let_def Let_def split_def same_tables_def emits_def op_shape alloc_local_def)

lemma let_types_reach: "reach E k a a s (let_types name v s)"
  by (rule reach_step [OF reach_refl, where ops = "[]"]) (simp_all add: let_types_def same_tables_def split: CExpr.splits)

lemma statement_ok: "action_ok E k 1 a \<Longrightarrow> action_ok E k 0 (statement a)"
  unfolding action_ok_def statement_def
  by (auto intro!: reach_emits [where ops = "[Pop]" and c = "Suc _"] simp: op_shape)

lemma compile_let_ok:
  assumes "action_ok E k 1 v_act" "action_ok E k 1 body"
  shows "ends (reach E k 0 1 s) (Option.bind (v_act (let_types name v s)) (\<lambda>s. body (bind_let name t s)))"
proof (rule ends_rebase [OF let_types_reach], rule ends_act [OF assms(1)])
  show "ends (reach E k (0 + 1) 1 s1) (body (bind_let name t s1))" for s1
    using ends_rebase [OF bind_let_reach ends_action [OF assms(2)], of s1] by simp
qed

lemma ends_site:
  assumes "\<And>s1. ends (reach E k a b s1) (Some (emits [GetField i n] s1))"
  shows "ends (reach E k a b s) (Some (emits [GetField i n] (s\<lparr>fc_field_get_sites := m\<rparr>)))"
  by (rule ends_rebase [OF reach_step [OF reach_refl, where ops = "[]"] assms]) (simp_all add: same_tables_def)

lemma ends_fields:
  assumes "\<forall>f \<in> set fs. action_ok E k 1 (snd f)"
  shows "ends (reach E k 0 1 s) (Option.bind (compile_fields fs [] s) (\<lambda>(idxs, s).
    let (shape_idx, s) = with_pool (pool_record_shape idxs) s in Some (emits [MakeRecord shape_idx (as_u16 (length idxs))] s)))"
proof -
  have "ends (reach E k 0 1 s) (let (shape_idx, s) = with_pool (pool_record_shape idxs) s1
      in Some (emits [MakeRecord shape_idx (as_u16 (length idxs))] s))"
    if "compile_fields fs [] s = Some (idxs, s1)" for idxs s1
  proof (rule ends_steps(1), rule ends_rebase)
    fix i s2 assume s2: "extends s1 (fc_code s1) s2"
    note fields' = compile_fields_ok [OF assms that, of 0]
    show "reach E k 0 (length fs) s s2"
      using fields' s2 by (auto intro: reach_step [where ops = "[]"] simp: extends_def)
    show "ends (reach E k (length fs) 1 s2) (Some (emits [MakeRecord i (as_u16 (length idxs))] s2))"
      using fields' s2 by (intro ends_gather) (auto simp: op_shape as_u16_def extends_def)
  qed
  then show ?thesis
    by (auto simp: ends_def bind_eq_Some_conv)
qed

lemma compile_expr_ok:
  "pred_option (\<lambda>E. E = E' \<and> no_iter_next E e) M \<Longrightarrow> action_ok M (size e) 1 (compile_expr E' nid e tail)"
proof (induction e arbitrary: nid tail rule: measure_induct_rule [where f = size])
  case (less e)
  note [simp] = pred_option_def
  define k where "k = size e"
  have sub: "action_ok M k 1 (compile_expr E' nid x tail)" if "size x < size e" "pred_option (\<lambda>E. E = E' \<and> no_iter_next E x) M" for x nid tail
    using action_ok_mono [OF less.IH [OF that]] that(1) by (simp add: k_def)
  have mem: "action_ok M k 1 (compile_expr E' nid x tail)"
    if "x \<in> set xs" "pred_option (\<lambda>E. E = E' \<and> list_all (no_iter_next E) xs) M" "size_list size xs < size e" for x xs nid tail
    using sub [of x nid tail] size_list_estimation' [OF that(1) order_refl, of size] that by (auto simp: list_all_iff)
  have all: "\<forall>a \<in> set (map (\<lambda>(i, a). compile_expr E' (child nid i) a False) (enumerate n xs)). action_ok M k 1 a"
    if "pred_option (\<lambda>E. E = E' \<and> list_all (no_iter_next E) xs) M" "size_list size xs < size e" for xs n
    using that mem by (auto simp del: One_nat_def dest!: enumerate_mem)
  have mem_snd: "action_ok M k 1 (compile_expr E' nid y tail)"
    if "(x, y) \<in> set ps" "pred_option (\<lambda>E. E = E' \<and> list_all (\<lambda>p. no_iter_next E (snd p)) ps) M" "size_list (size_prod f size) ps < size e"
    for x :: 'a and y ps nid tail f
    using sub [of y nid tail] size_list_estimation' [OF that(1) order_refl, of "size_prod f size"] that
    by (cases M) (auto simp: list_all_iff)
  have "ends (reach M k 0 1 s) (compile_expr E' nid e tail s)" for s
  proof (cases e)
    case (Literal l)
    then show ?thesis
      using ends_action [OF compile_lit_ok] by (simp add: compile_expr.simps)
  next
    case (Var name)
    then show ?thesis
      using ends_action [OF compile_var_ok] by (simp add: compile_expr.simps)
  next
    case (CLet name ty v body)
    show ?thesis
      unfolding CLet compile_expr.simps Let_def
      by (rule compile_let_ok; rule sub) (use less.prems CLet in simp_all)
  next
    case (UnaryOp op' x)
    show ?thesis
      unfolding UnaryOp compile_expr.simps
      by (rule ends_act, rule sub) (use less.prems UnaryOp emit_unary_ends in simp_all)
  next
    case (BinOp op' l r)
    show ?thesis
      unfolding BinOp compile_expr.simps
      by (rule ends_action [OF compile_binop_ok]; rule sub) (use less.prems BinOp in simp_all)
  next
    case (Lambda params ret effs rv body)
    show ?thesis
      unfolding Lambda compile_expr.simps
      by (rule ends_action [OF compile_lambda_ok]) (use less.prems Lambda k_def in simp_all)
  next
    case (CCall callee args)
    show ?thesis
      unfolding CCall compile_expr.simps
      by (rule ends_action [OF compile_call_ok [OF sub all]]) (use less.prems CCall in \<open>auto split: option.splits\<close>)
  next
    case (CReturn x)
    have "ends (reach M k 0 1 s) (Option.bind (compile_expr E' (child nid 0) x True s) (\<lambda>s. Some (emits [Return] s)))"
      by (rule ends_act, rule sub, use CReturn in simp, use less.prems CReturn in simp, rule ends_stop)
        (simp_all add: op_shape)
    then show ?thesis
      unfolding CReturn compile_expr.simps by (simp add: map_conv_bind_option comp_def)
  next
    case (FieldAccess x field)
    show ?thesis
      unfolding FieldAccess compile_expr.simps Let_def [of "fc_field_get_sites _"] Let_def [of "fc_field_get_sites_update _ _"]
      by (rule ends_act, rule sub, use less.prems FieldAccess in simp, use less.prems FieldAccess in simp,
          rule ends_pool, rule ends_site, rule ends_emitted) (simp add: op_shape)
  next
    case (TupleLit items)
    show ?thesis
      unfolding TupleLit compile_expr.simps
      by (rule ends_run_all [OF all], use less.prems TupleLit in simp, use TupleLit in simp, rule ends_gather)
        (simp_all add: op_shape as_u16_def)
  next
    case (ListLit items)
    show ?thesis
      unfolding ListLit compile_expr.simps
      by (rule ends_run_all [OF all], use less.prems ListLit in simp, use ListLit in simp, rule ends_gather)
        (simp_all add: op_shape as_u32_def)
  next
    case (CBlock statements result)
    have "action_ok M k 0 a"
      if "a \<in> set (map (\<lambda>(i, e). statement (compile_expr E' (child nid i) e False)) (enumerate 0 statements))" for a
      using that less.prems CBlock by (auto dest!: enumerate_mem intro!: statement_ok mem simp del: One_nat_def)
    then show ?thesis
      unfolding CBlock compile_expr.simps
      by (intro ends_statements ballI ends_action sub) (use less.prems CBlock in simp_all)
  next
    case (Constructor name args)
    show ?thesis
      unfolding Constructor compile_expr.simps
      by (rule ends_run_all [OF all], use less.prems Constructor in simp, use Constructor in simp, rule ends_steps(1),
          rule ends_gather_later) (simp_all add: op_shape as_u16_def)
  next
    case (RecordLit fs)
    show ?thesis
      unfolding RecordLit compile_expr.simps
      by (rule ends_fields) (use less.prems RecordLit in \<open>auto dest!: enumerate_mem intro!: mem_snd [of _ _ fs "\<lambda>_. 0"] simp del: One_nat_def\<close>)
  next
    case (CMatch scrutinee arms)
    show ?thesis
      unfolding CMatch compile_expr.simps
      by (rule ends_action [OF compile_match_ok [OF sub]])
        (use less.prems CMatch in \<open>auto dest!: enumerate_mem intro!: mem_snd [of _ _ arms "\<lambda>_. 0"] simp del: One_nat_def\<close>)
  qed
  then show ?case
    unfolding k_def by (rule action_ok_ends)
qed

end
