(* ===== verification/Cp_Program.thy ===== *)
theory Cp_Program
  imports Cp_Balanced "HOL-Library.While_Combinator"
begin

text \<open>
  \<open>compile_program\<close> of \<open>crates/lex-bytecode/src/compiler/mod.rs\<close>: the tables of names, the functions and
  the lambdas they leave behind, the allocation rewrites of \<open>lowering.rs\<close>, the superinstructions, the
  moving loads of \<open>liveness.rs\<close> and the body hashes.
\<close>

section \<open>Tables\<close>

definition import_module :: "string \<Rightarrow> string" where
  "import_module reference = (if take 4 reference = ''std.'' then drop 4 reference else reference)"

definition module_aliases_of :: "Stage list \<Rightarrow> (string \<times> string) list" where
  "module_aliases_of stages =
     fold (\<lambda>s m. case s of StImport i \<Rightarrow> imap_insert (im_alias i) (import_module (im_reference i)) m | _ \<Rightarrow> m) stages []"

definition function_of :: "FnDecl \<Rightarrow> Function" where
  "function_of fd =
     \<lparr>fn_name = fd_name fd, fn_arity = as_u16 (length (fd_params fd)), fn_locals_count = 0, fn_code = [],
      fn_effects = map (\<lambda>e. \<lparr>de_kind = eff_name e, de_arg = eff_arg e\<rparr>) (fd_effects fd),
      fn_body_hash = ZERO_BODY_HASH,
      fn_refinements =
        map (\<lambda>p. case snd p of TRefined base b predicate \<Rightarrow> Some \<lparr>rf_binding = b, rf_predicate = predicate\<rparr> | _ \<Rightarrow> None)
          (fd_params fd),
      fn_field_ic_sites = 0\<rparr>"

definition declare_functions :: "Stage list \<Rightarrow> (string \<times> nat) list \<times> Function list" where
  "declare_functions stages =
     fold (\<lambda>s (names, fns).
         case s of StFnDecl fd \<Rightarrow> (imap_insert (fd_name fd) (as_u32 (length fns)) names, fns @ [function_of fd])
         | _ \<Rightarrow> (names, fns))
       stages ([], [])"

definition type_aliases_of :: "Stage list \<Rightarrow> (string \<times> TypeExpr) list" where
  "type_aliases_of stages =
     fold (\<lambda>s m. case s of
         StTypeDecl td \<Rightarrow> if td_params td = [] then imap_insert (td_name td) (td_definition td) m else m
       | _ \<Rightarrow> m) stages []"

section \<open>Function bodies\<close>

text \<open>A new \<open>FnCompiler\<close> shares the pool, the pending lambdas and the function table with the last one.\<close>

definition fresh :: "FnCompiler \<Rightarrow> FnCompiler" where
  "fresh s =
     s\<lparr>fc_code := [], fc_locals := [], fc_next_local := 0, fc_peak_local := 0, fc_local_types := [],
       fc_local_record_field_types := [], fc_field_get_sites := 0\<rparr>"

definition bind_slot :: "string \<Rightarrow> NumTy \<Rightarrow> FnCompiler \<Rightarrow> FnCompiler" where
  "bind_slot name t s =
     s\<lparr>fc_locals := imap_insert name (fc_next_local s) (fc_locals s),
       fc_local_types := imap_insert name t (fc_local_types s),
       fc_next_local := as_u16 (fc_next_local s + 1), fc_peak_local := as_u16 (fc_next_local s + 1)\<rparr>"

definition bind_param :: "(string \<times> TypeExpr) list \<Rightarrow> string \<times> TypeExpr \<Rightarrow> action" where
  "bind_param aliases p s =
     (case record_field_types (length aliases) aliases (snd p) of
        None \<Rightarrow> None
      | Some ftypes \<Rightarrow>
          let s = bind_slot (fst p) (classify_type_expr (snd p)) s in
          Some (case ftypes of
             Some m \<Rightarrow> s\<lparr>fc_local_record_field_types := imap_insert (fst p) m (fc_local_record_field_types s)\<rparr>
           | None \<Rightarrow> s))"

text \<open>\<open>p.functions[idx].code = code\<close> and the two counts that go with it.\<close>

definition set_body :: "nat \<Rightarrow> action" where
  "set_body idx s =
     (case nth_opt (fc_functions s) idx of
        None \<Rightarrow> None
      | Some f \<Rightarrow>
          Some (s\<lparr>fc_functions := (fc_functions s)[idx :=
            f\<lparr>fn_code := fc_code s, fn_field_ic_sites := as_u16 (fc_field_get_sites s),
              fn_locals_count := fc_peak_local s\<rparr>]\<rparr>))"

definition compile_fn :: "CompileEnv \<Rightarrow> (string \<times> TypeExpr) list \<Rightarrow> FnDecl \<Rightarrow> action" where
  "compile_fn E aliases fd s =
     do { s \<leftarrow> run_all (map (bind_param aliases) (fd_params fd)) (fresh s);
          s \<leftarrow> compile_expr E (child (Some ''n_0'') (length (fd_params fd) + 1)) (fd_body fd) True s;
          idx \<leftarrow> map_of (ce_function_names E) (fd_name fd);
          set_body idx (emits [Return] s) }"

definition compile_pending :: "CompileEnv \<Rightarrow> PendingLambda \<Rightarrow> action" where
  "compile_pending E pl s =
     do { let s = fold (\<lambda>name. bind_slot name NumUnknown) (pl_capture_names pl) (fresh s);
          let s = fold (\<lambda>p. bind_slot (fst p) (classify_type_expr (snd p))) (pl_params pl) s;
          s \<leftarrow> compile_expr E None (pl_body pl) True s;
          set_body (pl_fn_id pl) (emits [Return] s) }"

definition compile_fns :: "CompileEnv \<Rightarrow> (string \<times> TypeExpr) list \<Rightarrow> Stage list \<Rightarrow> action" where
  "compile_fns E aliases stages =
     run_all (map (\<lambda>s. case s of StFnDecl fd \<Rightarrow> compile_fn E aliases fd | _ \<Rightarrow> Some) stages)"

text \<open>\<open>while let Some(pl) = pending_lambdas.pop()\<close>: a lambda leaves only smaller lambdas behind.\<close>

lemma fresh_bound:
  "fc_pending_lambdas (fold (\<lambda>x. bind_slot (f x) (g x)) xs s) = fc_pending_lambdas s"
  "fc_functions (fold (\<lambda>x. bind_slot (f x) (g x)) xs s) = fc_functions s"
  "fc_code (fold (\<lambda>x. bind_slot (f x) (g x)) xs s) = fc_code s"
  by (induction xs arbitrary: s) (simp_all add: bind_slot_def)

lemma set_body_tables:
  "set_body idx s = Some s' \<Longrightarrow> fc_pending_lambdas s' = fc_pending_lambdas s"
  by (auto simp: set_body_def split: option.splits)

lemma compile_pending_smaller:
  assumes "compile_pending E pl s = Some s'"
  obtains new where "fc_pending_lambdas s' = new @ fc_pending_lambdas s"
    "\<forall>p \<in> set new. size (pl_body p) < size (pl_body pl)"
proof -
  obtain s1 s2 where s2: "compile_expr E None (pl_body pl) True s1 = Some s2"
    and eqs: "fc_pending_lambdas s1 = fc_pending_lambdas s" "fc_pending_lambdas s' = fc_pending_lambdas s2"
    using assms set_body_tables by (auto simp: compile_pending_def bind_eq_Some_conv Let_def fresh_bound fresh_def)
  have "grown None (size (pl_body pl)) s1 s2"
    using compile_expr_ok [of E "pl_body pl" None] s2 by (auto simp: action_ok_def reach_def)
  then show ?thesis
    using that eqs by (auto simp: grown_def)
qed

function compile_lambdas :: "CompileEnv \<Rightarrow> action" where
  "compile_lambdas E s =
     (case fc_pending_lambdas s of
        [] \<Rightarrow> Some s
      | pl # rest \<Rightarrow>
          (case compile_pending E pl (s\<lparr>fc_pending_lambdas := rest\<rparr>) of
             None \<Rightarrow> None
           | Some s \<Rightarrow> compile_lambdas E s))"
  by pat_completeness auto

termination
proof (relation "inv_image (mult less_than) (\<lambda>(E, s). mset (map (\<lambda>pl. size (pl_body pl)) (fc_pending_lambdas s)))")
  show "wf (inv_image (mult less_than) (\<lambda>(E, s). mset (map (\<lambda>pl. size (pl_body pl)) (fc_pending_lambdas s))))"
    by (intro wf_inv_image wf_mult) simp
  fix E s pl rest s' assume s: "fc_pending_lambdas s = pl # rest"
    and "compile_pending E pl (s\<lparr>fc_pending_lambdas := rest\<rparr>) = Some s'"
  then obtain new where new: "fc_pending_lambdas s' = new @ rest" "\<forall>p \<in> set new. size (pl_body p) < size (pl_body pl)"
    by (auto elim!: compile_pending_smaller)
  let ?m = "\<lambda>xs. mset (map (\<lambda>pl. size (pl_body pl)) xs)"
  have "(?m rest + ?m new, ?m rest + {#size (pl_body pl)#}) \<in> mult less_than"
    using new(2) by (intro one_step_implies_mult) auto
  then show "((E, s'), (E, s)) \<in> inv_image (mult less_than) (\<lambda>(E, s). mset (map (\<lambda>pl. size (pl_body pl)) (fc_pending_lambdas s)))"
    using s new(1) by (simp add: add.commute)
qed

declare compile_lambdas.simps [simp del]

section \<open>Allocation rewrites\<close>

definition lower_at :: "(nat \<Rightarrow> Op \<Rightarrow> Op) \<Rightarrow> Op list \<Rightarrow> Op list" where
  "lower_at f code = map (\<lambda>(pc, op'). f pc op') (enumerate 0 code)"

definition apply_escape_lowering :: "string \<Rightarrow> (string \<times> nat \<Rightarrow> bool option) \<Rightarrow> Op list \<Rightarrow> Op list" where
  "apply_escape_lowering fn_name' index =
     lower_at (\<lambda>pc op'.
       if index (fn_name', as_u32 pc) = Some False then
         (case op' of MakeRecord i n \<Rightarrow> AllocStackRecord i n | MakeTuple n \<Rightarrow> AllocStackTuple n | _ \<Rightarrow> op')
       else op')"

definition apply_arena_lowering :: "string \<Rightarrow> (string \<times> nat \<Rightarrow> bool option) \<Rightarrow> Op list \<Rightarrow> Op list" where
  "apply_arena_lowering fn_name' index =
     lower_at (\<lambda>pc op'.
       if index (fn_name', as_u32 pc) = Some True then
         (case op' of MakeRecord i n \<Rightarrow> AllocArenaRecord i n | MakeTuple n \<Rightarrow> AllocArenaTuple n | _ \<Rightarrow> op')
       else op')"

section \<open>Moving loads\<close>

definition slot_reads :: "Op \<Rightarrow> nat list" where
  "slot_reads op' =
     (case op' of
        LoadLocal i \<Rightarrow> [i] | TakeLocal i \<Rightarrow> [i]
      | Fused f \<Rightarrow>
          (case f of
             LoadLocalAddIntConst l _ \<Rightarrow> [l] | LoadLocalEqIntConstJumpIfNot l _ _ \<Rightarrow> [l]
           | LoadLocalGetFieldAdd l _ _ \<Rightarrow> [l] | LoadLocalGetFieldSub l _ _ \<Rightarrow> [l]
           | LoadLocalGetFieldMul l _ _ \<Rightarrow> [l] | LoadLocalGetField l _ _ \<Rightarrow> [l]
           | LoadLocalAddIntConstStoreLocal l _ _ \<Rightarrow> [l] | LoadLocalStoreEqIntConstJumpIfNot l _ _ _ \<Rightarrow> [l]
           | LoadLocalAddLocal l r \<Rightarrow> [l, r] | LoadLocalSubLocal l r \<Rightarrow> [l, r] | LoadLocalMulLocal l r \<Rightarrow> [l, r])
      | _ \<Rightarrow> [])"

definition slot_writes :: "Op \<Rightarrow> nat option" where
  "slot_writes op' =
     (case op' of
        StoreLocal i \<Rightarrow> Some i
      | Fused (LoadLocalAddIntConstStoreLocal _ _ d) \<Rightarrow> Some d
      | Fused (LoadLocalStoreEqIntConstJumpIfNot _ d _ _) \<Rightarrow> Some d
      | _ \<Rightarrow> None)"

text \<open>Targets are computed in 64 bits, which 32-bit offsets do not leave.\<close>

definition live_succs :: "nat \<Rightarrow> nat \<Rightarrow> Op \<Rightarrow> nat list" where
  "live_succs n pc op' =
     (let at = (\<lambda>base off. let t = int base + off in if 0 \<le> t \<and> nat t < n then [nat t] else []);
          nxt = (if pc + 1 < n then [pc + 1] else [])
      in case op' of
        Jump off \<Rightarrow> at (pc + 1) off
      | JumpIf off \<Rightarrow> nxt @ at (pc + 1) off
      | JumpIfNot off \<Rightarrow> nxt @ at (pc + 1) off
      | Fused (LoadLocalEqIntConstJumpIfNot _ _ off) \<Rightarrow> nxt @ at (pc + 4) off
      | Fused (LoadLocalStoreEqIntConstJumpIfNot _ _ _ off) \<Rightarrow> nxt @ at (pc + 6) off
      | Return \<Rightarrow> [] | Panic _ \<Rightarrow> [] | TailCall _ _ _ \<Rightarrow> []
      | _ \<Rightarrow> nxt)"

text \<open>
  The vectors of flags per slot are sets of slots. One instruction of one round, a round from the
  last instruction to the first, and rounds until nothing changes.
\<close>

type_synonym live_state = "nat set list \<times> nat set list \<times> bool"

definition flow_out :: "Op list \<Rightarrow> nat set list \<Rightarrow> nat \<Rightarrow> nat set" where
  "flow_out code ins pc = (\<Union>s \<in> set (live_succs (length code) pc (code ! pc)). ins ! s)"

definition flow_in :: "Op \<Rightarrow> nat set \<Rightarrow> nat set" where
  "flow_in op' out = (case slot_writes op' of Some w \<Rightarrow> out - {w} | None \<Rightarrow> out) \<union> set (slot_reads op')"

definition live_at :: "Op list \<Rightarrow> nat \<Rightarrow> live_state \<Rightarrow> live_state" where
  "live_at code pc st =
     (let (ins, outs, changed) = st;
          out = flow_out code ins pc;
          inn = flow_in (code ! pc) out
      in if out \<noteq> outs ! pc \<or> inn \<noteq> ins ! pc then (ins[pc := inn], outs[pc := out], True) else (ins, outs, changed))"

definition live_round :: "Op list \<Rightarrow> live_state \<Rightarrow> live_state" where
  "live_round code st = fold (live_at code) (rev [0..<length code]) (fst st, fst (snd st), False)"

definition liveness :: "Op list \<Rightarrow> live_state option" where
  "liveness code =
     while_option (\<lambda>st. snd (snd st)) (live_round code)
       (replicate (length code) {}, replicate (length code) {}, True)"

text \<open>The instructions a superinstruction has replaced stay behind it and are not touched.\<close>

definition op_width :: "Op \<Rightarrow> nat" where
  "op_width op' =
     (case op' of
        Fused f \<Rightarrow>
          (case f of
             LoadLocalGetField _ _ _ \<Rightarrow> 2
           | LoadLocalAddIntConstStoreLocal _ _ _ \<Rightarrow> 4 | LoadLocalEqIntConstJumpIfNot _ _ _ \<Rightarrow> 4
           | LoadLocalStoreEqIntConstJumpIfNot _ _ _ _ \<Rightarrow> 6
           | _ \<Rightarrow> 3)
      | _ \<Rightarrow> 1)"

definition tombstone :: "Op list \<Rightarrow> nat \<Rightarrow> bool" where
  "tombstone code pc = list_ex (\<lambda>k. pc < k + op_width (code ! k)) [0..<pc]"

definition take_dead :: "Op list \<Rightarrow> nat set list \<Rightarrow> Op list" where
  "take_dead code outs =
     lower_at (\<lambda>pc op'.
       if tombstone code pc then op'
       else (case op' of LoadLocal i \<Rightarrow> if i \<in> outs ! pc then op' else TakeLocal i | _ \<Rightarrow> op')) code"

definition apply_last_load_takes :: "Op list \<Rightarrow> Op list option" where
  "apply_last_load_takes code = map_option (\<lambda>st. take_dead code (fst (snd st))) (liveness code)"

section \<open>Programs\<close>

definition env_of :: "CompileEnv \<Rightarrow> Stage list \<Rightarrow> CompileEnv" where
  "env_of E stages =
     E\<lparr>ce_function_names := fst (declare_functions stages), ce_module_aliases := module_aliases_of stages\<rparr>"

definition compile_start :: "Stage list \<Rightarrow> FnCompiler" where
  "compile_start stages =
     \<lparr>fc_code = [], fc_locals = [], fc_next_local = 0, fc_peak_local = 0, fc_local_types = [],
      fc_local_record_field_types = [], fc_field_get_sites = 0, fc_pool = pool_default,
      fc_pending_lambdas = [], fc_functions = snd (declare_functions stages)\<rparr>"

text \<open>The bodies of all functions and lambdas.\<close>

definition compile_bodies :: "CompileEnv \<Rightarrow> Stage list \<Rightarrow> FnCompiler option" where
  "compile_bodies E stages =
     Option.bind (compile_fns (env_of E stages) (type_aliases_of stages) stages (compile_start stages))
       (compile_lambdas (env_of E stages))"

definition on_code :: "(Function \<Rightarrow> Op list \<Rightarrow> Op list) \<Rightarrow> Function list \<Rightarrow> Function list" where
  "on_code g = map (\<lambda>f. f\<lparr>fn_code := g f (fn_code f)\<rparr>)"

text \<open>The allocation rewrites and the peephole passes.\<close>

definition lower_functions :: "CompileEnv \<Rightarrow> Const list \<Rightarrow> Function list \<Rightarrow> Function list" where
  "lower_functions E constants fns =
     (let fns = (if ce_no_stack_records E then fns
                 else on_code (\<lambda>f. apply_escape_lowering (fn_name f) (ce_escape_index E fns)) fns);
          fns = (if ce_no_arena_records E then fns
                 else on_code (\<lambda>f. apply_arena_lowering (fn_name f) (ce_arena_index E fns)) fns)
      in on_code (\<lambda>f. peephole_code constants) fns)"

definition take_functions :: "CompileEnv \<Rightarrow> Function list \<Rightarrow> Function list option" where
  "take_functions E fns =
     (if ce_no_take_locals E then Some fns
      else seq_all (map (\<lambda>f. map_option (\<lambda>c. f\<lparr>fn_code := c\<rparr>) (apply_last_load_takes (fn_code f))) fns))"

definition stamp_function :: "CompileEnv \<Rightarrow> nat list list \<Rightarrow> Function \<Rightarrow> Function option" where
  "stamp_function E shapes f =
     (if fn_body_hash f = ZERO_BODY_HASH then
        map_option (\<lambda>h. f\<lparr>fn_body_hash := h\<rparr>)
          (compute_body_hash E (fn_arity f) (fn_locals_count f) (fn_code f) shapes)
      else Some f)"

definition compile_program :: "CompileEnv \<Rightarrow> Stage list \<Rightarrow> Program option" where
  "compile_program E stages =
     do { s \<leftarrow> compile_bodies E stages;
          let constants = cp_pool (fc_pool s);
          let shapes = cp_record_shapes (fc_pool s);
          fns \<leftarrow> take_functions E (lower_functions E constants (fc_functions s));
          fns \<leftarrow> seq_all (map (stamp_function E shapes) fns);
          Some \<lparr>pg_constants = constants, pg_functions = fns, pg_function_names = fst (declare_functions stages),
                pg_module_aliases = module_aliases_of stages, pg_entry = None, pg_record_shapes = shapes\<rparr> }"

end
