(* ===== verification/Cp_Correct.thy ===== *)
theory Cp_Correct
  imports Cp_Program Bc_VmSafe Bc_PeepholeSim
begin

text \<open>
  Compiled programs: the analysis behind the moving loads reaches its fixed point, the passes over
  finished code keep its stack depths and its digest, and every function of a compiled program is
  balanced.
\<close>

section \<open>The liveness analysis\<close>

definition live_slots :: "Op list \<Rightarrow> nat set" where
  "live_slots code = (\<Union>op' \<in> set code. set (slot_reads op'))"

definition live_inv :: "Op list \<Rightarrow> nat set list \<Rightarrow> nat set list \<Rightarrow> bool" where
  "live_inv code ins outs \<longleftrightarrow>
     length ins = length code \<and> length outs = length code \<and>
     (\<forall>pc < length code. ins ! pc \<subseteq> live_slots code \<and> outs ! pc \<subseteq> flow_out code ins pc \<and>
        ins ! pc \<subseteq> flow_in (code ! pc) (flow_out code ins pc))"

definition live_solved :: "Op list \<Rightarrow> nat set list \<Rightarrow> nat set list \<Rightarrow> nat \<Rightarrow> bool" where
  "live_solved code ins outs pc \<longleftrightarrow> outs ! pc = flow_out code ins pc \<and> ins ! pc = flow_in (code ! pc) (outs ! pc)"

lemma live_succs_less: "s \<in> set (live_succs n pc op') \<Longrightarrow> s < n"
  by (cases op') (auto simp: live_succs_def Let_def split: if_splits FusedOp.splits)

lemma flow_out_mono:
  assumes "\<And>i. i < length code \<Longrightarrow> ins ! i \<subseteq> ins' ! i"
  shows "flow_out code ins pc \<subseteq> flow_out code ins' pc"
  unfolding flow_out_def by (rule UN_mono [OF order_refl]) (use assms live_succs_less in blast)

lemma flow_in_mono: "out \<subseteq> out' \<Longrightarrow> flow_in op' out \<subseteq> flow_in op' out'"
  by (auto simp: flow_in_def split: option.splits)

lemma flow_inside:
  assumes "live_inv code ins outs" "pc < length code"
  shows "flow_out code ins pc \<subseteq> live_slots code" "flow_in (code ! pc) (flow_out code ins pc) \<subseteq> live_slots code"
proof -
  show "flow_out code ins pc \<subseteq> live_slots code"
    unfolding flow_out_def by (rule UN_least) (use assms(1) live_succs_less in \<open>auto simp: live_inv_def\<close>)
  moreover have "set (slot_reads (code ! pc)) \<subseteq> live_slots code"
    using assms(2) nth_mem by (auto simp: live_slots_def)
  ultimately show "flow_in (code ! pc) (flow_out code ins pc) \<subseteq> live_slots code"
    by (auto simp: flow_in_def split: option.splits)
qed

text \<open>One instruction only adds to the sets, and adds something when it reports a change.\<close>

definition live_measure :: "Op list \<Rightarrow> nat set list \<Rightarrow> nat set list \<Rightarrow> nat" where
  "live_measure code ins outs = (\<Sum>pc < length code. card (live_slots code - ins ! pc) + card (live_slots code - outs ! pc))"

lemma finite_live_slots: "finite (live_slots code)"
  by (simp add: live_slots_def)

lemma live_measure_update:
  assumes "pc < length code" "length ins = length code" "length outs = length code"
    and "ins ! pc \<subseteq> inn" "outs ! pc \<subseteq> out" "inn \<subseteq> live_slots code" "out \<subseteq> live_slots code"
    and "out \<noteq> outs ! pc \<or> inn \<noteq> ins ! pc"
  shows "live_measure code (ins[pc := inn]) (outs[pc := out]) < live_measure code ins outs"
proof -
  let ?U = "live_slots code"
  have le: "card (?U - inn) \<le> card (?U - ins ! pc)" "card (?U - out) \<le> card (?U - outs ! pc)"
    using assms finite_live_slots by (auto intro!: card_mono)
  have "card (?U - inn) < card (?U - ins ! pc)" if "inn \<noteq> ins ! pc"
    using that assms finite_live_slots by (intro psubset_card_mono) auto
  moreover have "card (?U - out) < card (?U - outs ! pc)" if "out \<noteq> outs ! pc"
    using that assms finite_live_slots by (intro psubset_card_mono) auto
  ultimately have here: "card (?U - inn) + card (?U - out) < card (?U - ins ! pc) + card (?U - outs ! pc)"
    using le assms(8) by (meson add_le_less_mono add_less_le_mono)
  show ?thesis
    unfolding live_measure_def
    by (rule sum_strict_mono_ex1) (use assms(1-3) here le in \<open>auto simp: nth_list_update intro!: bexI [of _ pc]\<close>)
qed

lemma live_at_step:
  assumes "live_inv code ins outs" "pc < length code" "live_at code pc (ins, outs, c) = (ins', outs', c')"
  shows "live_inv code ins' outs'"
    and "if c' = c \<and> ins' = ins \<and> outs' = outs then live_solved code ins outs pc
         else c' \<and> live_measure code ins' outs' < live_measure code ins outs"
proof -
  let ?out = "flow_out code ins pc" and ?inn = "flow_in (code ! pc) (flow_out code ins pc)"
  have len: "length ins = length code" "length outs = length code"
    and old: "\<And>i. i < length code \<Longrightarrow> ins ! i \<subseteq> live_slots code \<and> outs ! i \<subseteq> flow_out code ins i \<and>
        ins ! i \<subseteq> flow_in (code ! i) (flow_out code ins i)"
    using assms(1) by (auto simp: live_inv_def)
  note inside = flow_inside [OF assms(1,2)]
  have grow: "ins ! i \<subseteq> ins[pc := ?inn] ! i" if "i < length code" for i
    using old [OF that] len that by (cases "i = pc") auto
  have "live_inv code (ins[pc := ?inn]) (outs[pc := ?out])"
    unfolding live_inv_def
  proof (intro conjI allI impI)
    fix i assume i: "i < length code"
    have up: "flow_out code ins i \<subseteq> flow_out code (ins[pc := ?inn]) i"
      by (rule flow_out_mono) (rule grow)
    show "ins[pc := ?inn] ! i \<subseteq> live_slots code"
      using old [OF i] inside len i by (cases "i = pc") auto
    show "outs[pc := ?out] ! i \<subseteq> flow_out code (ins[pc := ?inn]) i"
      using old [OF i] up len i by (cases "i = pc") auto
    show "ins[pc := ?inn] ! i \<subseteq> flow_in (code ! i) (flow_out code (ins[pc := ?inn]) i)"
      using old [OF i] flow_in_mono [OF up, of "code ! i"] len i by (cases "i = pc") auto
  qed (use len in simp_all)
  then show "live_inv code ins' outs'"
    using assms(1,3) by (auto simp: live_at_def Let_def split: if_splits)
  have less: "live_measure code (ins[pc := ?inn]) (outs[pc := ?out]) < live_measure code ins outs"
    if "?out \<noteq> outs ! pc \<or> ?inn \<noteq> ins ! pc"
    using that old [OF assms(2)] by (intro live_measure_update assms(2) len inside) auto
  show "if c' = c \<and> ins' = ins \<and> outs' = outs then live_solved code ins outs pc
         else c' \<and> live_measure code ins' outs' < live_measure code ins outs"
    using assms(3) less by (auto simp: live_at_def Let_def live_solved_def split: if_splits)
qed

lemma live_fold:
  assumes "live_inv code ins outs" "\<forall>pc \<in> set pcs. pc < length code"
    and "fold (live_at code) pcs (ins, outs, c) = (ins', outs', c')"
  shows "live_inv code ins' outs' \<and> live_measure code ins' outs' \<le> live_measure code ins outs \<and>
    (if c' then c \<or> live_measure code ins' outs' < live_measure code ins outs
     else \<not> c \<and> ins' = ins \<and> outs' = outs \<and> (\<forall>pc \<in> set pcs. live_solved code ins outs pc))"
  using assms
proof (induction pcs arbitrary: ins outs c)
  case (Cons pc pcs)
  obtain i o' d where st: "live_at code pc (ins, outs, c) = (i, o', d)"
    by (metis prod_cases3)
  have "pc < length code"
    using Cons.prems by simp
  note step = live_at_step [OF Cons.prems(1) this st]
  have "fold (live_at code) pcs (i, o', d) = (ins', outs', c')"
    using Cons.prems(3) st by simp
  from Cons.IH [OF step(1) _ this] step(2) Cons.prems(2) show ?case
    by (auto split: if_splits)
qed auto

lemma liveness_total:
  "\<exists>ins outs. liveness code = Some (ins, outs, False) \<and> live_inv code ins outs \<and>
     (\<forall>pc < length code. live_solved code ins outs pc)"
proof -
  let ?n = "length code"
  let ?P = "\<lambda>(ins, outs, c). live_inv code ins outs \<and> (c \<or> (\<forall>pc < ?n. live_solved code ins outs pc))"
  let ?f = "\<lambda>(ins, outs, c). live_measure code ins outs + (if c then 1 else 0)"
  let ?s = "(replicate ?n {}, replicate ?n {}, True) :: live_state"
  have start: "?P ?s"
    by (auto simp: live_inv_def)
  have round: "?P (live_round code st) \<and> ?f (live_round code st) < ?f st" if P: "?P st" and c: "snd (snd st)" for st
  proof -
    obtain ins outs where st: "st = (ins, outs, True)"
      using c by (cases st) auto
    obtain ins' outs' c' where r: "fold (live_at code) (rev [0..<?n]) (ins, outs, False) = (ins', outs', c')"
      by (metis prod_cases3)
    have "live_inv code ins outs"
      using P st by simp
    from live_fold [OF this _ r] show ?thesis
      using st r by (auto simp: live_round_def split: if_splits)
  qed
  obtain st where st: "liveness code = Some st"
  proof -
    have "\<exists>st. liveness code = Some st"
      unfolding liveness_def
      by (rule measure_while_option_Some [where P = ?P and f = ?f], erule (1) round, rule start)
    then show ?thesis
      using that by blast
  qed
  have "?P st"
    by (rule while_option_rule [where P = ?P, OF _ st [unfolded liveness_def] start]) (erule (1) round [THEN conjunct1])
  moreover have "\<not> snd (snd st)"
    using while_option_stop [OF st [unfolded liveness_def]] .
  ultimately show ?thesis
    using st by (cases st) auto
qed

lemma apply_last_load_takes_total: "\<exists>outs. apply_last_load_takes code = Some (take_dead code outs)"
  using liveness_total [of code] by (auto simp: apply_last_load_takes_def)

section \<open>The passes over finished code\<close>

definition same_shape :: "Op \<Rightarrow> Op \<Rightarrow> bool" where
  "same_shape a b \<longleftrightarrow> op_pops a = op_pops b \<and> op_pushes a = op_pushes b \<and> op_next a = op_next b \<and>
     ((\<exists>f. a = Fused f) \<longleftrightarrow> (\<exists>f. b = Fused f))"

lemma same_shape_stacked:
  assumes "list_all2 same_shape code code'" "well_stacked code ds"
  shows "well_stacked code' ds"
proof -
  have len: "length code' = length code"
    using assms(1) by (auto dest: list_all2_lengthD)
  have "op_pops (code' ! i) = op_pops (code ! i)" "op_pushes (code' ! i) = op_pushes (code ! i)"
    "op_next (code' ! i) = op_next (code ! i)" if "i < length code" for i
    using list_all2_nthD [OF assms(1) that] by (simp_all add: same_shape_def)
  then show ?thesis
    using assms(2) len by (auto simp: well_stacked_def cong: option.case_cong)
qed

lemma same_shape_plain: "list_all2 same_shape code code' \<Longrightarrow> plain_ops code \<longleftrightarrow> plain_ops code'"
  by (auto simp: plain_ops_nth list_all2_conv_all_nth same_shape_def)

lemma lower_at_all2:
  "(\<And>pc op'. R op' (f pc op')) \<Longrightarrow> list_all2 R code (lower_at f code)"
  by (auto simp: list_all2_conv_all_nth lower_at_def nth_enumerate_eq)

lemma same_shape_refl [simp]: "same_shape op' op'"
  by (simp add: same_shape_def)

lemma same_shape_pairs:
  "same_shape (MakeRecord i n) (AllocStackRecord i n)" "same_shape (MakeTuple n) (AllocStackTuple n)"
  "same_shape (MakeRecord i n) (AllocArenaRecord i n)" "same_shape (MakeTuple n) (AllocArenaTuple n)"
  "same_shape (LoadLocal i) (TakeLocal i)"
  by (simp_all add: same_shape_def op_pops_def op_pushes_def op_next_def fun_eq_iff)

lemma lowering_shape:
  "list_all2 same_shape code (apply_escape_lowering name idx code)"
  "list_all2 same_shape code (apply_arena_lowering name idx' code)"
  "list_all2 same_shape code (take_dead code outs)"
proof -
  show "list_all2 same_shape code (apply_escape_lowering name idx code)"
    unfolding apply_escape_lowering_def
    by (rule lower_at_all2, rename_tac pc op', case_tac op') (simp_all add: same_shape_pairs)
  show "list_all2 same_shape code (apply_arena_lowering name idx' code)"
    unfolding apply_arena_lowering_def
    by (rule lower_at_all2, rename_tac pc op', case_tac op') (simp_all add: same_shape_pairs)
  show "list_all2 same_shape code (take_dead code outs)"
    unfolding take_dead_def by (rule lower_at_all2, rename_tac pc op', case_tac op') (simp_all add: same_shape_pairs)
qed

text \<open>A superinstruction takes the depth through its whole window at once.\<close>

lemma well_stacked_step:
  assumes "well_stacked code ds" "pc < length code" "ds ! pc = Some d"
  shows "op_pops (code ! pc) \<le> d" and "pc' \<in> set (op_next (code ! pc) pc) \<Longrightarrow> pc' < length code"
    and "pc' \<in> set (op_next (code ! pc) pc) \<Longrightarrow> ds ! pc' = Some (d - op_pops (code ! pc) + op_pushes (code ! pc))"
  using assms by (force simp: well_stacked_def list_all_iff)+

definition straight_op :: "Op \<Rightarrow> bool" where
  "straight_op op' \<longleftrightarrow> op_next op' 0 = [1] \<and> jump_offset_of op' = None \<and> (\<forall>f. op' \<noteq> Fused f)"

lemma window_depth:
  assumes "well_stacked raw ds" "list_all straight_op ops"
    and "\<forall>i < length ops. k + i < length raw \<and> raw ! (k + i) = ops ! i" "ds ! k = Some d" "k < length raw"
  shows "\<exists>e. depth_after ops d = Some e \<and> ds ! (k + length ops) = Some e \<and> k + length ops < length raw"
  using assms
proof (induction ops arbitrary: k d)
  case (Cons op' ops)
  have op': "raw ! k = op'" "op_next op' k = [Suc k]" "op_next op' 0 = [1]" "jump_offset_of op' = None" "\<forall>f. op' \<noteq> Fused f"
    using Cons.prems(2) spec [OF Cons.prems(3), of 0] op_next_straight [of op' k] by (auto simp: straight_op_def)
  note step = well_stacked_step [OF assms(1) Cons.prems(5,4), unfolded op'(1,2)]
  have "\<exists>e. depth_after ops (d - op_pops op' + op_pushes op') = Some e \<and> ds ! (Suc k + length ops) = Some e \<and>
      Suc k + length ops < length raw"
    using Cons.prems(2,3) step by (intro Cons.IH assms(1)) auto
  then show ?case
    using step(1) op' by simp
qed simp

lemma stands_at_depths:
  assumes "stands_at cs f raw k" "well_stacked raw ds" "ds ! k = Some d"
  shows "fused_pops f \<le> d \<and>
    (\<forall>pc' \<in> set (fused_next f k). pc' < length raw \<and> ds ! pc' = Some (d - fused_pops f + fused_pushes f))"
proof -
  have at: "k + i < length raw \<and> raw ! (k + i) = expansion f ! i" if "i < length (expansion f)" for i
    using assms(1) that by (auto simp: stands_at_def)
  have k: "k < length raw"
    using at [of 0] expansion_not_nil [of f] by simp
  have window: "\<exists>e. depth_after ops d = Some e \<and> ds ! (k + length ops) = Some e \<and> k + length ops < length raw"
    if "list_all straight_op ops" "expansion f = ops @ rest" for ops rest
    using that at by (intro window_depth [OF assms(2) that(1) _ assms(3) k]) (auto simp: nth_append)
  have branch: "pc' < length raw \<and> ds ! pc' = Some e"
    if "expansion f = ops @ [JumpIfNot off]" "ds ! (k + length ops) = Some (Suc e)"
      "pc' \<in> {k + length ops + 1, jump_target (k + length ops + 1) off}" for ops off e pc'
    using well_stacked_step [OF assms(2) _ that(2)] at [of "length ops"] that(1,3)
    by (auto simp: op_pops_def op_pushes_def op_next_def)
  have straight: ?thesis
    if "list_all straight_op (expansion f)" "fused_next f k = [k + length (expansion f)]"
      "depth_after (expansion f) d = (if fused_pops f \<le> d then Some (d - fused_pops f + fused_pushes f) else None)"
    using window [of "expansion f" "[]"] that by (auto split: if_splits)
  have jumping: ?thesis
    if "expansion f = ops @ [JumpIfNot off]" "list_all straight_op ops" "depth_after ops d = Some (Suc d)"
      "fused_next f k = [k + length ops + 1, jump_target (k + length ops + 1) off]" "fused_pops f = 0" "fused_pushes f = 0"
    for ops off
    using window [OF that(2,1)] branch [OF that(1), of d] that(3-6) by auto
  note shapes = straight_op_def expansion_def fused_pops_def fused_pushes_def fused_next_def op_shape eval_nat_numeral
  show ?thesis
  proof (cases f)
    case (LoadLocalEqIntConstJumpIfNot l c off)
    then show ?thesis
      by (intro jumping [of "[LoadLocal l, PushConst c, Prim IntEq]" off]) (simp_all add: shapes)
  next
    case (LoadLocalStoreEqIntConstJumpIfNot l r c off)
    then show ?thesis
      by (intro jumping [of "[LoadLocal l, StoreLocal r, LoadLocal r, PushConst c, Prim IntEq]" off]) (simp_all add: shapes)
  qed (rule straight; simp add: shapes)+
qed

lemma fused_stacked:
  assumes "fused_from cs raw code" "well_stacked raw ds"
  shows "well_stacked code ds"
proof -
  have len: "length code = length raw"
    using assms(1) by (simp add: fused_from_def)
  have "case ds ! k of None \<Rightarrow> True | Some d \<Rightarrow> op_pops (code ! k) \<le> d \<and>
      list_all (\<lambda>t. t < length code \<and> ds ! t = Some (d - op_pops (code ! k) + op_pushes (code ! k))) (op_next (code ! k) k)"
    if "k < length raw" for k
  proof (cases "code ! k = raw ! k")
    case True
    then show ?thesis
      unfolding True len using assms(2) that by (simp add: well_stacked_def)
  next
    case False
    have "code ! k = raw ! k \<or> (\<exists>f. code ! k = Fused f \<and> stands_at cs f raw k)"
      using assms(1) that by (simp add: fused_from_def)
    then obtain f where "code ! k = Fused f" "stands_at cs f raw k"
      using False by auto
    then show ?thesis
      using stands_at_depths [OF _ assms(2)] len by (auto simp: op_pops_def op_pushes_def op_next_def list_all_iff split: option.split)
  qed
  then show ?thesis
    using assms(2) len by (auto simp: well_stacked_def)
qed

text \<open>The digest sees the plain form of every instruction.\<close>

lemma hash_form_lowering:
  "map (hash_form shapes) (apply_escape_lowering name idx code) = map (hash_form shapes) code"
  "map (hash_form shapes) (apply_arena_lowering name idx' code) = map (hash_form shapes) code"
  "map (hash_form shapes) (take_dead code outs) = map (hash_form shapes) code"
proof -
  have *: "map (hash_form shapes) (lower_at f code) = map (hash_form shapes) code"
    if "\<And>pc op'. hash_form shapes (f pc op') = hash_form shapes op'" for f
    using that by (auto intro!: nth_equalityI simp: lower_at_def nth_enumerate_eq)
  show "map (hash_form shapes) (apply_escape_lowering name idx code) = map (hash_form shapes) code"
    unfolding apply_escape_lowering_def by (rule *, rename_tac pc op', case_tac op') (simp_all add: hash_form_def)
  show "map (hash_form shapes) (apply_arena_lowering name idx' code) = map (hash_form shapes) code"
    unfolding apply_arena_lowering_def by (rule *, rename_tac pc op', case_tac op') (simp_all add: hash_form_def)
  show "map (hash_form shapes) (take_dead code outs) = map (hash_form shapes) code"
    unfolding take_dead_def by (rule *, rename_tac pc op', case_tac op') (simp_all add: hash_form_def)
qed

lemma hash_form_fused:
  assumes "fused_from cs raw code"
  shows "map (hash_form shapes) code = map (hash_form shapes) raw"
proof (rule nth_equalityI)
  fix k assume "k < length (map (hash_form shapes) code)"
  then have k: "k < length raw" "k < length code"
    using assms by (simp_all add: fused_from_def)
  have "hash_form shapes (Fused f) = hash_form shapes (raw ! k)" if "stands_at cs f raw k" for f
  proof -
    have "raw ! k = expansion f ! 0"
      using that expansion_not_nil [of f] by (auto simp: stands_at_def)
    then show ?thesis
      by (cases f) (simp_all add: hash_form_def expansion_def)
  qed
  then show "map (hash_form shapes) code ! k = map (hash_form shapes) raw ! k"
    using assms k by (auto simp: fused_from_def)
qed (use assms in \<open>simp add: fused_from_def\<close>)

section \<open>Compiled bodies\<close>

text \<open>
  A finished body is balanced unless it is too long for its jumps. Every other function of the table
  waits: as a declaration not yet reached, or for its lambda to be taken off the queue.
\<close>

definition fine :: "Function \<Rightarrow> bool" where
  "fine f \<longleftrightarrow> (length (fn_code f) < 2 ^ 16 \<longrightarrow> balanced_code (fn_code f))"

definition bodies_inv :: "CompileEnv \<Rightarrow> nat set \<Rightarrow> FnCompiler \<Rightarrow> bool" where
  "bodies_inv E W s \<longleftrightarrow>
     (\<forall>pl \<in> set (fc_pending_lambdas s). no_iter_next E (pl_body pl)) \<and>
     (\<forall>i < length (fc_functions s). fine (fc_functions s ! i) \<or> i \<in> W \<or> (\<exists>pl \<in> set (fc_pending_lambdas s). pl_fn_id pl = i))"

lemma grown_functions:
  assumes "grown M k s s'"
  shows "length (fc_functions s) \<le> length (fc_functions s')"
  using assms by (auto simp: grown_def)

lemma bodies_grown:
  assumes "bodies_inv E W s" "grown (Some E) k s s'" "length (fc_functions s') < 2 ^ 32"
  shows "bodies_inv E W s'"
proof -
  obtain new fns where s': "fc_pending_lambdas s' = new @ fc_pending_lambdas s" "fc_functions s' = fc_functions s @ fns"
    "\<forall>pl \<in> set new. no_iter_next E (pl_body pl)"
    "\<forall>i < length fns. balanced_code (fn_code (fns ! i)) \<or> (\<exists>pl \<in> set new. pl_fn_id pl = as_u32 (length (fc_functions s) + i))"
    using assms(2) by (auto simp: grown_def)
  have "fine (fc_functions s' ! i) \<or> i \<in> W \<or> (\<exists>pl \<in> set (fc_pending_lambdas s'). pl_fn_id pl = i)"
    if "i < length (fc_functions s')" for i
  proof (cases "i < length (fc_functions s)")
    case True
    then show ?thesis
      using assms(1) s' by (auto simp: bodies_inv_def nth_append)
  next
    case False
    have "as_u32 i = i" "i - length (fc_functions s) < length fns"
      using that assms(3) s'(2) False by (simp_all add: as_u32_def less_diff_conv2)
    then show ?thesis
      using s'(4) [rule_format, of "i - length (fc_functions s)"] s'(1,2) that False by (auto simp: nth_append fine_def)
  qed
  then show ?thesis
    using assms(1) s'(1,3) by (auto simp: bodies_inv_def)
qed

lemma body_compiled:
  assumes "compile_expr E nid e True s = Some s1" "fc_code s = []" "no_iter_next E e"
    and "set_body idx (emits [Return] s1) = Some s2" "bodies_inv E W s" "length (fc_functions s2) < 2 ^ 32"
  shows "bodies_inv E (W - {idx}) s2"
proof -
  have reach: "reach (Some E) (size e) 0 1 s s1"
    using compile_expr_ok [of E e "Some E"] assms(1,3) by (force simp: action_ok_def)
  have fns: "fc_functions s2 = (fc_functions s1)[idx := fc_functions s2 ! idx]" "idx < length (fc_functions s1)"
    "fn_code (fc_functions s2 ! idx) = fc_code s1 @ [Return]" "fc_pending_lambdas s2 = fc_pending_lambdas s1"
    using assms(4) by (auto simp: set_body_def nth_opt_def split: option.splits if_splits)
  have len: "length (fc_functions s2) = length (fc_functions s1)"
    using arg_cong [OF fns(1), of length] by simp
  have inv: "bodies_inv E W s1"
    using bodies_grown [OF assms(5)] reach assms(6) len by (auto simp: reach_def)
  have "fine (fc_functions s2 ! idx)"
    using reach assms(2) fns(3) by (auto simp: fine_def reach_def intro!: runs_return_balanced)
  moreover have "fc_functions s2 ! i = fc_functions s1 ! i" if "i \<noteq> idx" for i
    using fns(1) that by (metis nth_list_update_neq)
  ultimately have "fine (fc_functions s2 ! i) \<or> i \<in> W - {idx} \<or> (\<exists>pl \<in> set (fc_pending_lambdas s2). pl_fn_id pl = i)"
    if "i < length (fc_functions s2)" for i
    using inv that len fns(4) by (cases "i = idx") (auto simp: bodies_inv_def)
  then show ?thesis
    using inv fns(4) by (auto simp: bodies_inv_def)
qed

lemma bind_params_tables:
  "run_all (map (bind_param aliases) ps) s = Some s' \<Longrightarrow>
   fc_functions s' = fc_functions s \<and> fc_pending_lambdas s' = fc_pending_lambdas s \<and> fc_code s' = fc_code s"
proof (induction ps arbitrary: s)
  case (Cons p ps)
  then obtain s1 where "bind_param aliases p s = Some s1" "run_all (map (bind_param aliases) ps) s1 = Some s'"
    by (auto simp: bind_eq_Some_conv)
  moreover from this(1) have "fc_functions s1 = fc_functions s \<and> fc_pending_lambdas s1 = fc_pending_lambdas s \<and> fc_code s1 = fc_code s"
    by (auto simp: bind_param_def bind_slot_def Let_def split: option.splits)
  ultimately show ?case
    using Cons.IH [of s1] by simp
qed simp

lemma bodies_inv_cong:
  "fc_functions s' = fc_functions s \<Longrightarrow> fc_pending_lambdas s' = fc_pending_lambdas s \<Longrightarrow>
   bodies_inv E W s' \<longleftrightarrow> bodies_inv E W s"
  by (simp add: bodies_inv_def)

text \<open>The function table never shrinks.\<close>

lemma body_grows:
  assumes "compile_expr E nid e tail s = Some s1" "set_body idx (emits [Return] s1) = Some s2"
  shows "length (fc_functions s) \<le> length (fc_functions s2)"
proof -
  have "grown None (size e) s s1"
    using compile_expr_ok [of E e None] assms(1) by (force simp: action_ok_def reach_def)
  then show ?thesis
    using grown_functions assms(2) by (fastforce simp: set_body_def split: option.splits)
qed

lemma compile_fn_parts:
  assumes "compile_fn E aliases fd s = Some s'"
  obtains s1 s2 idx where "fc_functions s1 = fc_functions s" "fc_pending_lambdas s1 = fc_pending_lambdas s" "fc_code s1 = []"
    "compile_expr E (child (Some ''n_0'') (length (fd_params fd) + 1)) (fd_body fd) True s1 = Some s2"
    "map_of (ce_function_names E) (fd_name fd) = Some idx" "set_body idx (emits [Return] s2) = Some s'"
proof -
  obtain s1 s2 idx where s1: "run_all (map (bind_param aliases) (fd_params fd)) (fresh s) = Some s1"
    and s2: "compile_expr E (child (Some ''n_0'') (length (fd_params fd) + 1)) (fd_body fd) True s1 = Some s2"
    and s': "map_of (ce_function_names E) (fd_name fd) = Some idx" "set_body idx (emits [Return] s2) = Some s'"
    using assms by (auto simp: compile_fn_def bind_eq_Some_conv)
  show ?thesis
    by (rule that [OF _ _ _ s2 s']) (use bind_params_tables [OF s1] in \<open>simp_all add: fresh_def\<close>)
qed

lemma compile_pending_parts:
  assumes "compile_pending E pl s = Some s'"
  obtains s1 s2 where "fc_functions s1 = fc_functions s" "fc_pending_lambdas s1 = fc_pending_lambdas s" "fc_code s1 = []"
    "compile_expr E None (pl_body pl) True s1 = Some s2" "set_body (pl_fn_id pl) (emits [Return] s2) = Some s'"
proof -
  let ?s = "fold (\<lambda>p. bind_slot (fst p) (classify_type_expr (snd p))) (pl_params pl)
    (fold (\<lambda>name. bind_slot name NumUnknown) (pl_capture_names pl) (fresh s))"
  obtain s2 where s2: "compile_expr E None (pl_body pl) True ?s = Some s2" "set_body (pl_fn_id pl) (emits [Return] s2) = Some s'"
    using assms by (auto simp: compile_pending_def bind_eq_Some_conv Let_def)
  show ?thesis
    by (rule that [OF _ _ _ s2]) (simp_all add: fresh_bound fresh_def)
qed

lemma compile_fns_Cons:
  "compile_fns E aliases (st # stages) s =
     (case st of StFnDecl fd \<Rightarrow> Option.bind (compile_fn E aliases fd s) (compile_fns E aliases stages)
      | _ \<Rightarrow> compile_fns E aliases stages s)"
  by (cases st) (simp_all add: compile_fns_def)

lemma compile_fns_grows:
  "compile_fns E aliases stages s = Some s' \<Longrightarrow> length (fc_functions s) \<le> length (fc_functions s')"
proof (induction stages arbitrary: s)
  case (Cons st stages)
  have "length (fc_functions s) \<le> length (fc_functions s1)" if "compile_fn E aliases fd s = Some s1" for fd s1
    using that by (rule compile_fn_parts) (metis body_grows)
  then show ?case
    using Cons by (force simp: compile_fns_Cons bind_eq_Some_conv split: Stage.splits)
qed (simp add: compile_fns_def)

lemma compile_lambdas_grows:
  "compile_lambdas E s = Some s' \<Longrightarrow> length (fc_functions s) \<le> length (fc_functions s')"
proof (induction E s rule: compile_lambdas.induct)
  case (1 E s)
  have "length (fc_functions s) \<le> length (fc_functions s1)"
    if "compile_pending E pl (s\<lparr>fc_pending_lambdas := rest\<rparr>) = Some s1" for pl rest s1
    using that by (rule compile_pending_parts) (metis body_grows FnCompiler.select_convs(10) FnCompiler.surjective FnCompiler.update_convs(9))
  then show ?case
    using 1 by (subst (asm) compile_lambdas.simps) (force split: list.splits option.splits)
qed

text \<open>Every declared function is finished after the first loop, every lambda after the second.\<close>

lemma compile_fn_inv:
  assumes "compile_fn E aliases fd s = Some s'" "bodies_inv E W s" "no_iter_next E (fd_body fd)"
    and "length (fc_functions s') < 2 ^ 32" "map_of (ce_function_names E) (fd_name fd) = Some idx"
  shows "bodies_inv E (W - {idx}) s'"
  using assms(1)
proof (rule compile_fn_parts)
  fix s1 s2 idx'
  assume s1: "fc_functions s1 = fc_functions s" "fc_pending_lambdas s1 = fc_pending_lambdas s" "fc_code s1 = []"
    and s2: "compile_expr E (child (Some ''n_0'') (length (fd_params fd) + 1)) (fd_body fd) True s1 = Some s2"
    and s': "map_of (ce_function_names E) (fd_name fd) = Some idx'" "set_body idx' (emits [Return] s2) = Some s'"
  show ?thesis
    using body_compiled [OF s2 s1(3) assms(3) s'(2) _ assms(4), of W] assms(2,5) bodies_inv_cong [OF s1(1,2)] s'(1) by simp
qed

lemma compile_fns_inv:
  assumes "compile_fns E aliases stages s = Some s'" "bodies_inv E W s" "length (fc_functions s') < 2 ^ 32"
    and "\<forall>fd. StFnDecl fd \<in> set stages \<longrightarrow> no_iter_next E (fd_body fd)"
  shows "bodies_inv E (W - {i. \<exists>fd. StFnDecl fd \<in> set stages \<and> map_of (ce_function_names E) (fd_name fd) = Some i}) s'"
  using assms
proof (induction stages arbitrary: s W)
  case (Cons st stages)
  show ?case
  proof (cases st)
    case (StFnDecl fd)
    obtain s1 where s1: "compile_fn E aliases fd s = Some s1" "compile_fns E aliases stages s1 = Some s'"
      using Cons.prems(1) StFnDecl by (auto simp: compile_fns_Cons bind_eq_Some_conv)
    obtain idx where idx: "map_of (ce_function_names E) (fd_name fd) = Some idx"
      using s1(1) by (rule compile_fn_parts)
    have "bodies_inv E (W - {idx}) s1"
      using compile_fn_inv [OF s1(1) Cons.prems(2) _ _ idx] Cons.prems(3,4) StFnDecl compile_fns_grows [OF s1(2)] by simp
    note rest = Cons.IH [OF s1(2) this Cons.prems(3)]
    have "W - {idx} - {i. \<exists>fd. StFnDecl fd \<in> set stages \<and> map_of (ce_function_names E) (fd_name fd) = Some i} =
        W - {i. \<exists>fd. StFnDecl fd \<in> set (st # stages) \<and> map_of (ce_function_names E) (fd_name fd) = Some i}"
      using idx StFnDecl by auto
    then show ?thesis
      using rest Cons.prems(4) by simp
  qed (use Cons in \<open>simp_all add: compile_fns_Cons\<close>)
qed (simp add: compile_fns_def)

lemma compile_lambdas_inv:
  assumes "compile_lambdas E s = Some s'" "bodies_inv E {} s" "length (fc_functions s') < 2 ^ 32"
  shows "list_all fine (fc_functions s')"
  using assms
proof (induction E s rule: compile_lambdas.induct)
  case (1 E s)
  show ?case
  proof (cases "fc_pending_lambdas s")
    case Nil
    then show ?thesis
      using 1 by (simp add: compile_lambdas.simps [of E s] bodies_inv_def list_all_length)
  next
    case (Cons pl rest)
    let ?s = "s\<lparr>fc_pending_lambdas := rest\<rparr>"
    obtain s1 where s1: "compile_pending E pl ?s = Some s1" "compile_lambdas E s1 = Some s'"
      using "1.prems"(1) Cons by (subst (asm) compile_lambdas.simps) (auto split: option.splits)
    have inv: "bodies_inv E {pl_fn_id pl} ?s" and body: "no_iter_next E (pl_body pl)"
      using "1.prems"(2) Cons by (auto simp: bodies_inv_def)
    have "bodies_inv E {} s1"
      using s1(1)
    proof (rule compile_pending_parts)
      fix a b assume a: "fc_functions a = fc_functions ?s" "fc_pending_lambdas a = fc_pending_lambdas ?s" "fc_code a = []"
        and b: "compile_expr E None (pl_body pl) True a = Some b" "set_body (pl_fn_id pl) (emits [Return] b) = Some s1"
      show ?thesis
        using body_compiled [OF b(1) a(3) body b(2), of "{pl_fn_id pl}"] inv bodies_inv_cong [OF a(1,2)]
          compile_lambdas_grows [OF s1(2)] "1.prems"(3) by simp
    qed
    then show ?thesis
      using "1.IH" [OF Cons s1(1)] s1(2) "1.prems"(3) by simp
  qed
qed

section \<open>The tables\<close>

definition fn_decls :: "Stage list \<Rightarrow> FnDecl list" where
  "fn_decls stages = concat (map (\<lambda>s. case s of StFnDecl fd \<Rightarrow> [fd] | _ \<Rightarrow> []) stages)"

lemma fn_decls_mem: "fd \<in> set (fn_decls stages) \<longleftrightarrow> StFnDecl fd \<in> set stages"
  by (induction stages) (auto simp: fn_decls_def split: Stage.splits)

lemma map_of_imap_insert: "map_of (imap_insert k v m) = (map_of m)(k \<mapsto> v)"
  by (induction k v m rule: imap_insert.induct) (auto simp: fun_eq_iff)

lemma declared:
  assumes "distinct (map fd_name (fn_decls stages))" "length fns + length (fn_decls stages) < 2 ^ 32"
    and "fold (\<lambda>s (names, fns).
         case s of StFnDecl fd \<Rightarrow> (imap_insert (fd_name fd) (as_u32 (length fns)) names, fns @ [function_of fd])
         | _ \<Rightarrow> (names, fns)) stages (names, fns) = (names', fns')"
  shows "fns' = fns @ map function_of (fn_decls stages) \<and>
    (\<forall>n. n \<notin> set (map fd_name (fn_decls stages)) \<longrightarrow> map_of names' n = map_of names n) \<and>
    (\<forall>i < length (fn_decls stages). map_of names' (fd_name (fn_decls stages ! i)) = Some (length fns + i))"
  using assms
proof (induction stages arbitrary: names fns)
  case (Cons s stages)
  show ?case
  proof (cases s)
    case (StFnDecl fd)
    have decls: "fn_decls (s # stages) = fd # fn_decls stages"
      using StFnDecl by (simp add: fn_decls_def)
    have "as_u32 (length fns) = length fns"
      using Cons.prems(2) decls by (simp add: as_u32_def)
    then show ?thesis
      using Cons.IH [of "fns @ [function_of fd]" "imap_insert (fd_name fd) (length fns) names"] Cons.prems StFnDecl decls
      by (auto simp: map_of_imap_insert nth_Cons split: nat.split)
  qed (use Cons in \<open>simp_all add: fn_decls_def\<close>)
qed (simp add: fn_decls_def)

lemma declared_length: "length (snd (declare_functions stages)) = length (fn_decls stages)"
proof -
  have "length (snd (fold (\<lambda>s (names, fns).
         case s of StFnDecl fd \<Rightarrow> (imap_insert (fd_name fd) (as_u32 (length fns)) names, fns @ [function_of fd])
         | _ \<Rightarrow> (names, fns)) stages (names, fns))) = length fns + length (fn_decls stages)" for names fns
    by (induction stages arbitrary: names fns) (auto simp: fn_decls_def split: Stage.splits)
  then show ?thesis
    by (simp add: declare_functions_def)
qed

lemma declared_index:
  assumes "distinct (map fd_name (fn_decls stages))" "length (fn_decls stages) < 2 ^ 32" "i < length (fn_decls stages)"
  shows "map_of (ce_function_names (env_of E stages)) (fd_name (fn_decls stages ! i)) = Some i"
proof -
  obtain names fns where d: "declare_functions stages = (names, fns)"
    by fastforce
  show ?thesis
    using declared [OF assms(1), of "[]" "[]" names fns] assms(2,3) d by (simp add: declare_functions_def env_of_def)
qed

lemma compile_bodies_fine:
  assumes "compile_bodies E stages = Some s" "distinct (map fd_name (fn_decls stages))"
    and "\<forall>fd \<in> set (fn_decls stages). no_iter_next (env_of E stages) (fd_body fd)" "length (fc_functions s) < 2 ^ 32"
  shows "list_all fine (fc_functions s)"
proof -
  let ?E = "env_of E stages" and ?n = "length (fn_decls stages)"
  let ?done = "{i. \<exists>fd. StFnDecl fd \<in> set stages \<and> map_of (ce_function_names ?E) (fd_name fd) = Some i}"
  obtain s1 where s1: "compile_fns ?E (type_aliases_of stages) stages (compile_start stages) = Some s1"
    and s: "compile_lambdas ?E s1 = Some s"
    using assms(1) by (auto simp: compile_bodies_def bind_eq_Some_conv)
  have len: "?n \<le> length (fc_functions s1)" "length (fc_functions s1) \<le> length (fc_functions s)"
    using compile_fns_grows [OF s1] compile_lambdas_grows [OF s] declared_length [of stages] by (auto simp: compile_start_def)
  have "bodies_inv ?E {..<?n} (compile_start stages)"
    using declared_length [of stages] by (simp add: bodies_inv_def compile_start_def)
  from compile_fns_inv [OF s1 this] have "bodies_inv ?E ({..<?n} - ?done) s1"
    using assms(3,4) len by (auto simp: fn_decls_mem)
  moreover have "i \<in> ?done" if "i < ?n" for i
    using declared_index [OF assms(2) _ that] assms(4) len nth_mem [OF that] by (auto simp: fn_decls_mem)
  then have "{..<?n} - ?done = {}"
    by blast
  ultimately have "bodies_inv ?E {} s1"
    by (simp only:)
  then show ?thesis
    by (rule compile_lambdas_inv [OF s _ assms(4)])
qed

section \<open>Programs\<close>

definition preserves :: "Op list \<Rightarrow> Op list \<Rightarrow> bool" where
  "preserves raw code \<longleftrightarrow>
     length code = length raw \<and> (\<forall>ds. well_stacked raw ds \<longrightarrow> well_stacked code ds) \<and>
     (\<forall>shapes. map (hash_form shapes) code = map (hash_form shapes) raw)"

lemma preserves_trans: "preserves a b \<Longrightarrow> preserves b c \<Longrightarrow> preserves a c"
  by (simp add: preserves_def)

lemma passes_preserve:
  "preserves code (apply_escape_lowering name idx code)" "preserves code (apply_arena_lowering name idx' code)"
  "preserves code (take_dead code outs)" "plain_ops code \<Longrightarrow> preserves code (peephole_code cs code)"
  unfolding preserves_def
  using lowering_shape list_all2_lengthD same_shape_stacked hash_form_lowering peephole_code_from fused_stacked hash_form_fused
  by (metis, metis, metis, metis peephole_code_length)

lemma lowering_plain:
  "plain_ops (apply_escape_lowering name idx code) \<longleftrightarrow> plain_ops code"
  "plain_ops (apply_arena_lowering name idx' code) \<longleftrightarrow> plain_ops code"
  using same_shape_plain lowering_shape by blast+

text \<open>What becomes of a function between its body and its stamp.\<close>

definition passed :: "Function \<Rightarrow> Function \<Rightarrow> bool" where
  "passed f g \<longleftrightarrow>
     g = f\<lparr>fn_code := fn_code g\<rparr> \<and> length (fn_code g) = length (fn_code f) \<and> (plain_ops (fn_code f) \<longrightarrow> preserves (fn_code f) (fn_code g))"

lemma preserves_refl: "preserves code code"
  by (simp add: preserves_def)

lemma recode_trans: "(g :: Function) = f\<lparr>fn_code := c\<rparr> \<Longrightarrow> h = g\<lparr>fn_code := d\<rparr> \<Longrightarrow> h = f\<lparr>fn_code := d\<rparr>"
  by simp

lemma on_code_all2:
  "(\<And>f. R f (f\<lparr>fn_code := g f (fn_code f)\<rparr>)) \<Longrightarrow> list_all2 R fns (on_code g fns)"
  by (simp add: on_code_def list_all2_map2 list_all2_same)

lemma all2_refl: "(\<And>x. R x x) \<Longrightarrow> list_all2 R xs xs"
  by (simp add: list_all2_same)

lemma length_fuse: "length (fuse_loop w n code i) = length code"
  by (induction w n code i rule: fuse_loop.induct) (subst fuse_loop.simps, auto split: option.splits)

lemma length_peephole: "length (peephole_code cs code) = length code"
  by (simp add: peephole_code_def apply_peephole_def apply_peephole_slice2_def apply_peephole_slice3_def
      apply_peephole_slice4_def apply_peephole_slice5_def apply_peephole_slice6_def apply_peephole_slice7_def
      apply_peephole_slice9_def fuse_def length_fuse)

lemma lower_functions_passed: "list_all2 passed fns (lower_functions E cs fns)"
proof -
  let ?kept = "\<lambda>f g :: Function. g = f\<lparr>fn_code := fn_code g\<rparr> \<and> preserves (fn_code f) (fn_code g) \<and>
    (plain_ops (fn_code g) \<longleftrightarrow> plain_ops (fn_code f))"
  define fns1 where "fns1 = (if ce_no_stack_records E then fns
    else on_code (\<lambda>f. apply_escape_lowering (fn_name f) (ce_escape_index E fns)) fns)"
  define fns2 where "fns2 = (if ce_no_arena_records E then fns1
    else on_code (\<lambda>f. apply_arena_lowering (fn_name f) (ce_arena_index E fns1)) fns1)"
  have one: "list_all2 ?kept fns fns1"
    unfolding fns1_def by (auto intro!: on_code_all2 all2_refl simp: passes_preserve lowering_plain preserves_refl)
  have two: "list_all2 ?kept fns1 fns2"
    unfolding fns2_def by (auto intro!: on_code_all2 all2_refl simp: passes_preserve lowering_plain preserves_refl)
  have three: "list_all2 passed fns2 (on_code (\<lambda>f. peephole_code cs) fns2)"
    by (rule on_code_all2) (auto simp: passed_def passes_preserve length_peephole)
  have join: "passed f h" if "?kept f g" "passed g h" for f g h
    using that recode_trans [of g "fn_code g" f h "fn_code h"] by (simp add: passed_def preserves_def)
  have rest: "list_all2 passed fns1 (on_code (\<lambda>f. peephole_code cs) fns2)"
    by (rule list_all2_trans [OF _ two three]) (erule (1) join)
  have "list_all2 passed fns (on_code (\<lambda>f. peephole_code cs) fns2)"
    by (rule list_all2_trans [OF _ one rest]) (erule (1) join)
  then show ?thesis
    by (simp only: lower_functions_def Let_def fns1_def fns2_def)
qed

lemma seq_all_all2: "seq_all (map g xs) = Some ys \<longleftrightarrow> list_all2 (\<lambda>x y. g x = Some y) xs ys"
  by (induction xs arbitrary: ys) (auto simp: list_all2_Cons1 split: option.splits)

lemma take_functions_passed:
  assumes "take_functions E fns = Some fns'"
  shows "list_all2 (\<lambda>f g. g = f\<lparr>fn_code := fn_code g\<rparr> \<and> preserves (fn_code f) (fn_code g)) fns fns'"
proof (cases "ce_no_take_locals E")
  case True
  then show ?thesis
    using assms by (auto simp: take_functions_def preserves_refl intro!: all2_refl)
next
  case False
  then have "list_all2 (\<lambda>f g. \<exists>c. apply_last_load_takes (fn_code f) = Some c \<and> f\<lparr>fn_code := c\<rparr> = g) fns fns'"
    using assms by (simp add: take_functions_def seq_all_all2)
  then show ?thesis
    by (rule list_all2_mono) (auto simp: apply_last_load_takes_def passes_preserve)
qed

lemma stamped:
  assumes "stamp_function E shapes f = Some g"
  shows "g = f\<lparr>fn_body_hash := fn_body_hash g\<rparr>"
    and "fn_body_hash f = ZERO_BODY_HASH \<Longrightarrow>
      compute_body_hash E (fn_arity f) (fn_locals_count f) (fn_code f) shapes = Some (fn_body_hash g)"
    and "fn_body_hash f \<noteq> ZERO_BODY_HASH \<Longrightarrow> fn_body_hash g = fn_body_hash f"
  using assms by (auto simp: stamp_function_def split: if_splits)

lemma hash_of_passed:
  assumes "passed f h" "plain_ops (fn_code f)"
  shows "compute_body_hash E (fn_arity h) (fn_locals_count h) (fn_code h) shapes =
      compute_body_hash E (fn_arity f) (fn_locals_count f) (fn_code f) shapes"
    and "fn_body_hash h = fn_body_hash f"
proof -
  have h: "h = f\<lparr>fn_code := fn_code h\<rparr>" and code: "map (hash_form shapes) (fn_code h) = map (hash_form shapes) (fn_code f)"
    using assms by (auto simp: passed_def preserves_def)
  have "fn_arity h = fn_arity f" "fn_locals_count h = fn_locals_count f" "fn_body_hash h = fn_body_hash f"
    by (subst h, simp)+
  then show "compute_body_hash E (fn_arity h) (fn_locals_count h) (fn_code h) shapes =
      compute_body_hash E (fn_arity f) (fn_locals_count f) (fn_code f) shapes" "fn_body_hash h = fn_body_hash f"
    by (simp_all add: compute_body_hash_def code)
qed

lemma compiled_parts:
  assumes "compile_program E stages = Some P"
  obtains s where "compile_bodies E stages = Some s" "pg_record_shapes P = cp_record_shapes (fc_pool s)"
    "list_all2 (\<lambda>f g. \<exists>h. passed f h \<and> stamp_function E (pg_record_shapes P) h = Some g) (fc_functions s) (pg_functions P)"
proof -
  obtain s fns fns' where s: "compile_bodies E stages = Some s"
    and fns: "take_functions E (lower_functions E (cp_pool (fc_pool s)) (fc_functions s)) = Some fns"
    and fns': "seq_all (map (stamp_function E (cp_record_shapes (fc_pool s))) fns) = Some fns'"
    and P: "pg_functions P = fns'" "pg_record_shapes P = cp_record_shapes (fc_pool s)"
    using assms by (auto simp: compile_program_def bind_eq_Some_conv Let_def)
  have join: "passed f h" if "passed f g" "h = g\<lparr>fn_code := fn_code h\<rparr> \<and> preserves (fn_code g) (fn_code h)" for f g h
    using that recode_trans [of g "fn_code g" f h "fn_code h"] by (simp add: passed_def preserves_def)
  have "list_all2 passed (fc_functions s) fns"
    by (rule list_all2_trans [OF _ lower_functions_passed take_functions_passed [OF fns]]) (erule (1) join)
  moreover have "list_all2 (\<lambda>h g. stamp_function E (pg_record_shapes P) h = Some g) fns (pg_functions P)"
    using fns' P by (simp add: seq_all_all2)
  ultimately have "list_all2 (\<lambda>f g. \<exists>h. passed f h \<and> stamp_function E (pg_record_shapes P) h = Some g) (fc_functions s) (pg_functions P)"
    by (rule list_all2_trans [rotated 1]) blast
  then show ?thesis
    using that s P(2) by blast
qed

lemma compiled_balanced:
  assumes "compile_program E stages = Some P" "distinct (map fd_name (fn_decls stages))"
    and "\<forall>fd \<in> set (fn_decls stages). no_iter_next (env_of E stages) (fd_body fd)"
    and "length (pg_functions P) < 2 ^ 32" "\<forall>f \<in> set (pg_functions P). length (fn_code f) < 2 ^ 16"
  shows "balanced_program P"
  using assms(1)
proof (rule compiled_parts)
  fix s assume s: "compile_bodies E stages = Some s"
    and all2: "list_all2 (\<lambda>f g. \<exists>h. passed f h \<and> stamp_function E (pg_record_shapes P) h = Some g) (fc_functions s) (pg_functions P)"
  have fine: "list_all fine (fc_functions s)"
    using compile_bodies_fine [OF s assms(2,3)] assms(4) list_all2_lengthD [OF all2] by simp
  have "\<exists>ds. well_stacked (fn_code g) ds" if g: "g \<in> set (pg_functions P)" for g
  proof -
    obtain i where i: "i < length (pg_functions P)" "g = pg_functions P ! i"
      using g by (auto simp: in_set_conv_nth)
    let ?f = "fc_functions s ! i"
    obtain h where h: "passed ?f h" "stamp_function E (pg_record_shapes P) h = Some g"
      using list_all2_nthD2 [OF all2 i(1)] i(2) by auto
    have code: "fn_code g = fn_code h"
      using stamped(1) [OF h(2)] by (metis Function.ext_inject Function.surjective Function.update_convs(6))
    have "balanced_code (fn_code ?f)"
      using fine h(1) assms(5) g code i(1) list_all2_lengthD [OF all2] by (auto simp: list_all_length fine_def passed_def)
    then show ?thesis
      using h(1) code by (auto simp: balanced_code_def passed_def preserves_def)
  qed
  then show ?thesis
    by (simp add: balanced_program_def)
qed

end
