(* ===== verification/Cp_Claims.thy ===== *)
theory Cp_Claims
  imports Cp_Correct
begin

text \<open>
  What holds of compiled programs, with concrete programs compiled by simplification, and the places
  where compiled code does not do what the source says.
\<close>

section \<open>Concrete programs\<close>

definition sample_compile_env :: CompileEnv where
  "sample_compile_env =
     \<lparr>ce_function_names = [], ce_module_aliases = [], ce_fpu = sample_fpu, ce_digest = (\<lambda>_ _ _. replicate 16 1),
      ce_escape_index = (\<lambda>_ _. None), ce_arena_index = (\<lambda>_ _. None), ce_no_stack_records = False,
      ce_no_arena_records = False, ce_no_take_locals = False\<rparr>"

definition int_fn :: "string \<Rightarrow> string list \<Rightarrow> CExpr \<Rightarrow> Stage" where
  "int_fn name ps body =
     StFnDecl \<lparr>fd_name = name, fd_type_params = [], fd_params = map (\<lambda>p. (p, TNamed ''Int'' [])) ps,
       fd_effects = [], fd_effect_row_var = None, fd_return_type = TNamed ''Int'' [], fd_body = body,
       fd_examples = [], fd_doc = []\<rparr>"

text \<open>
  \<open>fn main(x) = match x { 0 => 1, n => inc(n) }\<close> and
  \<open>fn inc(x) = { let f := fn (y) => y + x; f(2) }\<close>
\<close>

definition sample_stages :: "Stage list" where
  "sample_stages =
     [int_fn ''main'' [''x'']
        (CMatch (Var ''x'') [(PLiteral (LInt 0), Literal (LInt 1)), (PVar ''n'', CCall (Var ''inc'') [Var ''n''])]),
      int_fn ''inc'' [''x'']
        (CLet ''f'' None
          (Lambda [(''y'', TNamed ''Int'' [])] (TNamed ''Int'' []) [] None (BinOp ''+'' (Var ''y'') (Var ''x'')))
          (CCall (Var ''f'') [Literal (LInt 2)]))]"

text \<open>\<open>fn main(x) = { let y := { let x := 10; x }; x + y }\<close>\<close>

definition leak_stages :: "Stage list" where
  "leak_stages =
     [int_fn ''main'' [''x'']
        (CLet ''y'' None (CLet ''x'' None (Literal (LInt 10)) (Var ''x'')) (BinOp ''+'' (Var ''x'') (Var ''y'')))]"

text \<open>\<open>fn f(x) = 1\<close> and \<open>fn main(x) = { let f := fn (y) => 2; f(x) }\<close>\<close>

definition shadow_stages :: "Stage list" where
  "shadow_stages =
     [int_fn ''f'' [''x''] (Literal (LInt 1)),
      int_fn ''main'' [''x'']
        (CLet ''f'' None (Lambda [(''y'', TNamed ''Int'' [])] (TNamed ''Int'' []) [] None (Literal (LInt 2)))
          (CCall (Var ''f'') [Var ''x'']))]"

text \<open>Evaluation of the compiler: continuations are left alone until their argument is a value.\<close>

lemma bind_weak_cong: "m = m' \<Longrightarrow> Option.bind m f = Option.bind m' f"
  by simp

lemmas eval_congs = bind_weak_cong let_weak_cong option.case_cong_weak if_weak_cong

lemmas eval_pool = pool_push_def pool_field_def pool_variant_def pool_node_id_def pool_int_def pool_bool_def pool_str_def
  pool_float_def pool_unit_def pool_record_shape_def pool_default_def with_pool_def

lemmas eval_compile = eval_pool compile_expr.simps compile_match_def compile_arm_def compile_lit_def compile_var_def
  store_new_def emits_def alloc_local_def here_def patch_jump_def set_offset_def compile_binop_def emit_binop_def
  by_type_def literal_eq_def as_u16_def as_u32_def child_def compile_call_def module_callee_def call_value_def
  compile_lambda_def let_types_def bind_let_def nat_text.simps

lemmas eval_bodies = compile_bodies_def int_fn_def compile_fns_def compile_fn_def compile_pending_def env_of_def
  declare_functions_def module_aliases_of_def type_aliases_of_def compile_start_def function_of_def fresh_def bind_param_def
  bind_slot_def set_body_def nth_opt_def compile_lambdas.simps sample_compile_env_def

definition sample_bodies :: "Function list" where
  "sample_bodies =
     [(plain_function ''main'' 1 3
         [LoadLocal 0, StoreLocal 1, LoadLocal 1, PushConst 0, Prim IntEq, JumpIfNot 2, PushConst 1, Jump 6,
          LoadLocal 1, StoreLocal 2, LoadLocal 2, TailCall 1 1 2, Jump 1, Panic 3, Return])\<lparr>fn_refinements := [None]\<rparr>,
      (plain_function ''inc'' 1 2
         [LoadLocal 0, MakeClosure 2 1, StoreLocal 1, LoadLocal 1, PushConst 5, CallClosure 1 4, Return])\<lparr>fn_refinements := [None]\<rparr>,
      plain_function ''__lambda_2'' 2 2 [LoadLocal 1, LoadLocal 0, Prim NumAdd, Return]]"

lemma sample_compiled:
  "\<exists>s. compile_bodies sample_compile_env sample_stages = Some s \<and> fc_functions s = sample_bodies \<and>
     cp_pool (fc_pool s) = [ConstInt 0, ConstInt 1, NodeId ''n_0.2.4'', ConstStr ''non-exhaustive match'', NodeId ''n_0.2.1'', ConstInt 2] \<and>
     cp_record_shapes (fc_pool s) = []"
  unfolding sample_stages_def sample_bodies_def
  by (simp add: eval_bodies eval_compile plain_function_def ZERO_BODY_HASH_def cong: eval_congs, code_simp)

definition hashed :: "Function \<Rightarrow> Op list \<Rightarrow> Function" where
  "hashed f code = f\<lparr>fn_code := code, fn_body_hash := replicate 16 1\<rparr>"

definition finished :: "Stage list \<Rightarrow> Const list \<Rightarrow> nat list list \<Rightarrow> Function list \<Rightarrow> Program" where
  "finished stages constants shapes fns =
     \<lparr>pg_constants = constants, pg_functions = fns, pg_function_names = fst (declare_functions stages),
      pg_module_aliases = module_aliases_of stages, pg_entry = None, pg_record_shapes = shapes\<rparr>"

lemma no_lowering:
  "apply_escape_lowering name (\<lambda>_. None) = (\<lambda>code. code)" "apply_arena_lowering name (\<lambda>_. None) = (\<lambda>code. code)"
  by (simp_all add: apply_escape_lowering_def apply_arena_lowering_def lower_at_def split_def fun_eq_iff)

text \<open>From the bodies to the program, function by function.\<close>

lemma compiled_by:
  assumes "\<exists>s. compile_bodies sample_compile_env stages = Some s \<and> fc_functions s = fns \<and> cp_pool (fc_pool s) = cs \<and>
      cp_record_shapes (fc_pool s) = shapes"
    and peeped: "list_all2 (\<lambda>f m. peephole_code cs (fn_code f) = m) fns mids"
    and taken: "list_all2 (\<lambda>m c. apply_last_load_takes m = Some c) mids codes"
    and "list_all (\<lambda>f. fn_body_hash f = ZERO_BODY_HASH) fns" "list_all (\<lambda>c. seq_all (map (hash_form shapes) c) \<noteq> None) codes"
  shows "compile_program sample_compile_env stages = Some (finished stages cs shapes (map2 hashed fns codes))"
proof -
  let ?E = sample_compile_env
  let ?taken = "map2 (\<lambda>f c. f\<lparr>fn_code := c\<rparr>) fns codes"
  have same: "on_code (\<lambda>f code. code) fs = fs" for fs
    by (simp add: on_code_def)
  have "lower_functions ?E cs fns = on_code (\<lambda>f. peephole_code cs) fns"
    by (simp add: lower_functions_def sample_compile_env_def no_lowering same)
  moreover have "seq_all (map (\<lambda>f. map_option (\<lambda>c. f\<lparr>fn_code := c\<rparr>) (apply_last_load_takes (fn_code f)))
      (on_code (\<lambda>f. peephole_code cs) fns)) = Some ?taken"
    using peeped taken by (auto simp: seq_all_all2 on_code_def list_all2_conv_all_nth)
  ultimately have "take_functions ?E (lower_functions ?E cs fns) = Some ?taken"
    by (simp add: take_functions_def sample_compile_env_def)
  moreover have "seq_all (map (stamp_function ?E shapes) ?taken) = Some (map2 hashed fns codes)"
  proof (subst seq_all_all2)
    have stamp: "stamp_function ?E shapes (f\<lparr>fn_code := c\<rparr>) = Some (hashed f c)"
      if "fn_body_hash f = ZERO_BODY_HASH" "seq_all (map (hash_form shapes) c) \<noteq> None" for f c
      using that by (auto simp: stamp_function_def compute_body_hash_def sample_compile_env_def hashed_def)
    show "list_all2 (\<lambda>f g. stamp_function ?E shapes f = Some g) ?taken (map2 hashed fns codes)"
      using assms(4,5) list_all2_lengthD [OF peeped] list_all2_lengthD [OF taken]
      by (auto simp: list_all2_conv_all_nth list_all_length intro!: stamp)
  qed
  ultimately show ?thesis
    using assms(1) by (auto simp: compile_program_def finished_def)
qed

definition sample_fused :: "Op list list" where
  "sample_fused =
     [[Fused (LoadLocalStoreEqIntConstJumpIfNot 0 1 0 2), StoreLocal 1, Fused (LoadLocalEqIntConstJumpIfNot 1 0 2),
       PushConst 0, Prim IntEq, JumpIfNot 2, PushConst 1, Jump 6, LoadLocal 1, StoreLocal 2, LoadLocal 2,
       TailCall 1 1 2, Jump 1, Panic 3, Return],
      [LoadLocal 0, MakeClosure 2 1, StoreLocal 1, LoadLocal 1, PushConst 5, CallClosure 1 4, Return],
      [LoadLocal 1, LoadLocal 0, Prim NumAdd, Return]]"

definition sample_codes :: "Op list list" where
  "sample_codes =
     [[Fused (LoadLocalStoreEqIntConstJumpIfNot 0 1 0 2), StoreLocal 1, Fused (LoadLocalEqIntConstJumpIfNot 1 0 2),
       PushConst 0, Prim IntEq, JumpIfNot 2, PushConst 1, Jump 6, TakeLocal 1, StoreLocal 2, TakeLocal 2,
       TailCall 1 1 2, Jump 1, Panic 3, Return],
      [TakeLocal 0, MakeClosure 2 1, StoreLocal 1, TakeLocal 1, PushConst 5, CallClosure 1 4, Return],
      [TakeLocal 1, TakeLocal 0, Prim NumAdd, Return]]"

definition sample_constants :: "Const list" where
  "sample_constants = [ConstInt 0, ConstInt 1, NodeId ''n_0.2.4'', ConstStr ''non-exhaustive match'', NodeId ''n_0.2.1'', ConstInt 2]"

definition sample_program :: Program where
  "sample_program = finished sample_stages sample_constants [] (map2 hashed sample_bodies sample_codes)"

lemmas list_all_lists = list.rel_inject list.pred_inject simp_thms

lemma sample_program_compiled: "compile_program sample_compile_env sample_stages = Some sample_program"
  unfolding sample_program_def
  by (rule compiled_by [where mids = sample_fused], rule sample_compiled [folded sample_constants_def];
      unfold sample_bodies_def sample_fused_def sample_codes_def list_all_lists; intro conjI TrueI; code_simp)

text \<open>The same for the two other programs.\<close>

definition leak_bodies :: "Function list" where
  "leak_bodies =
     [(plain_function ''main'' 1 3
         [PushConst 0, StoreLocal 1, LoadLocal 1, StoreLocal 2, LoadLocal 1, LoadLocal 2, Prim NumAdd, Return])\<lparr>fn_refinements := [None]\<rparr>]"

lemma leak_compiled:
  "\<exists>s. compile_bodies sample_compile_env leak_stages = Some s \<and> fc_functions s = leak_bodies \<and>
     cp_pool (fc_pool s) = [ConstInt 10] \<and> cp_record_shapes (fc_pool s) = []"
  unfolding leak_stages_def leak_bodies_def
  by (simp add: eval_bodies eval_compile plain_function_def ZERO_BODY_HASH_def cong: eval_congs)

definition leak_program :: Program where
  "leak_program = finished leak_stages [ConstInt 10] [] (map2 hashed leak_bodies
     [[PushConst 0, StoreLocal 1, LoadLocal 1, StoreLocal 2, TakeLocal 1, TakeLocal 2, Prim NumAdd, Return]])"

lemma leak_program_compiled: "compile_program sample_compile_env leak_stages = Some leak_program"
  unfolding leak_program_def
  by (rule compiled_by [where mids = "map fn_code leak_bodies"], rule leak_compiled; unfold leak_bodies_def list.map list_all_lists; intro conjI TrueI; code_simp)

definition shadow_bodies :: "Function list" where
  "shadow_bodies =
     [(plain_function ''f'' 1 1 [PushConst 0, Return])\<lparr>fn_refinements := [None]\<rparr>,
      (plain_function ''main'' 1 2 [MakeClosure 2 0, StoreLocal 1, LoadLocal 0, TailCall 0 1 1, Return])\<lparr>fn_refinements := [None]\<rparr>,
      plain_function ''__lambda_2'' 1 1 [PushConst 2, Return]]"

lemma shadow_compiled:
  "\<exists>s. compile_bodies sample_compile_env shadow_stages = Some s \<and> fc_functions s = shadow_bodies \<and>
     cp_pool (fc_pool s) = [ConstInt 1, NodeId ''n_0.2.1'', ConstInt 2] \<and> cp_record_shapes (fc_pool s) = []"
  unfolding shadow_stages_def shadow_bodies_def
  by (simp add: eval_bodies eval_compile plain_function_def ZERO_BODY_HASH_def cong: eval_congs, code_simp)

definition shadow_program :: Program where
  "shadow_program = finished shadow_stages [ConstInt 1, NodeId ''n_0.2.1'', ConstInt 2] [] (map2 hashed shadow_bodies
     [[PushConst 0, Return], [MakeClosure 2 0, StoreLocal 1, TakeLocal 0, TailCall 0 1 1, Return], [PushConst 2, Return]])"

lemma shadow_program_compiled: "compile_program sample_compile_env shadow_stages = Some shadow_program"
  unfolding shadow_program_def
  by (rule compiled_by [where mids = "map fn_code shadow_bodies"], rule shadow_compiled; unfold shadow_bodies_def list.map list_all_lists; intro conjI TrueI; code_simp)

section \<open>Properties\<close>

text \<open>
  C26. Compiled programs keep the stack: when a program compiles whose functions have distinct names
  and do not use \<open>iter.next\<close>, with every function shorter than \<open>2 ^ 16\<close> instructions, then no call
  into it, whatever the arguments, the effect handler, the results of the two allocation analyses
  and the switches, takes an operand or an argument that is not there or fetches an instruction
  outside the code; and a call that returns leaves the frames, the operand stack and the locals as
  they were.
\<close>

theorem compiled_calls_disciplined:
  assumes "compile_program E stages = Some P" and "distinct (map fd_name (fn_decls stages))"
    and "\<forall>fd \<in> set (fn_decls stages). no_iter_next (env_of E stages) (fd_body fd)"
    and "length (pg_functions P) < 2 ^ 32" and "\<forall>f \<in> set (pg_functions P). length (fn_code f) < 2 ^ 16"
  shows "case call Env P (run_to n Env P) vm name args of
      None \<Rightarrow> True
    | Some (Inl e) \<Rightarrow> e \<noteq> VmErr StackUnderflow \<and> e \<noteq> PcRange \<and> e \<noteq> ArgsRange
    | Some (Inr (vm', _)) \<Rightarrow> vm_frames vm' = vm_frames vm \<and> vm_stack vm' = vm_stack vm \<and> vm_locals vm' = vm_locals vm"
proof -
  have "disciplined (unchanged vm) (call Env P (run_to n Env P) vm name args)"
    using rt.invoke_unchanged [OF compiled_balanced [OF assms]] by (auto simp: call_def split: option.split)
  then show ?thesis
    by (auto simp: disciplined_def bad_def unchanged_def split: option.splits sum.splits)
qed

lemma sample_decls:
  "distinct (map fd_name (fn_decls sample_stages))"
  "\<forall>fd \<in> set (fn_decls sample_stages). no_iter_next (env_of sample_compile_env sample_stages) (fd_body fd)"
  by (simp_all add: fn_decls_def sample_stages_def int_fn_def env_of_def module_callee_def)

theorem compiled_calls_disciplined_witness:
  "\<exists>vm'. call sample_env sample_program (run_to 40 sample_env sample_program) (with_handler sample_program ()) ''main'' [VInt 3]
      = Some (Inr (vm', VInt 5)) \<and> vm_frames vm' = [] \<and> vm_stack vm' = [] \<and> vm_locals vm' = []"
proof -
  let ?vm = "with_handler sample_program ()"
  let ?r = "call sample_env sample_program (run_to 40 sample_env sample_program) ?vm ''main'' [VInt 3]"
  have "map_option (map_sum id snd) ?r = Some (Inr (VInt 5))"
    by code_simp
  then obtain z where "?r = Some z" "map_sum id snd z = Inr (VInt 5)"
    by auto
  then obtain vm' where "?r = Some (Inr (vm', VInt 5))"
    by (cases z) auto
  moreover have "length (pg_functions sample_program) < 2 ^ 32"
    "\<forall>f \<in> set (pg_functions sample_program). length (fn_code f) < 2 ^ 16"
    by (simp_all add: sample_program_def finished_def sample_bodies_def sample_codes_def hashed_def)
  ultimately show ?thesis
    using compiled_calls_disciplined [OF sample_program_compiled sample_decls, where Env = sample_env and n = 40 and vm = ?vm
        and name = "''main''" and args = "[VInt 3]"]
    by (simp add: with_handler_def)
qed

text \<open>
  C27. Closure identity does not depend on the passes: the hash stamped on every function of a
  compiled program is the digest of the code as it was first emitted, before the allocation rewrites,
  the superinstructions and the moving loads, whatever the analyses say and whichever switches are
  set; a function that already has a hash (a trampoline) keeps it. The emitted code is code without
  superinstructions.
\<close>

theorem body_hash_of_emitted_code:
  assumes "compile_program E stages = Some P"
  shows "\<exists>s. compile_bodies E stages = Some s \<and> length (pg_functions P) = length (fc_functions s) \<and>
    (\<forall>i < length (pg_functions P). plain_ops (fn_code (fc_functions s ! i)) \<longrightarrow>
       (if fn_body_hash (fc_functions s ! i) = ZERO_BODY_HASH then
          compute_body_hash E (fn_arity (fc_functions s ! i)) (fn_locals_count (fc_functions s ! i))
            (fn_code (fc_functions s ! i)) (pg_record_shapes P) = Some (fn_body_hash (pg_functions P ! i))
        else fn_body_hash (pg_functions P ! i) = fn_body_hash (fc_functions s ! i)))"
  using assms
proof (rule compiled_parts)
  fix s assume s: "compile_bodies E stages = Some s"
    and all2: "list_all2 (\<lambda>f g. \<exists>h. passed f h \<and> stamp_function E (pg_record_shapes P) h = Some g) (fc_functions s) (pg_functions P)"
  have "if fn_body_hash f = ZERO_BODY_HASH then
          compute_body_hash E (fn_arity f) (fn_locals_count f) (fn_code f) (pg_record_shapes P) = Some (fn_body_hash g)
        else fn_body_hash g = fn_body_hash f"
    if "passed f h" "stamp_function E (pg_record_shapes P) h = Some g" "plain_ops (fn_code f)" for f g h
    using that hash_of_passed(1) [OF that(1,3), of E "pg_record_shapes P"] hash_of_passed(2) [OF that(1,3)] stamped(2,3) [OF that(2)] by auto
  then show ?thesis
    using s all2 by (intro exI [of _ s]) (auto simp: list_all2_conv_all_nth)
qed

lemma sample_raw_functions:
  "compile_bodies sample_compile_env sample_stages = Some s \<Longrightarrow> fc_functions s = sample_bodies"
  using sample_compiled by auto

theorem body_hash_of_emitted_code_witness:
  "compute_body_hash sample_compile_env 2 2 [LoadLocal 1, LoadLocal 0, Prim NumAdd, Return] [] =
     Some (fn_body_hash (pg_functions sample_program ! 2)) \<and>
   fn_code (pg_functions sample_program ! 2) = [TakeLocal 1, TakeLocal 0, Prim NumAdd, Return]"
proof -
  have P: "length (pg_functions sample_program) = 3" "pg_record_shapes sample_program = []"
    "fn_code (pg_functions sample_program ! 2) = [TakeLocal 1, TakeLocal 0, Prim NumAdd, Return]"
    by (simp_all add: sample_program_def finished_def sample_bodies_def sample_codes_def hashed_def)
  have third: "sample_bodies ! 2 = plain_function ''__lambda_2'' 2 2 [LoadLocal 1, LoadLocal 0, Prim NumAdd, Return]"
    by (simp add: sample_bodies_def)
  show ?thesis
    using body_hash_of_emitted_code [OF sample_program_compiled] P third sample_raw_functions
    by (auto simp: plain_function_def ZERO_BODY_HASH_def dest!: spec [of _ 2])
qed

text \<open>
  C28. The analysis behind the moving loads ends on every code, with sets that solve the liveness
  equations: what is live behind an instruction is what is live in front of its successors, and in
  front of it also what it reads, without what it writes. A load becomes a moving load exactly where
  its slot is not live behind it, superinstruction tombstones excepted; nothing else changes.
\<close>

theorem last_load_takes_solved:
  "\<exists>ins outs. outs = map (\<lambda>pc. \<Union>s \<in> set (live_succs (length code) pc (code ! pc)). ins ! s) [0..<length code] \<and>
     ins = map (\<lambda>pc. (outs ! pc - set_option (slot_writes (code ! pc))) \<union> set (slot_reads (code ! pc))) [0..<length code] \<and>
     apply_last_load_takes code =
       Some (map (\<lambda>pc. case code ! pc of
             LoadLocal i \<Rightarrow> if i \<in> outs ! pc \<or> tombstone code pc then LoadLocal i else TakeLocal i
           | op' \<Rightarrow> op') [0..<length code])"
proof -
  obtain ins outs where live: "liveness code = Some (ins, outs, False)" "\<forall>pc < length code. live_solved code ins outs pc"
    and len: "length ins = length code" "length outs = length code"
    using liveness_total [of code] by (auto simp: live_inv_def)
  have "outs = map (\<lambda>pc. \<Union>s \<in> set (live_succs (length code) pc (code ! pc)). ins ! s) [0..<length code]"
    using live(2) len by (auto intro!: nth_equalityI simp: live_solved_def flow_out_def)
  moreover have "ins = map (\<lambda>pc. (outs ! pc - set_option (slot_writes (code ! pc))) \<union> set (slot_reads (code ! pc))) [0..<length code]"
    using live(2) len by (intro nth_equalityI) (simp_all add: live_solved_def flow_in_def split: option.splits)
  moreover have "take_dead code outs = map (\<lambda>pc. case code ! pc of
             LoadLocal i \<Rightarrow> if i \<in> outs ! pc \<or> tombstone code pc then LoadLocal i else TakeLocal i
           | op' \<Rightarrow> op') [0..<length code]"
  proof (rule nth_equalityI)
    fix pc assume "pc < length (take_dead code outs)"
    then show "take_dead code outs ! pc = map (\<lambda>pc. case code ! pc of
             LoadLocal i \<Rightarrow> if i \<in> outs ! pc \<or> tombstone code pc then LoadLocal i else TakeLocal i
           | op' \<Rightarrow> op') [0..<length code] ! pc"
      by (cases "code ! pc") (simp_all add: take_dead_def lower_at_def nth_enumerate_eq)
  qed (simp add: take_dead_def lower_at_def)
  ultimately show ?thesis
    using live(1) by (intro exI [of _ ins] exI [of _ outs]) (simp add: apply_last_load_takes_def)
qed



end
